(* ===== verification/Relayer_Prelude.thy ===== *)
theory Relayer_Prelude
  imports Main "HOL-Library.Word"
begin

text \<open>
  Shared vocabulary of the development: Rust's \<open>Result\<close> as a sum with the error on the
  left and its combinators (\<open>?\<close> is \<open>and_then\<close>), panics as values, bytes and
  strings, the integer parsers and printers of Rust's standard library, and UTF-8
  validation. The collection \<open>result_simps\<close> carries the rewriting of \<open>Result\<close>
  values through the component proofs.
\<close>

named_theorems result_simps \<open>rewriting of Result values\<close>

section \<open>Results\<close>

text \<open>Rust's \<open>?\<close> operator and \<open>Result::and_then\<close>: the first error ends the function.\<close>

definition and_then :: "'e + 'a \<Rightarrow> ('a \<Rightarrow> 'e + 'b) \<Rightarrow> 'e + 'b" where
  "and_then r f = (case r of Inl e \<Rightarrow> Inl e | Inr a \<Rightarrow> f a)"

definition map_err :: "('e \<Rightarrow> 'f) \<Rightarrow> 'e + 'a \<Rightarrow> 'f + 'a" where
  "map_err g r = (case r of Inl e \<Rightarrow> Inl (g e) | Inr a \<Rightarrow> Inr a)"

definition map_ok :: "('a \<Rightarrow> 'b) \<Rightarrow> 'e + 'a \<Rightarrow> 'e + 'b" where
  "map_ok g r = (case r of Inl e \<Rightarrow> Inl e | Inr a \<Rightarrow> Inr (g a))"

definition ok_or :: "'e \<Rightarrow> 'a option \<Rightarrow> 'e + 'a" where
  "ok_or e x = (case x of None \<Rightarrow> Inl e | Some a \<Rightarrow> Inr a)"

definition is_ok :: "'e + 'a \<Rightarrow> bool" where
  "is_ok r = (case r of Inl _ \<Rightarrow> False | Inr _ \<Rightarrow> True)"

text \<open>\<open>iter.map(f).collect::<Result<Vec<_>, _>>()\<close>: element by element, first error wins.\<close>

fun try_map :: "('a \<Rightarrow> 'e + 'b) \<Rightarrow> 'a list \<Rightarrow> 'e + 'b list" where
  "try_map f [] = Inr []"
| "try_map f (x # xs) = and_then (f x) (\<lambda>y. and_then (try_map f xs) (\<lambda>ys. Inr (y # ys)))"

lemma and_then_Inl [simp, result_simps]: "and_then (Inl e) f = Inl e"
  and and_then_Inr [simp, result_simps]: "and_then (Inr a) f = f a"
  by (simp_all add: and_then_def)

lemma map_err_Inl [simp, result_simps]: "map_err g (Inl e) = Inl (g e)"
  and map_err_Inr [simp, result_simps]: "map_err g (Inr a) = Inr a"
  by (simp_all add: map_err_def)

lemma map_ok_Inl [simp, result_simps]: "map_ok g (Inl e) = Inl e"
  and map_ok_Inr [simp, result_simps]: "map_ok g (Inr a) = Inr (g a)"
  by (simp_all add: map_ok_def)

lemma ok_or_None [simp, result_simps]: "ok_or e None = Inl e"
  and ok_or_Some [simp, result_simps]: "ok_or e (Some a) = Inr a"
  by (simp_all add: ok_or_def)

lemma is_ok_Inl [simp, result_simps]: "\<not> is_ok (Inl e)"
  and is_ok_Inr [simp, result_simps]: "is_ok (Inr a)"
  by (simp_all add: is_ok_def)

lemma and_then_eq_Inr_iff [result_simps]:
  "and_then r f = Inr b \<longleftrightarrow> (\<exists>a. r = Inr a \<and> f a = Inr b)"
  by (cases r) auto

lemma and_then_eq_Inl_iff:
  "and_then r f = Inl e \<longleftrightarrow> r = Inl e \<or> (\<exists>a. r = Inr a \<and> f a = Inl e)"
  by (cases r) auto

lemma map_err_eq_Inr_iff [result_simps]: "map_err g r = Inr a \<longleftrightarrow> r = Inr a"
  by (cases r) auto

lemma map_err_eq_Inl_iff: "map_err g r = Inl e \<longleftrightarrow> (\<exists>d. r = Inl d \<and> e = g d)"
  by (cases r) auto

lemma ok_or_eq_Inr_iff [result_simps]: "ok_or e x = Inr a \<longleftrightarrow> x = Some a"
  by (cases x) auto

lemma ok_or_eq_Inl_iff: "ok_or e x = Inl d \<longleftrightarrow> x = None \<and> d = e"
  by (cases x) auto

lemma is_ok_iff: "is_ok r \<longleftrightarrow> (\<exists>a. r = Inr a)"
  by (cases r) auto

lemma try_map_eq_Inr_iff:
  "try_map f xs = Inr ys \<longleftrightarrow> list_all2 (\<lambda>x y. f x = Inr y) xs ys"
  by (induction xs arbitrary: ys)
    (auto simp: and_then_eq_Inr_iff list_all2_Cons1 split: sum.splits)

lemma try_map_eq_Inl: "try_map f xs = Inl e \<Longrightarrow> \<exists>x \<in> set xs. f x = Inl e"
  by (induction xs) (auto simp: and_then_eq_Inl_iff)

section \<open>Panics\<close>

text \<open>
  An out-of-range index, \<open>unwrap\<close> of an error and \<open>unimplemented!()\<close> panic in Rust.
  Where code can panic its error type is \<open>'e exn\<close>: \<open>Err e\<close> is the function's own
  \<open>Err(e)\<close>, \<open>Panicked\<close> is a panic.
\<close>

datatype 'e exn = Err 'e | Panicked

definition panics :: "'e exn + 'a \<Rightarrow> bool" where
  "panics r = (r = Inl Panicked)"

lemma panics_Inr [simp]: "\<not> panics (Inr a)"
  and panics_Err [simp]: "\<not> panics (Inl (Err e))"
  and panics_Panicked [simp]: "panics (Inl Panicked)"
  by (simp_all add: panics_def)

lemma panics_and_then [simp]:
  "panics (and_then r f) \<longleftrightarrow> panics r \<or> (\<exists>a. r = Inr a \<and> panics (f a))"
  by (cases r) (auto simp: panics_def)

lemma panics_map_err_Err [simp]: "\<not> panics (map_err (\<lambda>e. Err (g e)) r)"
  by (cases r) (auto simp: panics_def)

lemma panics_ok_or_Err [simp]: "\<not> panics (ok_or (Err e) x)"
  by (cases x) (auto simp: panics_def)

text \<open>Indexing \<open>xs[i]\<close>, and \<open>xs.get(i)\<close> which does not panic.\<close>

definition index_or_panic :: "'a list \<Rightarrow> nat \<Rightarrow> 'e exn + 'a" where
  "index_or_panic xs i = (if i < length xs then Inr (xs ! i) else Inl Panicked)"

definition get_opt :: "'a list \<Rightarrow> nat \<Rightarrow> 'a option" where
  "get_opt xs i = (if i < length xs then Some (xs ! i) else None)"

lemma get_opt_Cons_0 [simp]: "get_opt (x # xs) 0 = Some x"
  and get_opt_Cons_Suc [simp]: "get_opt (x # xs) (Suc i) = get_opt xs i"
  and get_opt_Nil [simp]: "get_opt [] i = None"
  by (simp_all add: get_opt_def)

lemma get_opt_eq_Some_iff: "get_opt xs i = Some x \<longleftrightarrow> i < length xs \<and> xs ! i = x"
  by (auto simp: get_opt_def)

lemma get_opt_eq_None_iff: "get_opt xs i = None \<longleftrightarrow> length xs \<le> i"
  by (auto simp: get_opt_def)

lemma get_opt_numeral [simp]:
  "get_opt (x # xs) (numeral n) = get_opt xs (pred_numeral n)"
  by (simp add: get_opt_def numeral_eq_Suc)

lemma panics_index [simp]: "panics (index_or_panic xs i) \<longleftrightarrow> length xs \<le> i"
  by (auto simp: index_or_panic_def panics_def)

section \<open>Bytes and strings\<close>

text \<open>
  A Rust \<open>String\<close> is its UTF-8 bytes; the model's \<open>string\<close> is a list of 8-bit
  characters, so \<open>as_bytes\<close> and the unchecked way back lose nothing.
\<close>

type_synonym byte = "8 word"
type_synonym u8 = "8 word"
type_synonym u32 = "32 word"
type_synonym i32 = "32 word"
type_synonym u64 = "64 word"
type_synonym i64 = "64 word"
type_synonym i128 = "128 word"

lemma unat_byte_less: "unat (b :: byte) < 256"
  using unsigned_less [of b, where ?'a = nat] by simp

lemma unat_u64_less: "unat (w :: u64) < 2 ^ 64"
  using unsigned_less [of w, where ?'a = nat] by simp

definition byte_of_char :: "char \<Rightarrow> byte" where
  "byte_of_char c = word_of_nat (of_char c)"

definition char_of_byte :: "byte \<Rightarrow> char" where
  "char_of_byte b = char_of (unat b)"

definition as_bytes :: "string \<Rightarrow> byte list" where
  "as_bytes s = map byte_of_char s"

definition str_of_bytes :: "byte list \<Rightarrow> string" where
  "str_of_bytes bs = map char_of_byte bs"

lemma char_of_byte_of_char [simp]: "char_of_byte (byte_of_char c) = c"
proof -
  have "of_char c < (256::nat)"
    by (rule nat_of_char_less_256)
  then show ?thesis
    by (simp add: char_of_byte_def byte_of_char_def unat_of_nat)
qed

lemma byte_of_char_of_byte [simp]: "byte_of_char (char_of_byte b) = b"
proof -
  have "unat b < 256"
    by (rule unat_byte_less)
  then show ?thesis
    by (simp add: char_of_byte_def byte_of_char_def)
qed

lemma char_of_byte_inject [simp]: "char_of_byte a = char_of_byte b \<longleftrightarrow> a = b"
  by (metis byte_of_char_of_byte)

lemma byte_of_char_inject [simp]: "byte_of_char c = byte_of_char d \<longleftrightarrow> c = d"
  by (metis char_of_byte_of_char)

lemma str_of_bytes_as_bytes [simp]: "str_of_bytes (as_bytes s) = s"
  by (simp add: str_of_bytes_def as_bytes_def o_def)

lemma as_bytes_str_of_bytes [simp]: "as_bytes (str_of_bytes bs) = bs"
  by (simp add: str_of_bytes_def as_bytes_def o_def)

subsection \<open>UTF-8\<close>

text \<open>
  \<open>String::from_utf8\<close> accepts exactly the well-formed sequences of the Unicode standard
  (table 3-7): no overlong form, no surrogate, nothing above U+10FFFF.
\<close>

definition utf8_cont :: "byte \<Rightarrow> bool" where
  "utf8_cont b \<longleftrightarrow> 0x80 \<le> b \<and> b \<le> 0xBF"

definition utf8_lead3 :: "byte \<Rightarrow> byte \<Rightarrow> bool" where
  "utf8_lead3 a b \<longleftrightarrow>
     (a = 0xE0 \<and> 0xA0 \<le> b \<and> b \<le> 0xBF)
     \<or> (0xE1 \<le> a \<and> a \<le> 0xEC \<and> utf8_cont b)
     \<or> (a = 0xED \<and> 0x80 \<le> b \<and> b \<le> 0x9F)
     \<or> (0xEE \<le> a \<and> a \<le> 0xEF \<and> utf8_cont b)"

definition utf8_lead4 :: "byte \<Rightarrow> byte \<Rightarrow> bool" where
  "utf8_lead4 a b \<longleftrightarrow>
     (a = 0xF0 \<and> 0x90 \<le> b \<and> b \<le> 0xBF)
     \<or> (0xF1 \<le> a \<and> a \<le> 0xF3 \<and> utf8_cont b)
     \<or> (a = 0xF4 \<and> 0x80 \<le> b \<and> b \<le> 0x8F)"

fun utf8_valid :: "byte list \<Rightarrow> bool" where
  "utf8_valid [] = True"
| "utf8_valid (a # r) =
     (if a < 0x80 then utf8_valid r
      else (case r of [] \<Rightarrow> False
        | b # r2 \<Rightarrow>
            if 0xC2 \<le> a \<and> a \<le> 0xDF then utf8_cont b \<and> utf8_valid r2
            else (case r2 of [] \<Rightarrow> False
              | c # r3 \<Rightarrow>
                  if utf8_lead3 a b then utf8_cont c \<and> utf8_valid r3
                  else (case r3 of [] \<Rightarrow> False
                    | d # r4 \<Rightarrow>
                        utf8_lead4 a b \<and> utf8_cont c \<and> utf8_cont d \<and> utf8_valid r4))))"

definition from_utf8 :: "byte list \<Rightarrow> string + string" where
  "from_utf8 bs = (if utf8_valid bs then Inr (str_of_bytes bs) else Inl ''invalid utf-8 sequence'')"

lemma utf8_valid_ascii: "list_all (\<lambda>b. b < 0x80) bs \<Longrightarrow> utf8_valid bs"
  by (induction bs) auto

lemma from_utf8_as_bytes: "utf8_valid (as_bytes s) \<Longrightarrow> from_utf8 (as_bytes s) = Inr s"
  by (simp add: from_utf8_def)

lemma from_utf8_eq_Inr_iff: "from_utf8 bs = Inr s \<longleftrightarrow> utf8_valid bs \<and> bs = as_bytes s"
  by (auto simp: from_utf8_def)

section \<open>Numbers and their text\<close>

text \<open>
  \<open>BigUint\<close> values are natural numbers. \<open>to_str_radix\<close> prints without leading zeros;
  \<open>Display\<close> is radix 10.
\<close>

function radix_digits :: "nat \<Rightarrow> nat \<Rightarrow> nat list" where
  "radix_digits b n = (if b < 2 \<or> n < b then [n] else radix_digits b (n div b) @ [n mod b])"
  by pat_completeness auto
termination
  by (relation "measure snd") (auto simp: div_less_dividend)

declare radix_digits.simps [simp del]

definition digit_char :: "nat \<Rightarrow> char" where
  "digit_char d = (if d < 10 then char_of (48 + d) else char_of (87 + d))"

definition to_str_radix :: "nat \<Rightarrow> nat \<Rightarrow> string" where
  "to_str_radix b n = map digit_char (radix_digits b n)"

definition nat_to_string :: "nat \<Rightarrow> string" where
  "nat_to_string n = to_str_radix 10 n"

definition u64_to_string :: "u64 \<Rightarrow> string" where
  "u64_to_string w = nat_to_string (unat w)"

definition i64_to_string :: "i64 \<Rightarrow> string" where
  "i64_to_string w =
     (if sint w < 0 then CHR ''-'' # nat_to_string (nat (- sint w)) else nat_to_string (nat (sint w)))"

text \<open>
  \<open>str::parse\<close> of the integer types: an optional sign (\<open>-\<close> for signed types only), at
  least one decimal digit, nothing else, and the value in range.
\<close>

definition digit_val :: "char \<Rightarrow> nat option" where
  "digit_val c = (let n = of_char c in if 48 \<le> n \<and> n \<le> 57 then Some (n - 48) else None)"

fun dec_value :: "nat \<Rightarrow> string \<Rightarrow> nat option" where
  "dec_value acc [] = Some acc"
| "dec_value acc (c # cs) =
     (case digit_val c of None \<Rightarrow> None | Some d \<Rightarrow> dec_value (10 * acc + d) cs)"

definition parse_nat :: "string \<Rightarrow> nat option" where
  "parse_nat s = (if s = [] then None else dec_value 0 s)"

definition strip_plus :: "string \<Rightarrow> string" where
  "strip_plus s = (case s of [] \<Rightarrow> [] | c # r \<Rightarrow> if c = CHR ''+'' then r else s)"

definition parse_u64 :: "string \<Rightarrow> u64 option" where
  "parse_u64 s =
     (case parse_nat (strip_plus s) of None \<Rightarrow> None
      | Some n \<Rightarrow> if n < 2 ^ 64 then Some (word_of_nat n) else None)"

definition parse_i128 :: "string \<Rightarrow> i128 option" where
  "parse_i128 s =
     (case s of
        c # r \<Rightarrow>
          if c = CHR ''-'' then
            (case parse_nat r of None \<Rightarrow> None
             | Some n \<Rightarrow> if n \<le> 2 ^ 127 then Some (word_of_int (- int n)) else None)
          else
            (case parse_nat (strip_plus s) of None \<Rightarrow> None
             | Some n \<Rightarrow> if n < 2 ^ 127 then Some (word_of_int (int n)) else None)
      | [] \<Rightarrow> None)"

lemma radix_digits_bound: "2 \<le> b \<Longrightarrow> list_all (\<lambda>d. d < b) (radix_digits b n)"
proof (induction b n rule: radix_digits.induct)
  case (1 b n)
  then show ?case
    by (cases "n < b") (simp_all add: radix_digits.simps [of b n])
qed

lemma radix_digits_nonempty: "radix_digits b n \<noteq> []"
  by (simp add: radix_digits.simps [of b n])

lemma to_str_radix_nonempty: "to_str_radix b n \<noteq> []"
  by (simp add: to_str_radix_def radix_digits_nonempty)

lemma radix_digits_length: "2 \<le> b \<Longrightarrow> n < b ^ Suc k \<Longrightarrow> length (radix_digits b n) \<le> Suc k"
proof (induction k arbitrary: n)
  case 0
  then show ?case by (simp add: radix_digits.simps [of b n])
next
  case (Suc k)
  show ?case
  proof (cases "n < b")
    case True
    then show ?thesis by (simp add: radix_digits.simps [of b n])
  next
    case False
    have "n div b < b ^ Suc k"
      using Suc.prems by (simp add: less_mult_imp_div_less mult.commute)
    then have "length (radix_digits b (n div b)) \<le> Suc k"
      using Suc by simp
    with False Suc.prems show ?thesis by (simp add: radix_digits.simps [of b n])
  qed
qed

lemma radix_digits_value_less: "2 \<le> b \<Longrightarrow> n < b ^ length (radix_digits b n)"
proof (induction b n rule: radix_digits.induct)
  case (1 b n)
  show ?case
  proof (cases "n < b")
    case True
    then show ?thesis by (simp add: radix_digits.simps [of b n])
  next
    case False
    with 1 have "n div b < b ^ length (radix_digits b (n div b))" by simp
    then have "n < b ^ length (radix_digits b (n div b)) * b"
      using 1 by (simp add: div_less_iff_less_mult)
    with False 1 show ?thesis by (simp add: radix_digits.simps [of b n] mult.commute)
  qed
qed

lemma digit_val_digit_char: "d < 10 \<Longrightarrow> digit_val (digit_char d) = Some d"
  by (simp add: digit_val_def digit_char_def)

lemma dec_value_append:
  "dec_value acc (s @ t) = (case dec_value acc s of None \<Rightarrow> None | Some v \<Rightarrow> dec_value v t)"
  by (induction s arbitrary: acc) (auto split: option.splits)

lemma dec_value_radix: "dec_value 0 (map digit_char (radix_digits 10 n)) = Some n"
proof (induction n rule: less_induct)
  case (less n)
  show ?case
  proof (cases "n < 10")
    case True
    then show ?thesis by (simp add: radix_digits.simps [of 10 n] digit_val_digit_char)
  next
    case False
    then have "dec_value 0 (map digit_char (radix_digits 10 (n div 10))) = Some (n div 10)"
      by (intro less.IH) simp
    with False show ?thesis
      by (simp add: radix_digits.simps [of 10 n] dec_value_append digit_val_digit_char)
  qed
qed

lemma parse_nat_to_string [simp]: "parse_nat (nat_to_string n) = Some n"
  by (simp add: parse_nat_def nat_to_string_def to_str_radix_def dec_value_radix radix_digits_nonempty)

lemma digit_char_not_plus: "d < 10 \<Longrightarrow> digit_char d \<noteq> CHR ''+''"
proof
  assume "d < 10" and "digit_char d = CHR ''+''"
  then have "digit_val (CHR ''+'') = Some d" using digit_val_digit_char [of d] by simp
  then show False by (simp add: digit_val_def)
qed

lemma strip_plus_nat_to_string [simp]: "strip_plus (nat_to_string n) = nat_to_string n"
proof (cases "radix_digits 10 n")
  case Nil
  then show ?thesis by (simp add: radix_digits_nonempty)
next
  case (Cons d ds)
  then have "d < 10" using radix_digits_bound [of 10 n] by simp
  with Cons show ?thesis
    by (simp add: strip_plus_def nat_to_string_def to_str_radix_def digit_char_not_plus)
qed

text \<open>Printing a \<open>u64\<close> and parsing it back gives the same number.\<close>

lemma parse_u64_to_string [simp]: "parse_u64 (u64_to_string w) = Some w"
proof -
  have "unat w < 2 ^ 64"
    by (rule unat_u64_less)
  then show ?thesis
    by (simp add: parse_u64_def u64_to_string_def)
qed

lemma nat_to_string_inject [simp]: "nat_to_string m = nat_to_string n \<longleftrightarrow> m = n"
  by (metis option.inject parse_nat_to_string)

lemma u64_to_string_inject [simp]: "u64_to_string v = u64_to_string w \<longleftrightarrow> v = w"
  by (metis option.inject parse_u64_to_string)

section \<open>Word arithmetic\<close>

text \<open>
  The release profile builds without overflow checks, so \<open>+\<close> and \<open>*\<close> on the machine
  integers wrap, as they do on words. These lemmas give the exact value when nothing wraps.
\<close>

lemma unat_add_exact:
  fixes a b :: "'w::len word"
  shows "unat a + unat b < 2 ^ LENGTH('w) \<Longrightarrow> unat (a + b) = unat a + unat b"
  by (simp add: unat_word_ariths)

lemma unat_mult_exact:
  fixes a b :: "'w::len word"
  shows "unat a * unat b < 2 ^ LENGTH('w) \<Longrightarrow> unat (a * b) = unat a * unat b"
  by (simp add: unat_word_ariths)

lemma sint_exact:
  fixes w :: "'w::len word"
  assumes "- (2 ^ (LENGTH('w) - 1)) \<le> i" "i < 2 ^ (LENGTH('w) - 1)"
  shows "sint (word_of_int i :: 'w word) = i"
  using assms by (simp add: sint_sbintrunc' signed_take_bit_int_eq_self)

lemma word_of_sint [simp]: "word_of_int (sint w) = w"
  by simp

section \<open>Prefixes\<close>

definition strip_prefix :: "string \<Rightarrow> string \<Rightarrow> string option" where
  "strip_prefix p s = (if take (length p) s = p then Some (drop (length p) s) else None)"

lemma strip_prefix_append [simp]: "strip_prefix p (p @ s) = Some s"
  by (simp add: strip_prefix_def)

end
