(* ===== verification/External.thy ===== *)
theory External
  imports Relayer_Prelude
begin

text \<open>
  Code the relayer calls and that is not part of the repository. Every such function is a field
  of a parameter record that the definitions take as an argument: the crates \<open>hex\<close>,
  \<open>base64\<close>, \<open>tiny_keccak\<close> and \<open>num_bigint\<close>, the address and hash types of
  \<open>tonlib_core\<close>, and the Redis connection. What a theorem needs of them is stated as a
  hypothesis, through the locales of this theory, which describe documented behaviour only;
  the last section builds one instance of each, so that the hypotheses are satisfiable.
\<close>

section \<open>Addresses\<close>

text \<open>\<open>tonlib_core::TonAddress\<close>: a work chain and a 32-byte hash.\<close>

datatype ton_address = TonAddress (workchain: i32) (hash_part: "byte list")

section \<open>Crates\<close>

record crates =
  hex_encode :: "byte list \<Rightarrow> string"
  hex_decode :: "string \<Rightarrow> string + byte list"
  base64_encode :: "byte list \<Rightarrow> string"
  base64_decode :: "string \<Rightarrow> string + byte list"
  keccak256 :: "byte list \<Rightarrow> byte list"
  biguint_from_str :: "string \<Rightarrow> string + nat"
  address_to_hex :: "ton_address \<Rightarrow> string"
  address_to_string :: "ton_address \<Rightarrow> string"
  address_from_str :: "string \<Rightarrow> string + ton_address"
  address_from_hex_str :: "string \<Rightarrow> string + ton_address"
  address_from_base64_url :: "string \<Rightarrow> string + ton_address"
  tonhash_from_hex :: "string \<Rightarrow> string + byte list"
  tonhash_to_string :: "byte list \<Rightarrow> string"

section \<open>Redis\<close>

text \<open>
  The two commands the lock manager sends, at a time: \<open>SET key true NX EX ttl\<close> and
  \<open>DEL key\<close>. Both can fail (\<open>Inl\<close>).
\<close>

record 'r redis =
  set_nx_ex :: "int \<Rightarrow> string \<Rightarrow> int \<Rightarrow> 'r \<Rightarrow> (string + bool) \<times> 'r"
  del_key :: "int \<Rightarrow> string \<Rightarrow> 'r \<Rightarrow> (string + bool) \<times> 'r"

text \<open>
  Documented behaviour: \<open>live t r\<close> are the keys that exist at time \<open>t\<close>, if nothing is
  written before. \<open>NX\<close> creates the key only if it does not exist, \<open>EX\<close> limits its
  life, keys only disappear with time. A command that reports an error may or may not have
  been executed.
\<close>

locale redis_store =
  fixes R :: "'r redis" and live :: "int \<Rightarrow> 'r \<Rightarrow> string set"
  assumes set_created: "set_nx_ex R t k ttl r = (Inr True, r') \<Longrightarrow>
            k \<notin> live t r \<and> (\<forall>u \<ge> t. live u r' = (if u < t + ttl then insert k (live u r) else live u r))"
    and set_exists: "set_nx_ex R t k ttl r = (Inr False, r') \<Longrightarrow> k \<in> live t r \<and> (\<forall>u \<ge> t. live u r' = live u r)"
    and set_error: "set_nx_ex R t k ttl r = (Inl e, r') \<Longrightarrow>
            (\<forall>u \<ge> t. live u r \<subseteq> live u r' \<and> live u r' \<subseteq> insert k (live u r))"
    and del_done: "del_key R t k r = (Inr b, r') \<Longrightarrow> (\<forall>u \<ge> t. live u r' = live u r - {k})"
    and del_error: "del_key R t k r = (Inl e, r') \<Longrightarrow>
            (\<forall>u \<ge> t. live u r - {k} \<subseteq> live u r' \<and> live u r' \<subseteq> live u r)"
    and live_expires: "t \<le> u \<Longrightarrow> live u r \<subseteq> live t r"

text \<open>An instance: a map from keys to their expiry times that always answers.\<close>

type_synonym redis_mem = "string \<rightharpoonup> int"

definition mem_live :: "int \<Rightarrow> redis_mem \<Rightarrow> string set" where
  "mem_live t r = {k. \<exists>e. r k = Some e \<and> t < e}"

definition mem_redis :: "redis_mem redis" where
  "mem_redis =
     \<lparr>set_nx_ex = (\<lambda>t k ttl r.
        (case r k of
           Some e \<Rightarrow> if t < e then (Inr False, r) else (Inr True, r(k \<mapsto> t + ttl))
         | None \<Rightarrow> (Inr True, r(k \<mapsto> t + ttl)))),
      del_key = (\<lambda>t k r. (Inr (k \<in> dom r), r(k := None)))\<rparr>"

interpretation mem: redis_store mem_redis mem_live
  by unfold_locales
    (auto simp: mem_redis_def mem_live_def split: option.splits if_splits)

text \<open>Crates that take every byte for one character, for the witnesses.\<close>

definition sample_crates :: crates where
  "sample_crates =
     \<lparr>hex_encode = str_of_bytes, hex_decode = (\<lambda>s. Inr (as_bytes s)),
      base64_encode = str_of_bytes, base64_decode = (\<lambda>s. Inr (as_bytes s)),
      keccak256 = (\<lambda>bs. take 32 (bs @ replicate 32 0)),
      biguint_from_str = (\<lambda>s. ok_or ''invalid digit'' (parse_nat s)),
      address_to_hex = (\<lambda>a. ''0:'' @ str_of_bytes (hash_part a)),
      address_to_string = (\<lambda>a. str_of_bytes (hash_part a)),
      address_from_str = (\<lambda>s. Inr (TonAddress 0 (as_bytes s))),
      address_from_hex_str = (\<lambda>s. Inr (TonAddress 0 (as_bytes s))),
      address_from_base64_url = (\<lambda>s. Inr (TonAddress 0 (as_bytes s))),
      tonhash_from_hex = (\<lambda>s. Inr (as_bytes s)),
      tonhash_to_string = str_of_bytes\<rparr>"


lemma sample_crates_sel [simp]:
  "hex_decode sample_crates s = Inr (as_bytes s)" "base64_decode sample_crates s = Inr (as_bytes s)"
  "hex_encode sample_crates bs = str_of_bytes bs" "address_from_str sample_crates s = Inr (TonAddress 0 (as_bytes s))"
  by (simp_all add: sample_crates_def)

end
