(* ===== verification/Query_Id.thy ===== *)
theory Query_Id
  imports Relayer_Prelude
begin

text \<open>
  The query id of the high-load wallet (\<open>src/src/high_load_query_id.rs\<close>): a pair of a
  shift in [0..8191] and a bit number in [0..1022], packed into 23 bits. The model keeps both
  fields as 32-bit words. Shown: construction accepts exactly the range, \<open>next\<close> keeps it and
  moves to the successor in the order of the packed ids, the packing is injective and fits 23
  bits, iterating \<open>next\<close> from (0, 0) enumerates every id up to the emergency reserve, and
  the exact relation of \<open>has_next\<close> to \<open>next\<close>.
\<close>

section \<open>Model\<close>

datatype high_load_query_id_error =
    InvalidShift u32
  | InvalidBitnumber u32
  | EmergencyOverload
  | ShiftOverflow

record high_load_query_id =
  shift :: u32
  bitnumber :: u32

definition MAX_SHIFT :: u32 where
  "MAX_SHIFT = 8191"

definition MAX_BITNUMBER :: u32 where
  "MAX_BITNUMBER = 1022"

definition BITNUMBER_SIZE :: nat where
  "BITNUMBER_SIZE = 10"

definition from_shift_and_bitnumber ::
    "u32 \<Rightarrow> u32 \<Rightarrow> high_load_query_id_error + high_load_query_id" where
  "from_shift_and_bitnumber s b =
     (if s > MAX_SHIFT then Inl (InvalidShift MAX_SHIFT)
      else if b > MAX_BITNUMBER then Inl (InvalidBitnumber MAX_BITNUMBER)
      else Inr \<lparr>shift = s, bitnumber = b\<rparr>)"

definition hlq_next :: "high_load_query_id \<Rightarrow> high_load_query_id_error + high_load_query_id" where
  "hlq_next q =
     (let new_bitnumber = bitnumber q + 1; new_shift = shift q in
      if new_shift = MAX_SHIFT \<and> new_bitnumber = MAX_BITNUMBER - 1 then Inl EmergencyOverload
      else if new_bitnumber > MAX_BITNUMBER then
        (let new_shift = new_shift + 1 in
         if new_shift > MAX_SHIFT then Inl ShiftOverflow
         else from_shift_and_bitnumber new_shift 0)
      else from_shift_and_bitnumber new_shift new_bitnumber)"

definition has_next :: "high_load_query_id \<Rightarrow> bool" where
  "has_next q = (\<not> (bitnumber q \<ge> MAX_BITNUMBER - 1 \<and> shift q = MAX_SHIFT))"

definition query_id :: "high_load_query_id \<Rightarrow> u64" where
  "query_id q = push_bit BITNUMBER_SIZE (ucast (shift q)) + ucast (bitnumber q)"

section \<open>Range invariant\<close>

definition valid_query_id :: "high_load_query_id \<Rightarrow> bool" where
  "valid_query_id q \<longleftrightarrow> shift q \<le> MAX_SHIFT \<and> bitnumber q \<le> MAX_BITNUMBER"

lemmas query_id_consts = MAX_SHIFT_def MAX_BITNUMBER_def BITNUMBER_SIZE_def

lemma valid_query_id_unat:
  "valid_query_id q \<longleftrightarrow> unat (shift q) \<le> 8191 \<and> unat (bitnumber q) \<le> 1022"
  by (simp add: valid_query_id_def query_id_consts word_le_nat_alt)

lemma from_shift_and_bitnumber_eq_Inr_iff:
  "from_shift_and_bitnumber s b = Inr q \<longleftrightarrow>
     s \<le> MAX_SHIFT \<and> b \<le> MAX_BITNUMBER \<and> q = \<lparr>shift = s, bitnumber = b\<rparr>"
  by (auto simp: from_shift_and_bitnumber_def not_less)

lemma from_shift_and_bitnumber_valid:
  "from_shift_and_bitnumber s b = Inr q \<Longrightarrow> valid_query_id q"
  by (auto simp: from_shift_and_bitnumber_eq_Inr_iff valid_query_id_def)

text \<open>\<open>next\<close> on the numbers, in the order the code decides.\<close>

lemma hlq_next_cases:
  assumes "valid_query_id q"
  shows "hlq_next q =
    (if unat (shift q) = 8191 \<and> unat (bitnumber q) = 1020 then Inl EmergencyOverload
     else if unat (bitnumber q) = 1022 then
       (if unat (shift q) = 8191 then Inl ShiftOverflow
        else Inr \<lparr>shift = shift q + 1, bitnumber = 0\<rparr>)
     else Inr \<lparr>shift = shift q, bitnumber = bitnumber q + 1\<rparr>)"
proof -
  let ?s = "shift q" and ?b = "bitnumber q"
  have s: "unat ?s \<le> 8191" and b: "unat ?b \<le> 1022"
    using assms by (simp_all add: valid_query_id_unat)
  have b1: "unat (?b + 1) = unat ?b + 1" and s1: "unat (?s + 1) = unat ?s + 1"
    using b s by (simp_all add: unat_word_ariths)
  have "?b + 1 = MAX_BITNUMBER - 1 \<longleftrightarrow> unat ?b = 1020"
    using b1 by (auto simp: query_id_consts word_unat_eq_iff)
  moreover have "?s = MAX_SHIFT \<longleftrightarrow> unat ?s = 8191"
    by (auto simp: query_id_consts word_unat_eq_iff)
  moreover have "?b + 1 > MAX_BITNUMBER \<longleftrightarrow> unat ?b = 1022"
    using b b1 by (auto simp: query_id_consts word_less_nat_alt)
  moreover have "?s + 1 > MAX_SHIFT \<longleftrightarrow> unat ?s = 8191"
    using s s1 by (auto simp: query_id_consts word_less_nat_alt)
  moreover have "\<not> ?s > MAX_SHIFT"
    using s by (simp add: query_id_consts word_less_nat_alt)
  ultimately show ?thesis
    by (simp add: hlq_next_def Let_def from_shift_and_bitnumber_def query_id_consts)
qed

lemma hlq_next_valid: "hlq_next q = Inr r \<Longrightarrow> valid_query_id r"
  by (auto simp: hlq_next_def Let_def split: if_splits dest: from_shift_and_bitnumber_valid)

section \<open>Packed ids\<close>

lemma unat_query_id: "unat (query_id q) = unat (shift q) * 1024 + unat (bitnumber q)"
proof -
  have s: "unat (shift q) < 2 ^ 32" and b: "unat (bitnumber q) < 2 ^ 32"
    using unsigned_less [of "shift q", where ?'a = nat] unsigned_less [of "bitnumber q", where ?'a = nat]
    by simp_all
  have us: "unat (ucast (shift q) :: u64) = unat (shift q)"
    and ub: "unat (ucast (bitnumber q) :: u64) = unat (bitnumber q)"
    using s b by (simp_all add: unsigned_ucast_eq take_bit_nat_eq_self)
  have "unat (push_bit 10 (ucast (shift q)) :: u64) = unat (shift q) * 1024"
    using s us by (simp add: push_bit_eq_mult unat_word_ariths)
  then show ?thesis
    using s b ub by (simp add: query_id_def BITNUMBER_SIZE_def unat_word_ariths)
qed

lemma query_id_less_23_bits: "valid_query_id q \<Longrightarrow> unat (query_id q) < 2 ^ 23"
  by (simp add: unat_query_id valid_query_id_unat)

lemma query_id_inject_valid:
  assumes "valid_query_id q" and "valid_query_id r" and "query_id q = query_id r"
  shows "q = r"
proof -
  have e: "unat (shift q) * 1024 + unat (bitnumber q) = unat (shift r) * 1024 + unat (bitnumber r)"
    using assms(3) unat_query_id by metis
  have "unat (bitnumber q) < 1024" "unat (bitnumber r) < 1024"
    using assms(1,2) by (simp_all add: valid_query_id_unat)
  then have "unat (shift q) = unat (shift r)" "unat (bitnumber q) = unat (bitnumber r)"
    using arg_cong [OF e, of "\<lambda>n. n div 1024"] arg_cong [OF e, of "\<lambda>n. n mod 1024"] by simp_all
  then show ?thesis
    by (simp add: word_unat_eq_iff)
qed

lemma hlq_next_increases:
  assumes "valid_query_id q" and "hlq_next q = Inr r"
  shows "unat (query_id q) < unat (query_id r)"
  using assms
  by (auto simp: hlq_next_cases unat_query_id valid_query_id_unat unat_word_ariths split: if_splits)

lemma hlq_next_nonzero:
  assumes "valid_query_id q" and "hlq_next q = Inr r"
  shows "query_id r \<noteq> 0"
  using hlq_next_increases [OF assms] by auto

section \<open>The sequence of ids\<close>

text \<open>\<open>n\<close> calls of \<open>next\<close> from a start id, stopping at the first error.\<close>

fun hlq_iterate :: "nat \<Rightarrow> high_load_query_id \<Rightarrow> high_load_query_id_error + high_load_query_id" where
  "hlq_iterate 0 q = Inr q"
| "hlq_iterate (Suc n) q = and_then (hlq_iterate n q) hlq_next"

definition hlq_zero :: high_load_query_id where
  "hlq_zero = \<lparr>shift = 0, bitnumber = 0\<rparr>"

definition hlq_nth :: "nat \<Rightarrow> high_load_query_id" where
  "hlq_nth n = \<lparr>shift = word_of_nat (n div 1023), bitnumber = word_of_nat (n mod 1023)\<rparr>"

lemma unat_hlq_nth:
  assumes "n < 8192 * 1023"
  shows "unat (shift (hlq_nth n)) = n div 1023" and "unat (bitnumber (hlq_nth n)) = n mod 1023"
proof -
  have "n div 1023 < 8192" using assms by (simp add: less_mult_imp_div_less)
  moreover have "n mod 1023 < 1023" by simp
  ultimately show "unat (shift (hlq_nth n)) = n div 1023" "unat (bitnumber (hlq_nth n)) = n mod 1023"
    by (simp_all add: hlq_nth_def unat_of_nat)
qed

lemma hlq_nth_valid: "n < 8192 * 1023 \<Longrightarrow> valid_query_id (hlq_nth n)"
proof -
  assume n: "n < 8192 * 1023"
  have "n div 1023 < 8192" using n by (simp add: less_mult_imp_div_less)
  moreover have "n mod 1023 < 1023" by simp
  ultimately have "n div 1023 \<le> 8191" "n mod 1023 \<le> 1022" by linarith+
  then show ?thesis
    using unat_hlq_nth [OF n] by (simp add: valid_query_id_unat)
qed

lemma hlq_next_nth:
  assumes "n < 8191 * 1023 + 1020"
  shows "hlq_next (hlq_nth n) = Inr (hlq_nth (Suc n))"
proof -
  have n: "n < 8192 * 1023" using assms by simp
  note u = unat_hlq_nth [OF n]
  have ne: "\<not> (n div 1023 = 8191 \<and> n mod 1023 = 1020)" "\<not> (n mod 1023 = 1022 \<and> n div 1023 = 8191)"
    using assms div_mult_mod_eq [of n 1023] by linarith+
  have step: "n mod 1023 = 1022 \<Longrightarrow> Suc n div 1023 = Suc (n div 1023) \<and> Suc n mod 1023 = 0"
    "n mod 1023 \<noteq> 1022 \<Longrightarrow> Suc n div 1023 = n div 1023 \<and> Suc n mod 1023 = Suc (n mod 1023)"
    by (simp_all add: div_Suc mod_Suc)
  show ?thesis
    using ne step hlq_next_cases [OF hlq_nth_valid [OF n]] u
    by (auto simp: hlq_nth_def)
qed

lemma hlq_iterate_nth:
  "n \<le> 8191 * 1023 + 1020 \<Longrightarrow> hlq_iterate n hlq_zero = Inr (hlq_nth n)"
proof (induction n)
  case 0
  then show ?case by (simp add: hlq_zero_def hlq_nth_def)
next
  case (Suc n)
  then show ?case by (simp add: hlq_next_nth)
qed

section \<open>Properties\<close>

text \<open>
  Claim C29: starting from (0, 0), the n-th call of \<open>next\<close> yields the id with shift n div 1023
  and bit number n mod 1023, for every n up to 8191 * 1023 + 1020, and the call after that is the
  emergency overload: the ids are enumerated without a gap or a repetition.
\<close>

theorem query_id_enumeration:
  assumes "n \<le> 8191 * 1023 + 1020"
  shows "hlq_iterate n hlq_zero = Inr (hlq_nth n)
    \<and> hlq_iterate (8191 * 1023 + 1021) hlq_zero = Inl EmergencyOverload
    \<and> (\<forall>m. m < n \<longrightarrow> query_id (hlq_nth m) \<noteq> query_id (hlq_nth n))"
proof (intro conjI allI impI)
  show "hlq_iterate n hlq_zero = Inr (hlq_nth n)" by (rule hlq_iterate_nth [OF assms])
  have "hlq_next (hlq_nth (8191 * 1023 + 1020)) = Inl EmergencyOverload"
    by (simp add: hlq_nth_def hlq_next_def query_id_consts)
  then have "hlq_iterate (Suc (8191 * 1023 + 1020)) hlq_zero = Inl EmergencyOverload"
    by (simp only: hlq_iterate.simps hlq_iterate_nth [OF order_refl] and_then_Inr)
  then show "hlq_iterate (8191 * 1023 + 1021) hlq_zero = Inl EmergencyOverload"
    by simp
next
  fix m assume "m < n"
  then have mn: "m < 8192 * 1023" "n < 8192 * 1023" using assms by simp_all
  have "m div 1023 \<noteq> n div 1023 \<or> m mod 1023 \<noteq> n mod 1023"
    using \<open>m < n\<close> by (metis div_mult_mod_eq less_irrefl)
  then have "hlq_nth m \<noteq> hlq_nth n"
    using unat_hlq_nth [OF mn(1)] unat_hlq_nth [OF mn(2)] by metis
  then show "query_id (hlq_nth m) \<noteq> query_id (hlq_nth n)"
    using query_id_inject_valid hlq_nth_valid mn by blast
qed

lemma query_id_enumeration_witness:
  "hlq_iterate 1500 hlq_zero = Inr \<lparr>shift = 1, bitnumber = 477\<rparr>"
  using query_id_enumeration [of 1500] by (simp add: hlq_nth_def)

text \<open>
  a successful \<open>next\<close> on an id in range gives an id in range with a strictly larger
  packed value that still fits in 23 bits, and the packed value determines the id.
\<close>

theorem query_id_next_sound:
  assumes "valid_query_id q" and "hlq_next q = Inr r"
  shows "valid_query_id r \<and> unat (query_id q) < unat (query_id r) \<and> unat (query_id r) < 2 ^ 23
    \<and> (\<forall>p. valid_query_id p \<and> query_id p = query_id r \<longrightarrow> p = r)"
  using hlq_next_valid [OF assms(2)] hlq_next_increases [OF assms] query_id_less_23_bits query_id_inject_valid
  by blast

lemma query_id_next_sound_witness:
  "valid_query_id \<lparr>shift = 11, bitnumber = 0\<rparr>
    \<and> unat (query_id \<lparr>shift = 10, bitnumber = 1022\<rparr>) < unat (query_id \<lparr>shift = 11, bitnumber = 0\<rparr>)"
proof -
  have v: "valid_query_id \<lparr>shift = 10, bitnumber = 1022\<rparr>"
    and n: "hlq_next \<lparr>shift = 10, bitnumber = 1022\<rparr> = Inr \<lparr>shift = 11, bitnumber = 0\<rparr>"
    by (simp_all add: valid_query_id_def hlq_next_def from_shift_and_bitnumber_def query_id_consts)
  from query_id_next_sound [OF v n] show ?thesis by blast
qed

text \<open>
  Claim C33: \<open>has_next\<close> and \<open>next\<close> disagree on exactly two ids in range: at (8191, 1020)
  \<open>has_next\<close> holds but \<open>next\<close> fails with the emergency overload, and at (8191, 1021)
  \<open>has_next\<close> is false but \<open>next\<close> succeeds, giving the last id (8191, 1022).
\<close>

theorem has_next_disagrees_with_next:
  assumes "valid_query_id q"
  shows "(has_next q \<and> \<not> is_ok (hlq_next q)) = (q = \<lparr>shift = 8191, bitnumber = 1020\<rparr>)
    \<and> (\<not> has_next q \<and> is_ok (hlq_next q)) = (q = \<lparr>shift = 8191, bitnumber = 1021\<rparr>)
    \<and> hlq_next \<lparr>shift = 8191, bitnumber = 1020\<rparr> = Inl EmergencyOverload
    \<and> hlq_next \<lparr>shift = 8191, bitnumber = 1021\<rparr> = Inr \<lparr>shift = 8191, bitnumber = 1022\<rparr>"
proof -
  obtain s b where q: "q = \<lparr>shift = s, bitnumber = b\<rparr>" by (cases q)
  have h: "has_next q \<longleftrightarrow> \<not> (unat s = 8191 \<and> 1021 \<le> unat b)"
    by (auto simp: q has_next_def query_id_consts word_le_nat_alt word_unat_eq_iff)
  have e: "q = \<lparr>shift = 8191, bitnumber = 1020\<rparr> \<longleftrightarrow> unat s = 8191 \<and> unat b = 1020"
    "q = \<lparr>shift = 8191, bitnumber = 1021\<rparr> \<longleftrightarrow> unat s = 8191 \<and> unat b = 1021"
    by (auto simp: q word_unat_eq_iff)
  have o: "is_ok (hlq_next q) \<longleftrightarrow> \<not> (unat s = 8191 \<and> (unat b = 1020 \<or> unat b = 1022))"
    using hlq_next_cases [OF assms] by (auto simp: q)
  have b: "unat b \<le> 1022" using assms by (simp add: q valid_query_id_unat)
  show ?thesis
    using h e o b by (auto simp: hlq_next_def from_shift_and_bitnumber_def query_id_consts)
qed

lemma has_next_disagrees_with_next_witness:
  "has_next \<lparr>shift = 8191, bitnumber = 1020\<rparr>
    \<and> \<not> is_ok (hlq_next \<lparr>shift = 8191, bitnumber = 1020\<rparr>)"
proof -
  have v: "valid_query_id \<lparr>shift = 8191, bitnumber = 1020\<rparr>"
    by (simp add: valid_query_id_def query_id_consts)
  from has_next_disagrees_with_next [OF v] show ?thesis by simp
qed

end
