(* ===== verification/Query_Id_Store.thy ===== *)
theory Query_Id_Store
  imports Query_Id
begin

text \<open>
  The stored query ids: the table \<open>ton_wallet_query_id\<close> with the SQL statements of
  \<open>src/src/models/ton_wallet_query_id.rs\<close>, and the wrapper
  \<open>HighLoadQueryIdDbWrapper\<close> (\<open>src/src/high_load_query_id_db_wrapper.rs\<close>) that
  issues the next id of a wallet address. A table is a map from the primary key to the row;
  a statement that the database does not answer is an error that changes nothing, given by a
  flag of the call. Time is in microseconds, the resolution of the database.
  The trait \<open>HighLoadQueryIdWrapper\<close> is the locale \<open>query_id_issuer\<close>: what its
  client, the broadcaster, relies on, interpreted by the wrapper of the code.
\<close>

section \<open>The table and its statements\<close>

record query_id_row =
  row_shift :: i32
  row_bitnumber :: i32
  row_expires_at :: int
  row_created_at :: int
  row_updated_at :: "int option"

type_synonym query_id_table = "string \<rightharpoonup> query_id_row"

definition SECOND :: int where
  "SECOND = 1000000"

definition get_query_id :: "bool \<Rightarrow> int \<Rightarrow> query_id_table \<Rightarrow> string \<Rightarrow> string + (i32 \<times> i32)" where
  "get_query_id ok now tbl address =
     (if \<not> ok then Inl ''database error''
      else (case tbl address of
          Some row \<Rightarrow>
            if row_expires_at row \<ge> now then Inr (row_shift row, row_bitnumber row) else Inr (-1, -1)
        | None \<Rightarrow> Inr (-1, -1)))"

definition update_query_id ::
    "bool \<Rightarrow> int \<Rightarrow> query_id_table \<Rightarrow> string \<Rightarrow> i32 \<Rightarrow> i32 \<Rightarrow> (string + unit) \<times> query_id_table" where
  "update_query_id ok now tbl address s b =
     (if \<not> ok then (Inl ''database error'', tbl)
      else (case tbl address of
          None \<Rightarrow> (Inr (), tbl)
        | Some row \<Rightarrow>
            (Inr (), tbl(address \<mapsto>
               row\<lparr>row_shift := s, row_bitnumber := b, row_updated_at := Some now\<rparr>))))"

definition upsert_query_id ::
    "bool \<Rightarrow> int \<Rightarrow> query_id_table \<Rightarrow> string \<Rightarrow> i32 \<Rightarrow> i32 \<Rightarrow> i32
      \<Rightarrow> (string + unit) \<times> query_id_table" where
  "upsert_query_id ok now tbl address s b timeout =
     (if \<not> ok then (Inl ''database error'', tbl)
      else
        (let expires = now + sint timeout * SECOND in
         case tbl address of
           None \<Rightarrow>
             (Inr (), tbl(address \<mapsto>
                \<lparr>row_shift = s, row_bitnumber = b, row_expires_at = expires,
                 row_created_at = now, row_updated_at = None\<rparr>))
         | Some row \<Rightarrow>
             (Inr (), tbl(address \<mapsto>
                row\<lparr>row_shift := s, row_bitnumber := b, row_expires_at := expires\<rparr>))))"

section \<open>The wrapper\<close>

datatype high_load_query_id_wrapper_error = ConstructionError | NoNextQueryId | DatabaseError

definition TIMEOUT_BUFFER_MULTIPLIER :: i32 where
  "TIMEOUT_BUFFER_MULTIPLIER = 3"

text \<open>The shift after a forced increase.\<close>

definition force_shift :: "i32 \<Rightarrow> i32" where
  "force_shift s =
     (let s = (if sint s < 0 then 1 else s) in
      if sint (s + 1) < sint MAX_SHIFT then s + 1 else s)"

text \<open>The id to issue, from the stored pair.\<close>

definition pick_query_id ::
    "i32 \<Rightarrow> i32 \<Rightarrow> high_load_query_id_wrapper_error + high_load_query_id" where
  "pick_query_id s b =
     (if sint s < 0 \<or> sint b < 0
      then map_err (\<lambda>_. ConstructionError) (from_shift_and_bitnumber 0 0)
      else
        and_then (map_err (\<lambda>_. ConstructionError) (from_shift_and_bitnumber s b)) (\<lambda>q.
        if has_next q then map_err (\<lambda>_. ConstructionError) (hlq_next q)
        else Inl NoNextQueryId))"

text \<open>
  \<open>HighLoadQueryIdDbWrapper::next\<close>. \<open>read_ok\<close> and \<open>write_ok\<close> say whether the
  database answered the read and the write.
\<close>

definition wrapper_next ::
    "bool \<Rightarrow> bool \<Rightarrow> int \<Rightarrow> query_id_table \<Rightarrow> string \<Rightarrow> u64 \<Rightarrow> bool
      \<Rightarrow> (high_load_query_id_wrapper_error + high_load_query_id) \<times> query_id_table" where
  "wrapper_next read_ok write_ok now tbl address timeout force_shift_increase =
     (case map_err (\<lambda>_. DatabaseError) (get_query_id read_ok now tbl address) of
        Inl e \<Rightarrow> (Inl e, tbl)
      | Inr (s0, b) \<Rightarrow>
          (let s = (if force_shift_increase then force_shift s0 else s0) in
           case pick_query_id s b of
             Inl e \<Rightarrow> (Inl e, tbl)
           | Inr q \<Rightarrow>
               (let (res, tbl') =
                  (if query_id q = 0
                   then upsert_query_id write_ok now tbl address (shift q) (bitnumber q)
                          (ucast timeout * TIMEOUT_BUFFER_MULTIPLIER)
                   else update_query_id write_ok now tbl address (shift q) (bitnumber q))
                in case res of
                     Inl _ \<Rightarrow> (Inl DatabaseError, tbl')
                   | Inr _ \<Rightarrow> (Inr q, tbl'))))"

section \<open>Invariant of the table\<close>

definition row_id :: "query_id_row \<Rightarrow> high_load_query_id" where
  "row_id row = \<lparr>shift = row_shift row, bitnumber = row_bitnumber row\<rparr>"

definition table_ok :: "query_id_table \<Rightarrow> bool" where
  "table_ok tbl \<longleftrightarrow> (\<forall>a row. tbl a = Some row \<longrightarrow> valid_query_id (row_id row))"

text \<open>The unexpired row of an address, the one \<open>get_query_id\<close> sees.\<close>

definition live_row :: "query_id_table \<Rightarrow> string \<Rightarrow> int \<Rightarrow> query_id_row option" where
  "live_row tbl a now =
     (case tbl a of None \<Rightarrow> None | Some row \<Rightarrow> if row_expires_at row \<ge> now then Some row else None)"

lemma sint_small:
  fixes w :: i32
  assumes "unat w \<le> 8191"
  shows "sint w = int (unat w)"
proof -
  have u: "uint w = int (unat w)" by (simp only: uint_nat)
  have le: "uint w \<le> 8191" "0 \<le> uint w" using assms u by linarith+
  have "uint w < 2 ^ 31" using le(1) by simp
  moreover have "- (2 ^ 31) \<le> uint w" by (rule order_trans [OF _ le(2)]) simp
  ultimately have "signed_take_bit 31 (uint w) = uint w" by (intro signed_take_bit_int_eq_self)
  then show ?thesis by (simp add: sint_uint)
qed

lemma valid_sint:
  assumes "valid_query_id \<lparr>shift = s, bitnumber = b\<rparr>"
  shows "0 \<le> sint s" and "0 \<le> sint b"
  using assms sint_small [of s] sint_small [of b] by (simp_all add: valid_query_id_unat)

lemma force_shift_valid:
  assumes "valid_query_id \<lparr>shift = s, bitnumber = b\<rparr>"
  shows "valid_query_id \<lparr>shift = force_shift s, bitnumber = b\<rparr>"
    and "unat s \<le> unat (force_shift s)"
proof -
  have s: "unat s \<le> 8191" and nn: "\<not> sint s < 0"
    using assms valid_sint [OF assms] by (simp_all add: valid_query_id_unat)
  have s1: "unat (s + 1) = unat s + 1" using s by (simp add: unat_word_ariths)
  have "unat (force_shift s) \<le> 8191 \<and> unat s \<le> unat (force_shift s)"
  proof (cases "unat s = 8191")
    case True
    then have "s = 8191" by (simp add: word_unat_eq_iff)
    then show ?thesis by (simp add: force_shift_def MAX_SHIFT_def)
  next
    case False
    with s s1 nn show ?thesis by (auto simp: force_shift_def Let_def)
  qed
  with assms show "valid_query_id \<lparr>shift = force_shift s, bitnumber = b\<rparr>"
    and "unat s \<le> unat (force_shift s)"
    by (simp_all add: valid_query_id_unat)
qed

lemma pick_query_id_fresh: "pick_query_id (-1) b = Inr hlq_zero"
  and pick_query_id_fresh_forced: "pick_query_id (force_shift (-1)) (-1) = Inr hlq_zero"
  by (simp_all add: pick_query_id_def from_shift_and_bitnumber_def query_id_consts hlq_zero_def)

lemma pick_query_id_valid:
  assumes "valid_query_id \<lparr>shift = s, bitnumber = b\<rparr>"
  shows "pick_query_id s b =
    (let q = \<lparr>shift = s, bitnumber = b\<rparr> in
     if has_next q then map_err (\<lambda>_. ConstructionError) (hlq_next q) else Inl NoNextQueryId)"
  using assms valid_sint [OF assms]
  by (auto simp: pick_query_id_def from_shift_and_bitnumber_def valid_query_id_def not_less)

lemma pick_query_id_greater:
  assumes "valid_query_id \<lparr>shift = s, bitnumber = b\<rparr>" and "pick_query_id s b = Inr q"
  shows "valid_query_id q" and "unat s * 1024 + unat b < unat (query_id q)"
proof -
  have "hlq_next \<lparr>shift = s, bitnumber = b\<rparr> = Inr q"
    using assms by (auto simp: pick_query_id_valid Let_def map_err_eq_Inr_iff split: if_splits)
  then show "valid_query_id q" and "unat s * 1024 + unat b < unat (query_id q)"
    using hlq_next_valid hlq_next_increases [OF assms(1)] unat_query_id by fastforce+
qed

lemma pick_query_id_fails:
  assumes "valid_query_id \<lparr>shift = s, bitnumber = b\<rparr>"
  shows "pick_query_id s b = Inl e \<longleftrightarrow>
    s = 8191 \<and> ((e = NoNextQueryId \<and> 1021 \<le> b) \<or> (e = ConstructionError \<and> b = 1020))"
proof -
  have "has_next \<lparr>shift = s, bitnumber = b\<rparr> \<longleftrightarrow> \<not> (unat s = 8191 \<and> 1021 \<le> unat b)"
    by (auto simp: has_next_def query_id_consts word_le_nat_alt word_unat_eq_iff)
  then show ?thesis
    using assms hlq_next_cases [OF assms]
    by (auto simp: pick_query_id_valid Let_def word_le_nat_alt word_unat_eq_iff valid_query_id_unat
        split: if_splits)
qed

lemma force_shift_8191:
  assumes "valid_query_id \<lparr>shift = s, bitnumber = b\<rparr>"
  shows "force_shift s = 8191 \<longleftrightarrow> s = 8191"
proof
  assume "s = 8191"
  then show "force_shift s = 8191" by (simp add: force_shift_def MAX_SHIFT_def)
next
  assume f: "force_shift s = 8191"
  have "\<not> sint s < 0" using valid_sint [OF assms] by simp
  with f show "s = 8191"
    by (auto simp: force_shift_def Let_def MAX_SHIFT_def split: if_splits)
qed

lemma get_query_id_live:
  "get_query_id ok now tbl a =
     (if \<not> ok then Inl ''database error''
      else (case live_row tbl a now of
          None \<Rightarrow> Inr (-1, -1) | Some row \<Rightarrow> Inr (row_shift row, row_bitnumber row)))"
  by (auto simp: get_query_id_def live_row_def split: option.splits)

lemma live_row_Some: "live_row tbl a now = Some row \<longleftrightarrow> tbl a = Some row \<and> now \<le> row_expires_at row"
  by (auto simp: live_row_def split: option.splits if_splits)

text \<open>A successful call on an address with no unexpired row starts a session at id 0.\<close>

lemma wrapper_next_fresh:
  assumes "live_row tbl a now = None" and "wrapper_next ro wo now tbl a timeout f = (Inr q, tbl')"
  shows "q = hlq_zero" and "\<exists>row. tbl' = tbl(a \<mapsto> row) \<and> row_id row = hlq_zero
      \<and> row_expires_at row = now + sint (ucast timeout * TIMEOUT_BUFFER_MULTIPLIER :: i32) * SECOND"
proof -
  have z: "query_id hlq_zero = 0"
    by (simp add: query_id_def hlq_zero_def)
  have f: "pick_query_id (if f then force_shift (-1) else -1) (-1) = Inr hlq_zero"
    by (simp add: pick_query_id_fresh pick_query_id_fresh_forced)
  from assms f z show "q = hlq_zero" and "\<exists>row. tbl' = tbl(a \<mapsto> row) \<and> row_id row = hlq_zero
      \<and> row_expires_at row = now + sint (ucast timeout * TIMEOUT_BUFFER_MULTIPLIER :: i32) * SECOND"
    by (auto simp: wrapper_next_def get_query_id_live upsert_query_id_def row_id_def hlq_zero_def Let_def
        split: if_splits option.splits)
qed

text \<open>A successful call on a live row issues a larger id, stores it and keeps the expiry.\<close>

lemma wrapper_next_live:
  assumes "table_ok tbl" and "live_row tbl a now = Some row"
    and "wrapper_next ro wo now tbl a timeout f = (Inr q, tbl')"
  shows "valid_query_id q" and "unat (query_id (row_id row)) < unat (query_id q)"
    and "tbl' = tbl(a \<mapsto> row\<lparr>row_shift := shift q, row_bitnumber := bitnumber q,
           row_updated_at := Some now\<rparr>)"
proof -
  let ?s = "if f then force_shift (row_shift row) else row_shift row" and ?b = "row_bitnumber row"
  have row: "tbl a = Some row" and v: "valid_query_id \<lparr>shift = row_shift row, bitnumber = ?b\<rparr>"
    using assms(1,2) by (auto simp: live_row_Some table_ok_def row_id_def)
  have vs: "valid_query_id \<lparr>shift = ?s, bitnumber = ?b\<rparr>" and le: "unat (row_shift row) \<le> unat ?s"
    using v force_shift_valid [OF v] by auto
  have p: "pick_query_id ?s ?b = Inr q"
    using assms(2,3) by (auto simp: wrapper_next_def get_query_id_live Let_def split: if_splits sum.splits prod.splits)
  note g = pick_query_id_greater [OF vs p]
  show "valid_query_id q" by (rule g)
  show lt: "unat (query_id (row_id row)) < unat (query_id q)"
    using g(2) le by (simp add: unat_query_id row_id_def)
  then have "query_id q \<noteq> 0" by auto
  then show "tbl' = tbl(a \<mapsto> row\<lparr>row_shift := shift q, row_bitnumber := bitnumber q,
           row_updated_at := Some now\<rparr>)"
    using assms(2,3) p row
    by (auto simp: wrapper_next_def get_query_id_live Let_def update_query_id_def split: if_splits)
qed

lemma wrapper_next_error_unchanged:
  "wrapper_next ro wo now tbl a timeout f = (Inl e, tbl') \<Longrightarrow> tbl' = tbl"
  by (auto simp: wrapper_next_def Let_def upsert_query_id_def update_query_id_def
      split: sum.splits if_splits option.splits)

lemma hlq_zero_valid: "valid_query_id hlq_zero"
  by (simp add: valid_query_id_def hlq_zero_def query_id_consts)

lemma wrapper_next_valid:
  assumes "table_ok tbl" and "wrapper_next ro wo now tbl a timeout f = (Inr q, tbl')"
  shows "valid_query_id q"
  using assms wrapper_next_fresh(1) [OF _ assms(2)] wrapper_next_live(1) [OF assms(1) _ assms(2)] hlq_zero_valid
  by (cases "live_row tbl a now") auto

lemma wrapper_next_table_ok:
  assumes "table_ok tbl" and "wrapper_next ro wo now tbl a timeout f = (r, tbl')"
  shows "table_ok tbl'"
proof (cases r)
  case (Inl e)
  then show ?thesis using assms wrapper_next_error_unchanged by blast
next
  case (Inr q)
  note w = assms(2) [unfolded Inr]
  show ?thesis
  proof (cases "live_row tbl a now")
    case None
    then show ?thesis
      using wrapper_next_fresh(2) [OF None w] assms(1) hlq_zero_valid
      by (auto simp: table_ok_def split: if_splits)
  next
    case (Some row)
    then show ?thesis
      using wrapper_next_live [OF assms(1) Some w] assms(1)
      by (auto simp: table_ok_def row_id_def valid_query_id_def split: if_splits)
  qed
qed

lemma wrapper_next_other: "a' \<noteq> a \<Longrightarrow> wrapper_next ro wo now tbl a timeout f = (r, tbl') \<Longrightarrow> tbl' a' = tbl a'"
  by (auto simp: wrapper_next_def Let_def upsert_query_id_def update_query_id_def
      split: sum.splits if_splits option.splits)

section \<open>The trait and its client lemmas\<close>

text \<open>The ids issued by a sequence of calls on several addresses, in order.\<close>

fun issued :: "('i \<Rightarrow> 's \<Rightarrow> string \<Rightarrow> (high_load_query_id_wrapper_error + high_load_query_id) \<times> 's)
    \<Rightarrow> 's \<Rightarrow> ('i \<times> string) list \<Rightarrow> (string \<times> u64) list" where
  "issued issue s [] = []"
| "issued issue s ((i, a) # cs) =
     (case issue i s a of
        (Inl _, s') \<Rightarrow> issued issue s' cs
      | (Inr q, s') \<Rightarrow> (a, query_id q) # issued issue s' cs)"

text \<open>
  What a caller of \<open>HighLoadQueryIdWrapper::next\<close> relies on: on a good store an issued id
  is in range; \<open>current\<close> is the last id of the session an address has at a time and
  \<open>session_end\<close> the time the session ends; within the session ids only grow and the end
  does not move; other addresses are not touched. A call is described by its inputs
  \<open>'i\<close> (time, force flag and what the environment answers).
\<close>

locale query_id_issuer =
  fixes issue :: "'i \<Rightarrow> 's \<Rightarrow> string \<Rightarrow> (high_load_query_id_wrapper_error + high_load_query_id) \<times> 's"
    and at :: "'i \<Rightarrow> int"
    and good :: "'s \<Rightarrow> bool"
    and session_end :: "'s \<Rightarrow> string \<Rightarrow> int option"
    and current :: "'s \<Rightarrow> string \<Rightarrow> u64"
  assumes issue_good: "good s \<Longrightarrow> issue i s a = (r, s') \<Longrightarrow> good s'"
    and issue_valid: "good s \<Longrightarrow> issue i s a = (Inr q, s') \<Longrightarrow> valid_query_id q"
    and issue_error: "issue i s a = (Inl e, s') \<Longrightarrow> s' = s"
    and issue_other: "a' \<noteq> a \<Longrightarrow> issue i s a = (r, s')
          \<Longrightarrow> session_end s' a' = session_end s a' \<and> current s' a' = current s a'"
    and issue_in_session: "good s \<Longrightarrow> session_end s a = Some t \<Longrightarrow> at i \<le> t \<Longrightarrow> issue i s a = (Inr q, s')
          \<Longrightarrow> unat (current s a) < unat (query_id q) \<and> current s' a = query_id q \<and> session_end s' a = Some t"
begin

lemma issued_increasing:
  assumes "good s" and "session_end s a = Some t" and "\<forall>(i, b) \<in> set cs. b = a \<longrightarrow> at i \<le> t"
  shows "sorted_wrt (\<lambda>m n. unat m < unat n) (current s a # map snd (filter (\<lambda>p. fst p = a) (issued issue s cs)))"
  using assms
proof (induction cs arbitrary: s)
  case Nil
  then show ?case by simp
next
  case (Cons c cs)
  obtain i b where c: "c = (i, b)" by fastforce
  obtain r s' where iss: "issue i s b = (r, s')" by fastforce
  have g: "good s'" using issue_good Cons.prems(1) iss by blast
  show ?case
  proof (cases r)
    case (Inl e)
    then have "s' = s" using iss issue_error by blast
    then show ?thesis using Cons.IH [of s'] Cons.prems iss Inl c by auto
  next
    case (Inr q)
    note iss' = iss [unfolded Inr]
    show ?thesis
    proof (cases "b = a")
      case True
      then have "unat (current s a) < unat (query_id q)" "current s' a = query_id q" "session_end s' a = Some t"
        using issue_in_session [of s a t i q s'] Cons.prems iss' c by auto
      moreover from this have "sorted_wrt (\<lambda>m n. unat m < unat n)
          (current s' a # map snd (filter (\<lambda>p. fst p = a) (issued issue s' cs)))"
        using Cons.IH [of s'] iss' g Cons.prems(3) by auto
      ultimately show ?thesis using True iss' c by auto
    next
      case False
      then have "session_end s' a = session_end s a" "current s' a = current s a"
        using issue_other [of a b i s "Inr q" s'] iss' by auto
      then show ?thesis using Cons.IH [of s'] iss' g Cons.prems False c by auto
    qed
  qed
qed

end

text \<open>The wrapper of the code provides it.\<close>

record issue_input =
  in_read_ok :: bool
  in_write_ok :: bool
  in_now :: int
  in_timeout :: u64
  in_force :: bool

definition wrapper_issue ::
    "issue_input \<Rightarrow> query_id_table \<Rightarrow> string
      \<Rightarrow> (high_load_query_id_wrapper_error + high_load_query_id) \<times> query_id_table" where
  "wrapper_issue i tbl a = wrapper_next (in_read_ok i) (in_write_ok i) (in_now i) tbl a (in_timeout i) (in_force i)"

definition row_end :: "query_id_table \<Rightarrow> string \<Rightarrow> int option" where
  "row_end tbl a = map_option row_expires_at (tbl a)"

definition row_current :: "query_id_table \<Rightarrow> string \<Rightarrow> u64" where
  "row_current tbl a = (case tbl a of None \<Rightarrow> 0 | Some row \<Rightarrow> query_id (row_id row))"

interpretation wrapper: query_id_issuer wrapper_issue in_now table_ok row_end row_current
proof (unfold_locales, goal_cases)
  case (1 s i a r s')
  then show ?case by (auto simp: wrapper_issue_def dest: wrapper_next_table_ok)
next
  case (2 s i a q s')
  then show ?case by (auto simp: wrapper_issue_def dest: wrapper_next_valid)
next
  case (3 i s a e s')
  then show ?case by (auto simp: wrapper_issue_def dest: wrapper_next_error_unchanged)
next
  case (4 a' a i s r s')
  then have "s' a' = s a'" by (auto simp: wrapper_issue_def dest: wrapper_next_other)
  then show ?case by (simp add: row_end_def row_current_def)
next
  case (5 s a t i q s')
  then obtain row where row: "s a = Some row" "row_expires_at row = t" by (auto simp: row_end_def)
  with 5 have "live_row s a (in_now i) = Some row" by (simp add: live_row_Some)
  from wrapper_next_live [OF 5(1) this 5(4) [unfolded wrapper_issue_def]] row
  show ?case by (auto simp: row_current_def row_end_def row_id_def query_id_def)
qed

section \<open>Properties\<close>

text \<open>
  Within a session of an address (until the row's expiry) the wrapper never issues an
  id twice: whatever calls are made, for this or other addresses, forced or not, with or
  without database errors, the ids issued for the address strictly increase from the stored one.
\<close>

theorem wrapper_ids_increase_in_session:
  assumes "table_ok tbl" and "tbl a = Some row"
    and "\<forall>(i, b) \<in> set calls. b = a \<longrightarrow> in_now i \<le> row_expires_at row"
  shows "sorted_wrt (\<lambda>m n. unat m < unat n)
    (query_id (row_id row) # map snd (filter (\<lambda>p. fst p = a) (issued wrapper_issue tbl calls)))"
proof -
  have "row_end tbl a = Some (row_expires_at row)" and c: "row_current tbl a = query_id (row_id row)"
    using assms(2) by (simp_all add: row_end_def row_current_def)
  from wrapper.issued_increasing [OF assms(1) this(1) assms(3)] show ?thesis
    by (simp only: c)
qed

definition sample_row :: query_id_row where
  "sample_row = \<lparr>row_shift = 0, row_bitnumber = 1, row_expires_at = 180 * SECOND,
     row_created_at = 0, row_updated_at = None\<rparr>"

definition sample_call :: "int \<Rightarrow> u64 \<Rightarrow> bool \<Rightarrow> issue_input" where
  "sample_call t timeout force =
     \<lparr>in_read_ok = True, in_write_ok = True, in_now = t * SECOND, in_timeout = timeout, in_force = force\<rparr>"

lemmas wrapper_eval = issued.simps wrapper_issue_def wrapper_next_def get_query_id_def pick_query_id_def
  force_shift_def from_shift_and_bitnumber_def hlq_next_def has_next_def query_id_def upsert_query_id_def
  update_query_id_def query_id_consts Let_def SECOND_def sample_call_def sample_row_def
  TIMEOUT_BUFFER_MULTIPLIER_def

lemma wrapper_ids_increase_in_session_witness:
  "sorted_wrt (\<lambda>m n. unat m < unat n)
     (query_id (row_id sample_row) # map snd (filter (\<lambda>p. fst p = ''w'')
        (issued wrapper_issue [''w'' \<mapsto> sample_row] [(sample_call 5 60 True, ''w''), (sample_call 6 60 False, ''w'')])))
   \<and> issued wrapper_issue [''w'' \<mapsto> sample_row] [(sample_call 5 60 True, ''w''), (sample_call 6 60 False, ''w'')]
      = [(''w'', 1026), (''w'', 1027)]"
proof
  show "sorted_wrt (\<lambda>m n. unat m < unat n)
     (query_id (row_id sample_row) # map snd (filter (\<lambda>p. fst p = ''w'')
        (issued wrapper_issue [''w'' \<mapsto> sample_row] [(sample_call 5 60 True, ''w''), (sample_call 6 60 False, ''w'')])))"
    by (rule wrapper_ids_increase_in_session)
      (auto simp: table_ok_def sample_row_def row_id_def valid_query_id_def query_id_consts sample_call_def
        SECOND_def split: if_splits)
next
  show "issued wrapper_issue [''w'' \<mapsto> sample_row] [(sample_call 5 60 True, ''w''), (sample_call 6 60 False, ''w'')]
      = [(''w'', 1026), (''w'', 1027)]"
    by (simp add: wrapper_eval)
qed

text \<open>
  Every call of the wrapper keeps the stored ids in range, changes no other address,
  issues only ids in range, and a call that fails, for whatever reason, changes nothing.
\<close>

theorem wrapper_next_invariant:
  assumes "table_ok tbl" and "wrapper_next read_ok write_ok now tbl a timeout force = (r, tbl')"
  shows "table_ok tbl' \<and> (\<forall>b. b \<noteq> a \<longrightarrow> tbl' b = tbl b)
     \<and> (case r of Inl _ \<Rightarrow> tbl' = tbl | Inr q \<Rightarrow> valid_query_id q)"
  using wrapper_next_table_ok [OF assms] wrapper_next_other [OF _ assms(2)] wrapper_next_valid [OF assms(1)]
    wrapper_next_error_unchanged assms(2)
  by (auto split: sum.splits)

lemma wrapper_next_invariant_witness:
  "table_ok (snd (wrapper_next True True 5 [''w'' \<mapsto> sample_row] ''w'' 60 False))"
proof -
  have "table_ok [''w'' \<mapsto> sample_row]"
    by (auto simp: table_ok_def sample_row_def row_id_def valid_query_id_def query_id_consts split: if_splits)
  from wrapper_next_invariant [OF this surjective_pairing] show ?thesis by blast
qed

text \<open>
  When the database answers, a call fails only at the end of the id range: with
  \<open>NoNextQueryId\<close> on a live row whose shift is 8191 and bit number at least 1021, and with
  \<open>ConstructionError\<close> on the row (8191, 1020), where \<open>has_next\<close> holds but
  \<open>next\<close> is the emergency overload. On every other row, and with no live row, it succeeds.
\<close>

theorem wrapper_next_failures:
  assumes "table_ok tbl"
  shows "fst (wrapper_next True True now tbl a timeout force) = Inl e \<longleftrightarrow>
    (\<exists>row. live_row tbl a now = Some row \<and> row_shift row = 8191
       \<and> ((e = NoNextQueryId \<and> 1021 \<le> row_bitnumber row)
          \<or> (e = ConstructionError \<and> row_bitnumber row = 1020)))"
proof (cases "live_row tbl a now")
  case None
  have "pick_query_id (if force then force_shift (-1) else -1) (-1) = Inr hlq_zero"
    by (simp add: pick_query_id_fresh pick_query_id_fresh_forced)
  with None show ?thesis
    by (auto simp: wrapper_next_def get_query_id_live upsert_query_id_def Let_def query_id_def hlq_zero_def
        split: option.splits)
next
  case (Some row)
  let ?s = "if force then force_shift (row_shift row) else row_shift row" and ?b = "row_bitnumber row"
  have v: "valid_query_id \<lparr>shift = row_shift row, bitnumber = ?b\<rparr>"
    using assms Some by (auto simp: live_row_Some table_ok_def row_id_def)
  have vs: "valid_query_id \<lparr>shift = ?s, bitnumber = ?b\<rparr>"
    using v force_shift_valid(1) [OF v] by simp
  have "fst (wrapper_next True True now tbl a timeout force) = Inl e \<longleftrightarrow> pick_query_id ?s ?b = Inl e"
    using Some by (auto simp: wrapper_next_def get_query_id_live upsert_query_id_def update_query_id_def Let_def
        split: option.splits sum.splits)
  also have "\<dots> \<longleftrightarrow> ?s = 8191 \<and> ((e = NoNextQueryId \<and> 1021 \<le> ?b) \<or> (e = ConstructionError \<and> ?b = 1020))"
    by (rule pick_query_id_fails [OF vs])
  also have "?s = 8191 \<longleftrightarrow> row_shift row = 8191"
    using v force_shift_8191 by simp
  finally show ?thesis using Some by simp
qed

lemma wrapper_next_failures_witness:
  "fst (wrapper_next True True 5 [''w'' \<mapsto> sample_row\<lparr>row_shift := 8191, row_bitnumber := 1020\<rparr>] ''w'' 60 False)
     = Inl ConstructionError"
proof -
  have "table_ok [''w'' \<mapsto> sample_row\<lparr>row_shift := 8191, row_bitnumber := 1020\<rparr>]"
    by (auto simp: table_ok_def sample_row_def row_id_def valid_query_id_def query_id_consts split: if_splits)
  from wrapper_next_failures [OF this] show ?thesis
    by (simp add: live_row_def sample_row_def SECOND_def)
qed

text \<open>
  The expiry of a session is fixed by its first message: \<open>update_query_id\<close> does
  not move \<open>expires_at\<close>. With a timeout of one hour, an id issued at the end of the
  session is issued again two seconds later, although the module's comment asks for three
  timeouts between the two uses.
\<close>

theorem session_reset_reissues_id:
  "issued wrapper_issue Map.empty
     [(sample_call 0 3600 False, a), (sample_call 10800 3600 False, a),
      (sample_call 10801 3600 False, a), (sample_call 10802 3600 False, a)]
   = [(a, 0), (a, 1), (a, 0), (a, 1)]"
  by (simp add: wrapper_eval)

end
