(* ===== verification/Wallet_Manager.thy ===== *)
theory Wallet_Manager
  imports External Query_Id_Store
begin

text \<open>
  The pool of high-load wallets and its locks: \<open>src/src/lock_manager.rs\<close> (the Redis lock,
  60 seconds of life) and \<open>src/src/wallet_manager.rs\<close>. The trait \<open>LockManager\<close> is the
  locale \<open>lock_manager\<close>; \<open>acquire\<close> is proved correct once against it, and the Redis
  lock manager provides it whenever the Redis connection behaves as documented
  (\<open>redis_store\<close>). The section on several clients is a step relation over the shared lock
  store with mutual exclusion by rule induction.
\<close>

section \<open>The Redis lock manager\<close>

definition wallet_lock_key :: "string \<Rightarrow> string" where
  "wallet_lock_key key = ''wallet_lock_'' @ key"

definition LOCK_TTL :: int where
  "LOCK_TTL = 60 * SECOND"

definition redis_lock :: "'r redis \<Rightarrow> int \<Rightarrow> string \<Rightarrow> 'r \<Rightarrow> bool \<times> 'r" where
  "redis_lock R now key r =
     (case set_nx_ex R now (wallet_lock_key key) LOCK_TTL r of
        (Inl e, r') \<Rightarrow> (False, r')
      | (Inr b, r') \<Rightarrow> (b, r'))"

definition redis_unlock :: "'r redis \<Rightarrow> int \<Rightarrow> string \<Rightarrow> 'r \<Rightarrow> 'r" where
  "redis_unlock R now key r = snd (del_key R now (wallet_lock_key key) r)"

section \<open>Wallets\<close>

record wallet_config =
  public_key :: string
  secret_key :: string
  cfg_subwallet_id :: u32
  cfg_timeout :: u64
  cfg_address :: string

record key_pair =
  kp_public_key :: "byte list"
  kp_secret_key :: "byte list"

record ton_wallet_high_load_v3 =
  wallet_address :: ton_address
  wallet_key_pair :: key_pair
  subwallet_id :: u32
  wallet_timeout :: u64

datatype wallet_manager_error = NoAvailableWallet | LockError string

text \<open>The three \<open>unwrap\<close>s of \<open>load_wallet\<close> panic on a bad configuration.\<close>

definition load_wallet :: "crates \<Rightarrow> wallet_config \<Rightarrow> unit exn + ton_wallet_high_load_v3" where
  "load_wallet X config =
     and_then (map_err (\<lambda>_. Panicked) (hex_decode X (public_key config))) (\<lambda>public_key_bytes.
     and_then (map_err (\<lambda>_. Panicked) (hex_decode X (secret_key config))) (\<lambda>secret_key_bytes.
     and_then (map_err (\<lambda>_. Panicked) (address_from_base64_url X (cfg_address config))) (\<lambda>address.
     Inr \<lparr>wallet_address = address,
          wallet_key_pair = \<lparr>kp_public_key = public_key_bytes, kp_secret_key = secret_key_bytes\<rparr>,
          subwallet_id = cfg_subwallet_id config, wallet_timeout = cfg_timeout config\<rparr>)))"

type_synonym wallet_map = "ton_address \<rightharpoonup> ton_wallet_high_load_v3"

fun load_wallets :: "crates \<Rightarrow> wallet_config list \<Rightarrow> wallet_map \<Rightarrow> unit exn + wallet_map" where
  "load_wallets X [] wallets = Inr wallets"
| "load_wallets X (c # cs) wallets =
     and_then (load_wallet X c) (\<lambda>wallet.
     load_wallets X cs (wallets(wallet_address wallet \<mapsto> wallet)))"

definition wallet_manager_new :: "crates \<Rightarrow> wallet_config list \<Rightarrow> unit exn + wallet_map" where
  "wallet_manager_new X config = load_wallets X config Map.empty"

text \<open>
  \<open>acquire\<close> walks the entries of the hash map, in the order the map yields them (the list
  \<open>entries\<close>), and takes the first lock it gets.
\<close>

fun acquire :: "crates \<Rightarrow> (string \<Rightarrow> 's \<Rightarrow> bool \<times> 's) \<Rightarrow> (ton_address \<times> ton_wallet_high_load_v3) list \<Rightarrow> 's
    \<Rightarrow> (wallet_manager_error + ton_wallet_high_load_v3) \<times> 's" where
  "acquire X lock [] s = (Inl NoAvailableWallet, s)"
| "acquire X lock ((address, wallet) # entries) s =
     (case lock (address_to_string X address) s of
        (True, s') \<Rightarrow> (Inr wallet, s')
      | (False, s') \<Rightarrow> acquire X lock entries s')"

definition release :: "crates \<Rightarrow> (string \<Rightarrow> 's \<Rightarrow> 's) \<Rightarrow> ton_wallet_high_load_v3 \<Rightarrow> 's \<Rightarrow> 's" where
  "release X unlock wallet s = unlock (address_to_string X (wallet_address wallet)) s"

text \<open>What a list of entries has to be: each wallet once, under its own address.\<close>

definition iterates :: "(ton_address \<times> ton_wallet_high_load_v3) list \<Rightarrow> wallet_map \<Rightarrow> bool" where
  "iterates entries wallets \<longleftrightarrow> distinct (map fst entries) \<and> map_of entries = wallets"

lemma load_wallets_keyed:
  assumes "load_wallets X cs m = Inr m'" and "\<forall>a w. m a = Some w \<longrightarrow> wallet_address w = a"
  shows "m' a = Some w \<longrightarrow> wallet_address w = a"
  using assms by (induction cs arbitrary: m) (auto simp: and_then_eq_Inr_iff split: if_splits)

lemma load_wallets_dom:
  assumes "load_wallets X cs m = Inr m'"
  shows "dom m' = dom m \<union> {a. \<exists>c \<in> set cs. \<exists>w. load_wallet X c = Inr w \<and> wallet_address w = a}"
  using assms
proof (induction cs arbitrary: m)
  case Nil
  then show ?case by simp
next
  case (Cons c cs)
  then obtain w where w: "load_wallet X c = Inr w" "load_wallets X cs (m(wallet_address w \<mapsto> w)) = Inr m'"
    by (auto simp: and_then_eq_Inr_iff)
  from Cons.IH [OF w(2)] w(1) show ?case by (auto split: if_splits)
qed

section \<open>Several clients\<close>

text \<open>
  Broadcaster tasks share the lock store. A state is the time, the store and, for each client,
  the wallet it works with and the time it got it. In a \<open>timely\<close> system a client gives its
  wallet back before the lock's life is over: time does not pass beyond it.
\<close>

record 's pool =
  clock :: int
  store :: 's
  owners :: "nat \<rightharpoonup> ton_wallet_high_load_v3 \<times> int"

inductive pool_step ::
    "bool \<Rightarrow> crates \<Rightarrow> (int \<Rightarrow> string \<Rightarrow> 's \<Rightarrow> bool \<times> 's) \<Rightarrow> (int \<Rightarrow> string \<Rightarrow> 's \<Rightarrow> 's) \<Rightarrow> int
      \<Rightarrow> (ton_address \<times> ton_wallet_high_load_v3) list \<Rightarrow> 's pool \<Rightarrow> 's pool \<Rightarrow> bool"
  for timely X lock unlock ttl entries where
  tick: "clock p \<le> t \<Longrightarrow> (timely \<Longrightarrow> \<forall>i w t0. owners p i = Some (w, t0) \<longrightarrow> t < t0 + ttl)
     \<Longrightarrow> pool_step timely X lock unlock ttl entries p (p\<lparr>clock := t\<rparr>)"
| take: "owners p i = None \<Longrightarrow> acquire X (lock (clock p)) entries (store p) = (Inr w, s')
     \<Longrightarrow> pool_step timely X lock unlock ttl entries p
           (p\<lparr>store := s', owners := (owners p)(i \<mapsto> (w, clock p))\<rparr>)"
| busy: "owners p i = None \<Longrightarrow> acquire X (lock (clock p)) entries (store p) = (Inl e, s')
     \<Longrightarrow> pool_step timely X lock unlock ttl entries p (p\<lparr>store := s'\<rparr>)"
| give: "owners p i = Some (w, since)
     \<Longrightarrow> pool_step timely X lock unlock ttl entries p
           (p\<lparr>store := release X (unlock (clock p)) w (store p), owners := (owners p)(i := None)\<rparr>)"

inductive pool_reachable ::
    "bool \<Rightarrow> crates \<Rightarrow> (int \<Rightarrow> string \<Rightarrow> 's \<Rightarrow> bool \<times> 's) \<Rightarrow> (int \<Rightarrow> string \<Rightarrow> 's \<Rightarrow> 's) \<Rightarrow> int
      \<Rightarrow> (ton_address \<times> ton_wallet_high_load_v3) list \<Rightarrow> 's pool \<Rightarrow> bool"
  for timely X lock unlock ttl entries where
  start: "owners p = Map.empty \<Longrightarrow> pool_reachable timely X lock unlock ttl entries p"
| step: "pool_reachable timely X lock unlock ttl entries p \<Longrightarrow> pool_step timely X lock unlock ttl entries p q
     \<Longrightarrow> pool_reachable timely X lock unlock ttl entries q"

inductive_cases pool_stepE: "pool_step timely X lock unlock ttl entries p q"

definition wallet_key :: "crates \<Rightarrow> ton_wallet_high_load_v3 \<Rightarrow> string" where
  "wallet_key X w = address_to_string X (wallet_address w)"

text \<open>
  The invariant: an owner's key stays held until its lock's life is over, and two owners have
  different keys.
\<close>

definition pool_inv :: "crates \<Rightarrow> (int \<Rightarrow> 's \<Rightarrow> string set) \<Rightarrow> int \<Rightarrow> 's pool \<Rightarrow> bool" where
  "pool_inv X held ttl p \<longleftrightarrow>
     (\<forall>i w t0. owners p i = Some (w, t0) \<longrightarrow> clock p < t0 + ttl
        \<and> (\<forall>u. clock p \<le> u \<and> u < t0 + ttl \<longrightarrow> wallet_key X w \<in> held u (store p)))
     \<and> (\<forall>i j w v t0 t1. owners p i = Some (w, t0) \<longrightarrow> owners p j = Some (v, t1) \<longrightarrow> i \<noteq> j
        \<longrightarrow> wallet_key X w \<noteq> wallet_key X v)"

lemma pool_inv_owner:
  assumes "pool_inv X held ttl p" and "owners p i = Some (w, t0)"
  shows "clock p < t0 + ttl"
    and "clock p \<le> u \<Longrightarrow> u < t0 + ttl \<Longrightarrow> wallet_key X w \<in> held u (store p)"
  using assms by (auto simp: pool_inv_def)

lemma pool_inv_distinct:
  "pool_inv X held ttl p \<Longrightarrow> owners p i = Some (w, t0) \<Longrightarrow> owners p j = Some (v, t1) \<Longrightarrow> i \<noteq> j
    \<Longrightarrow> wallet_key X w \<noteq> wallet_key X v"
  unfolding pool_inv_def by blast

section \<open>The trait and its client lemmas\<close>

text \<open>
  \<open>held t s\<close> are the lock keys held at time \<open>t\<close> in the lock store \<open>s\<close> if nothing
  more happens. Taking a free lock holds it for the lock's life; a refused or failed attempt
  takes away nothing; unlocking removes at most the one key; with time locks only get lost.
\<close>

locale lock_manager =
  fixes lock :: "int \<Rightarrow> string \<Rightarrow> 's \<Rightarrow> bool \<times> 's"
    and unlock :: "int \<Rightarrow> string \<Rightarrow> 's \<Rightarrow> 's"
    and held :: "int \<Rightarrow> 's \<Rightarrow> string set"
    and ttl :: int
  assumes lock_taken: "lock t k s = (True, s') \<Longrightarrow>
            k \<notin> held t s \<and> (\<forall>u. t \<le> u \<and> u < t + ttl \<longrightarrow> held u s' = insert k (held u s))"
    and lock_kept: "lock t k s = (b, s') \<Longrightarrow> t \<le> u \<Longrightarrow> held u s \<subseteq> held u s'"
    and lock_only: "lock t k s = (b, s') \<Longrightarrow> t \<le> u \<Longrightarrow> held u s' \<subseteq> insert k (held u s)"
    and unlock_only: "t \<le> u \<Longrightarrow> held u s - {k} \<subseteq> held u (unlock t k s) \<and> held u (unlock t k s) \<subseteq> held u s"
    and held_expires: "t \<le> u \<Longrightarrow> held u s \<subseteq> held t s"
begin

lemma acquire_success:
  assumes "acquire X (lock t) entries s = (Inr w, s')" and "\<forall>(a, w) \<in> set entries. wallet_address w = a"
  shows "(\<exists>a. (a, w) \<in> set entries)
    \<and> address_to_string X (wallet_address w) \<notin> held t s
    \<and> (\<forall>u. t \<le> u \<and> u < t + ttl \<longrightarrow> address_to_string X (wallet_address w) \<in> held u s')
    \<and> (\<forall>u \<ge> t. held u s \<subseteq> held u s')"
  using assms
proof (induction entries arbitrary: s)
  case Nil
  then show ?case by simp
next
  case (Cons e entries)
  obtain a v where e: "e = (a, v)" by fastforce
  obtain b s1 where l: "lock t (address_to_string X a) s = (b, s1)" by fastforce
  show ?case
  proof (cases b)
    case True
    then have "w = v" "s' = s1" "wallet_address v = a" using Cons.prems e l by auto
    then show ?thesis
      using lock_taken [of t _ s s1] lock_kept [OF l] l True e by auto
  next
    case False
    then have "acquire X (lock t) entries s1 = (Inr w, s')" using Cons.prems e l by simp
    from Cons.IH [OF this] Cons.prems(2) have IH: "\<exists>a. (a, w) \<in> set entries"
        "address_to_string X (wallet_address w) \<notin> held t s1"
        "\<forall>u. t \<le> u \<and> u < t + ttl \<longrightarrow> address_to_string X (wallet_address w) \<in> held u s'"
        "\<forall>u \<ge> t. held u s1 \<subseteq> held u s'"
      by simp_all
    have kept: "\<forall>u \<ge> t. held u s \<subseteq> held u s1" using lock_kept [OF l] by simp
    show ?thesis
      using IH kept by (metis (no_types, lifting) list.set_intros(2) order_refl order_trans subsetD)
  qed
qed

lemma acquire_keeps:
  assumes "acquire X (lock t) entries s = (r, s')" and "t \<le> u"
  shows "held u s \<subseteq> held u s'"
  using assms
proof (induction entries arbitrary: s)
  case Nil
  then show ?case by simp
next
  case (Cons e entries)
  obtain a v where e: "e = (a, v)" by fastforce
  obtain b s1 where l: "lock t (address_to_string X a) s = (b, s1)" by fastforce
  have "held u s \<subseteq> held u s1" by (rule lock_kept [OF l Cons.prems(2)])
  with Cons e l show ?case by (cases b) auto
qed

lemma release_keeps_others:
  "t \<le> u \<Longrightarrow> k \<noteq> address_to_string X (wallet_address w) \<Longrightarrow> k \<in> held u s
    \<Longrightarrow> k \<in> held u (release X (unlock t) w s)"
  using unlock_only [of t u s "address_to_string X (wallet_address w)"] by (auto simp: release_def)

lemma pool_step_inv:
  assumes inv: "pool_inv X held ttl p" and "pool_step True X lock unlock ttl entries p q"
    and keyed: "\<forall>(a, w) \<in> set entries. wallet_address w = a" and "0 < ttl"
  shows "pool_inv X held ttl q"
  using assms(2)
proof (cases rule: pool_step.cases)
  case (tick t)
  then show ?thesis using inv unfolding pool_inv_def by fastforce
next
  case (take i w s')
  note a = acquire_success [OF take(3) keyed, folded wallet_key_def]
  have free: "owners p j = Some (v, t1) \<Longrightarrow> wallet_key X v \<noteq> wallet_key X w" for j v t1
    using a pool_inv_owner(1) [OF inv, of j v t1] pool_inv_owner(2) [OF inv, of j v t1 "clock p"] by auto
  have kept: "owners p j = Some (v, t1) \<Longrightarrow> clock p \<le> u \<Longrightarrow> u < t1 + ttl \<Longrightarrow> wallet_key X v \<in> held u s'" for j v t1 u
    using a pool_inv_owner(2) [OF inv, of j v t1 u] by blast
  show ?thesis
    using take a free kept inv \<open>0 < ttl\<close> unfolding pool_inv_def
    by (auto split: if_splits)
next
  case (busy i e s')
  then show ?thesis
    using inv acquire_keeps [OF busy(3)] unfolding pool_inv_def by (auto dest!: subsetD) blast
next
  case (give i w t0)
  have kept: "owners p j = Some (v, t1) \<Longrightarrow> j \<noteq> i \<Longrightarrow> clock p \<le> u \<Longrightarrow> u < t1 + ttl
      \<Longrightarrow> wallet_key X v \<in> held u (release X (unlock (clock p)) w (store p))" for j v t1 u
    using release_keeps_others [of "clock p" u "wallet_key X v" X w "store p", folded wallet_key_def]
      pool_inv_distinct [OF inv give(2), of j v t1] pool_inv_owner(2) [OF inv, of j v t1 u] by metis
  show ?thesis
    using give kept inv unfolding pool_inv_def by (auto split: if_splits)
qed

lemma pool_reachable_inv:
  assumes "pool_reachable True X lock unlock ttl entries p"
    and "\<forall>(a, w) \<in> set entries. wallet_address w = a" and "0 < ttl"
  shows "pool_inv X held ttl p"
  using assms
proof (induction rule: pool_reachable.induct)
  case (start p)
  then show ?case by (simp add: pool_inv_def)
next
  case (step p q)
  then show ?case by (blast intro: pool_step_inv)
qed

end

text \<open>The lock keys the Redis lock manager holds.\<close>

definition redis_held :: "(int \<Rightarrow> 'r \<Rightarrow> string set) \<Rightarrow> int \<Rightarrow> 'r \<Rightarrow> string set" where
  "redis_held live t r = {k. wallet_lock_key k \<in> live t r}"

lemma wallet_lock_key_inject [simp]: "wallet_lock_key k = wallet_lock_key k' \<longleftrightarrow> k = k'"
  by (simp add: wallet_lock_key_def)

lemma redis_lock_cases:
  "redis_lock R t k r = (b, r') \<longleftrightarrow>
    (set_nx_ex R t (wallet_lock_key k) LOCK_TTL r = (Inr b, r')
     \<or> (\<not> b \<and> (\<exists>e. set_nx_ex R t (wallet_lock_key k) LOCK_TTL r = (Inl e, r'))))"
  by (auto simp: redis_lock_def split: prod.splits sum.splits)

sublocale redis_store \<subseteq> redis_locks: lock_manager "redis_lock R" "redis_unlock R" "redis_held live" LOCK_TTL
proof (unfold_locales, goal_cases)
  case (1 t k s s')
  then have "set_nx_ex R t (wallet_lock_key k) LOCK_TTL s = (Inr True, s')" by (simp add: redis_lock_cases)
  from set_created [OF this] show ?case by (auto simp: redis_held_def)
next
  case (2 t k s b s' u)
  then consider "set_nx_ex R t (wallet_lock_key k) LOCK_TTL s = (Inr True, s')"
    | "set_nx_ex R t (wallet_lock_key k) LOCK_TTL s = (Inr False, s')"
    | e where "set_nx_ex R t (wallet_lock_key k) LOCK_TTL s = (Inl e, s')"
    unfolding redis_lock_cases by (cases b) auto
  then show ?case
    using 2(2) by cases (auto simp: redis_held_def dest!: set_created set_exists set_error split: if_splits)
next
  case (3 t k s b s' u)
  then consider "set_nx_ex R t (wallet_lock_key k) LOCK_TTL s = (Inr True, s')"
    | "set_nx_ex R t (wallet_lock_key k) LOCK_TTL s = (Inr False, s')"
    | e where "set_nx_ex R t (wallet_lock_key k) LOCK_TTL s = (Inl e, s')"
    unfolding redis_lock_cases by (cases b) auto
  then show ?case
    using 3(2) by cases (force simp: redis_held_def dest!: set_created set_exists set_error split: if_splits)+
next
  case (4 t u s k)
  obtain res s' where d: "del_key R t (wallet_lock_key k) s = (res, s')" by fastforce
  have "live u s - {wallet_lock_key k} \<subseteq> live u s' \<and> live u s' \<subseteq> live u s"
    using 4 d del_done [of t "wallet_lock_key k" s _ s'] del_error [of t "wallet_lock_key k" s _ s']
    by (cases res) auto
  then show ?case using d by (auto simp: redis_held_def redis_unlock_def)
next
  case (5 t u s)
  then show ?case using live_expires [of t u s] by (auto simp: redis_held_def)
qed

context redis_store
begin

lemma redis_is_lock_manager:
  "lock_manager (redis_lock R) (redis_unlock R) (redis_held live) LOCK_TTL"
  by (rule redis_locks.lock_manager_axioms)

end

lemma LOCK_TTL_pos: "0 < LOCK_TTL"
  by (simp add: LOCK_TTL_def SECOND_def)

lemma iterates_keyed:
  assumes "iterates entries wallets" and "\<forall>a w. wallets a = Some w \<longrightarrow> wallet_address w = a"
  shows "\<forall>(a, w) \<in> set entries. wallet_address w = a"
  using assms by (auto simp: iterates_def)

lemma wallet_manager_new_keyed:
  assumes "wallet_manager_new X config = Inr wallets"
  shows "\<forall>a w. wallets a = Some w \<longrightarrow> wallet_address w = a"
  using load_wallets_keyed [of X config Map.empty wallets] assms by (simp add: wallet_manager_new_def)

section \<open>Properties\<close>

text \<open>Sample data for the witnesses: two wallets and crates that read addresses of one byte.\<close>

definition sample_address :: "nat \<Rightarrow> ton_address" where
  "sample_address n = TonAddress 0 [word_of_nat n]"

definition sample_wallet :: "nat \<Rightarrow> ton_wallet_high_load_v3" where
  "sample_wallet n =
     \<lparr>wallet_address = sample_address n, wallet_key_pair = \<lparr>kp_public_key = [], kp_secret_key = []\<rparr>,
      subwallet_id = 1, wallet_timeout = 60\<rparr>"

definition sample_entries :: "(ton_address \<times> ton_wallet_high_load_v3) list" where
  "sample_entries = [(sample_address 65, sample_wallet 65), (sample_address 66, sample_wallet 66)]"

definition sample_key :: "nat \<Rightarrow> string" where
  "sample_key n = [char_of_byte (word_of_nat n)]"

lemmas sample_simps = sample_address_def sample_crates_def sample_wallet_def sample_entries_def str_of_bytes_def as_bytes_def

lemmas redis_eval = redis_lock_def redis_unlock_def mem_redis_def release_def wallet_lock_key_def
  LOCK_TTL_def SECOND_def

text \<open>
  Loading the configuration keys every wallet by its own address, and the manager has
  exactly the wallets of the configuration's addresses.
\<close>

theorem wallet_manager_new_wallets:
  assumes "wallet_manager_new X config = Inr wallets"
  shows "(\<forall>a w. wallets a = Some w \<longrightarrow> wallet_address w = a)
    \<and> dom wallets = {a. \<exists>c \<in> set config. \<exists>w. load_wallet X c = Inr w \<and> wallet_address w = a}"
  using wallet_manager_new_keyed [OF assms] load_wallets_dom [of X config Map.empty wallets] assms
  by (simp add: wallet_manager_new_def)

lemma wallet_manager_new_wallets_witness:
  "\<exists>wallets. wallet_manager_new sample_crates
      [\<lparr>public_key = ''k'', secret_key = ''s'', cfg_subwallet_id = 1, cfg_timeout = 60, cfg_address = ''A''\<rparr>]
      = Inr wallets \<and> (\<forall>a w. wallets a = Some w \<longrightarrow> wallet_address w = a)"
proof -
  obtain wallets where w: "wallet_manager_new sample_crates
      [\<lparr>public_key = ''k'', secret_key = ''s'', cfg_subwallet_id = 1, cfg_timeout = 60, cfg_address = ''A''\<rparr>]
      = Inr wallets"
    by (simp add: wallet_manager_new_def load_wallet_def sample_crates_def)
  from wallet_manager_new_wallets [OF w] w show ?thesis by blast
qed

text \<open>
  with Redis as documented, a wallet that \<open>acquire\<close> returns is one of the manager's,
  its lock was free, and from now until 60 seconds later its lock is held; no other lock is lost.
\<close>

theorem acquire_takes_free_wallet:
  assumes "redis_store R live" and "iterates entries wallets"
    and "\<forall>a w. wallets a = Some w \<longrightarrow> wallet_address w = a"
    and "acquire X (redis_lock R now) entries r = (Inr w, r')"
  shows "wallets (wallet_address w) = Some w \<and> wallet_key X w \<notin> redis_held live now r
    \<and> (\<forall>u. now \<le> u \<and> u < now + 60 * SECOND \<longrightarrow> wallet_key X w \<in> redis_held live u r')
    \<and> (\<forall>u. now \<le> u \<longrightarrow> redis_held live u r \<subseteq> redis_held live u r')"
proof -
  note keyed = iterates_keyed [OF assms(2,3)]
  note lm = redis_store.redis_is_lock_manager [OF assms(1)]
  note a = lock_manager.acquire_success [OF lm assms(4) keyed]
  from a obtain a where aw: "(a, w) \<in> set entries" by blast
  then have "wallet_address w = a" using keyed by auto
  with aw have "wallets (wallet_address w) = Some w" using assms(2) by (auto simp: iterates_def)
  with a show ?thesis by (simp add: wallet_key_def LOCK_TTL_def)
qed

lemma acquire_takes_free_wallet_witness:
  "sample_key 65 \<notin> redis_held mem_live 0 Map.empty
   \<and> acquire sample_crates (redis_lock mem_redis 0) sample_entries Map.empty
       = (Inr (sample_wallet 65), [wallet_lock_key (sample_key 65) \<mapsto> 60 * SECOND])"
proof -
  have acq: "acquire sample_crates (redis_lock mem_redis 0) sample_entries Map.empty
       = (Inr (sample_wallet 65), [wallet_lock_key (sample_key 65) \<mapsto> 60 * SECOND])"
    by (simp add: redis_eval sample_simps sample_key_def)
  have it: "iterates sample_entries (map_of sample_entries)"
    by (simp add: iterates_def sample_simps)
  have k: "\<forall>a w. map_of sample_entries a = Some w \<longrightarrow> wallet_address w = a"
    by (simp add: sample_simps split: if_splits)
  from acquire_takes_free_wallet [OF mem.redis_store_axioms it k acq] acq show ?thesis
    by (simp add: wallet_key_def sample_simps sample_key_def)
qed

text \<open>
  if Redis answers every command, \<open>acquire\<close> fails only when the lock of every
  wallet is held, and then it changes no lock.
\<close>

theorem acquire_fails_iff_all_locked:
  assumes "redis_store R live" and "\<forall>t k ttl r. is_ok (fst (set_nx_ex R t k ttl r))"
  shows "fst (acquire X (redis_lock R now) entries r) = Inl NoAvailableWallet \<longleftrightarrow>
    (\<forall>(a, w) \<in> set entries. address_to_string X a \<in> redis_held live now r)"
proof (induction entries arbitrary: r)
  case Nil
  then show ?case by simp
next
  case (Cons e entries)
  obtain a w where e: "e = (a, w)" by fastforce
  let ?k = "address_to_string X a"
  obtain b r1 where s: "set_nx_ex R now (wallet_lock_key ?k) LOCK_TTL r = (Inr b, r1)"
    using assms(2) by (metis is_ok_iff prod.collapse)
  show ?case
  proof (cases b)
    case True
    then have "?k \<notin> redis_held live now r"
      using redis_store.set_created [OF assms(1)] s by (auto simp: redis_held_def)
    then show ?thesis using True s e by (simp add: redis_lock_def)
  next
    case False
    then have "?k \<in> redis_held live now r" and "redis_held live now r1 = redis_held live now r"
      using redis_store.set_exists [OF assms(1)] s by (auto simp: redis_held_def)
    then show ?thesis using False s e Cons.IH [of r1] by (simp add: redis_lock_def)
  qed
qed

lemma acquire_fails_iff_all_locked_witness:
  "fst (acquire sample_crates (redis_lock mem_redis 0) sample_entries
     [wallet_lock_key (sample_key 65) \<mapsto> 9, wallet_lock_key (sample_key 66) \<mapsto> 9]) = Inl NoAvailableWallet"
proof -
  have ok: "\<forall>t k ttl r. is_ok (fst (set_nx_ex mem_redis t k ttl r))"
    by (simp add: mem_redis_def split: option.split)
  show ?thesis
    by (rule acquire_fails_iff_all_locked [OF mem.redis_store_axioms ok, THEN iffD2])
      (simp add: redis_held_def mem_live_def sample_simps sample_key_def)
qed

text \<open>
  Claim C8: mutual exclusion. However many clients acquire and release wallets, in any order and
  with any Redis errors, as long as each releases its wallet before the 60 seconds of the lock
  are over, no two clients work with the same wallet at the same time.
\<close>

theorem wallet_mutual_exclusion:
  assumes "redis_store R live" and "\<forall>(a, w) \<in> set entries. wallet_address w = a"
    and "pool_reachable True X (redis_lock R) (redis_unlock R) (60 * SECOND) entries p"
    and "owners p i = Some (w, t0)" and "owners p j = Some (v, t1)" and "i \<noteq> j"
  shows "wallet_address w \<noteq> wallet_address v"
proof -
  have "pool_inv X (redis_held live) LOCK_TTL p"
    using lock_manager.pool_reachable_inv [OF redis_store.redis_is_lock_manager [OF assms(1)]]
      assms(2,3) LOCK_TTL_pos by (simp add: LOCK_TTL_def)
  from pool_inv_distinct [OF this assms(4,5,6)] show ?thesis
    by (auto simp: wallet_key_def)
qed

definition sample_pool :: "redis_mem pool" where
  "sample_pool = \<lparr>clock = 0, store = Map.empty, owners = Map.empty\<rparr>"

definition sample_pool_1 :: "redis_mem pool" where
  "sample_pool_1 =
     \<lparr>clock = 0, store = [wallet_lock_key (sample_key 65) \<mapsto> 60 * SECOND], owners = [0 \<mapsto> (sample_wallet 65, 0)]\<rparr>"

definition sample_pool_2 :: "redis_mem pool" where
  "sample_pool_2 =
     \<lparr>clock = 0, store = [wallet_lock_key (sample_key 65) \<mapsto> 60 * SECOND, wallet_lock_key (sample_key 66) \<mapsto> 60 * SECOND],
      owners = [0 \<mapsto> (sample_wallet 65, 0), 1 \<mapsto> (sample_wallet 66, 0)]\<rparr>"

lemma sample_step_1:
  "pool_step timely sample_crates (redis_lock mem_redis) (redis_unlock mem_redis) ttl sample_entries sample_pool sample_pool_1"
  using pool_step.take [of sample_pool 0 sample_crates "redis_lock mem_redis" sample_entries "sample_wallet 65"
      "[wallet_lock_key (sample_key 65) \<mapsto> 60 * SECOND]"]
  by (simp add: sample_pool_def sample_pool_1_def redis_eval sample_simps sample_key_def)

lemma sample_step_2:
  "pool_step timely sample_crates (redis_lock mem_redis) (redis_unlock mem_redis) ttl sample_entries sample_pool_1 sample_pool_2"
  using pool_step.take [of sample_pool_1 1 sample_crates "redis_lock mem_redis" sample_entries "sample_wallet 66"
      "[wallet_lock_key (sample_key 65) \<mapsto> 60 * SECOND, wallet_lock_key (sample_key 66) \<mapsto> 60 * SECOND]"]
  by (simp add: sample_pool_1_def sample_pool_2_def redis_eval sample_simps sample_key_def)

lemma sample_pool_1_reachable:
  "pool_reachable timely sample_crates (redis_lock mem_redis) (redis_unlock mem_redis) ttl sample_entries sample_pool_1"
  by (rule pool_reachable.step [OF pool_reachable.start sample_step_1]) (simp add: sample_pool_def)

lemma wallet_mutual_exclusion_witness:
  "wallet_address (sample_wallet 65) \<noteq> wallet_address (sample_wallet 66)"
proof -
  have r: "pool_reachable True sample_crates (redis_lock mem_redis) (redis_unlock mem_redis) (60 * SECOND) sample_entries sample_pool_2"
    by (rule pool_reachable.step [OF sample_pool_1_reachable sample_step_2])
  have k: "\<forall>(a, w) \<in> set sample_entries. wallet_address w = a"
    by (simp add: sample_simps)
  show ?thesis
    by (rule wallet_mutual_exclusion [OF mem.redis_store_axioms k r, of 0 _ 0 1 _ 0]) (simp_all add: sample_pool_2_def)
qed

text \<open>The first client is late, and a second one gets its wallet.\<close>

definition sample_pool_late :: "redis_mem pool" where
  "sample_pool_late = sample_pool_1\<lparr>clock := 60 * SECOND\<rparr>"

definition sample_pool_shared :: "redis_mem pool" where
  "sample_pool_shared =
     \<lparr>clock = 60 * SECOND, store = [wallet_lock_key (sample_key 65) \<mapsto> 120 * SECOND],
      owners = [0 \<mapsto> (sample_wallet 65, 0), 1 \<mapsto> (sample_wallet 65, 60 * SECOND)]\<rparr>"

lemma sample_step_late:
  "pool_step False sample_crates (redis_lock mem_redis) (redis_unlock mem_redis) ttl sample_entries sample_pool_1 sample_pool_late"
  unfolding sample_pool_late_def by (rule pool_step.tick) (simp_all add: sample_pool_1_def SECOND_def)

lemma sample_step_shared:
  "pool_step False sample_crates (redis_lock mem_redis) (redis_unlock mem_redis) ttl sample_entries sample_pool_late sample_pool_shared"
  using pool_step.take [of sample_pool_late 1 sample_crates "redis_lock mem_redis" sample_entries "sample_wallet 65"
      "[wallet_lock_key (sample_key 65) \<mapsto> 120 * SECOND]"]
  by (simp add: sample_pool_late_def sample_pool_1_def sample_pool_shared_def redis_eval sample_simps sample_key_def)

text \<open>
  the 60 seconds matter. A client that holds its wallet longer than the lock lives
  shares it: after 60 seconds a second client acquires the same wallet while the first still
  works with it, and when the first releases, it removes the second one's lock.
\<close>

theorem lock_expiry_breaks_exclusion:
  "\<exists>p q. pool_reachable False sample_crates (redis_lock mem_redis) (redis_unlock mem_redis) (60 * SECOND) sample_entries p
     \<and> owners p 0 = Some (sample_wallet 65, 0) \<and> owners p 1 = Some (sample_wallet 65, 60 * SECOND)
     \<and> pool_step False sample_crates (redis_lock mem_redis) (redis_unlock mem_redis) (60 * SECOND) sample_entries p q
     \<and> owners q 1 = Some (sample_wallet 65, 60 * SECOND) \<and> store q = Map.empty"
proof -
  let ?freed = "sample_pool_shared\<lparr>store := Map.empty, owners := (owners sample_pool_shared)(0 := None)\<rparr>"
  have r: "release sample_crates (redis_unlock mem_redis (clock sample_pool_shared)) (sample_wallet 65) (store sample_pool_shared)
      = Map.empty"
    by (simp add: sample_pool_shared_def redis_eval sample_simps sample_key_def)
  have "owners sample_pool_shared 0 = Some (sample_wallet 65, 0)" by (simp add: sample_pool_shared_def)
  from pool_step.give [where timely = False and X = sample_crates and lock = "redis_lock mem_redis"
      and unlock = "redis_unlock mem_redis" and ttl = "60 * SECOND" and entries = sample_entries, OF this, unfolded r]
  show ?thesis
    using pool_reachable.step [OF pool_reachable.step [OF sample_pool_1_reachable sample_step_late] sample_step_shared]
    by (intro exI [of _ sample_pool_shared] exI [of _ ?freed]) (simp add: sample_pool_shared_def)
qed

end
