(* ===== verification/Tonlib.thy ===== *)
theory Tonlib
  imports External
begin

text \<open>
  The cells of \<open>tonlib_core\<close>, which is not part of the repository: the record \<open>tonlib\<close>
  has one field per function the relayer calls, over abstract types of cells, cell parsers and
  cell builders. The locale \<open>ton_cells\<close> states the documented behaviour the proofs rely on,
  through the bits and references that a cell holds and that a parser has still to read: a cell
  has at most 1023 bits and 4 references, reads take from the front, a read of more bits than
  there are is an error that consumes nothing, references form no cycle. The last section
  builds an instance.
\<close>

section \<open>Bit strings and big-endian bytes\<close>

definition bits_be :: "nat \<Rightarrow> nat \<Rightarrow> bool list" where
  "bits_be n v = map (\<lambda>i. odd (v div 2 ^ i)) (rev [0..<n])"

definition bits_val :: "bool list \<Rightarrow> nat" where
  "bits_val bs = foldl (\<lambda>a b. 2 * a + of_bool b) 0 bs"

definition bytes_bits :: "byte list \<Rightarrow> bool list" where
  "bytes_bits bs = concat (map (\<lambda>b. bits_be 8 (unat b)) bs)"

text \<open>\<open>BigUint::to_bytes_be\<close> (no leading zero byte, but \<open>[0]\<close> for 0) and \<open>from_bytes_be\<close>.\<close>

definition to_bytes_be :: "nat \<Rightarrow> byte list" where
  "to_bytes_be n = map word_of_nat (radix_digits 256 n)"

definition from_bytes_be :: "byte list \<Rightarrow> nat" where
  "from_bytes_be bs = foldl (\<lambda>a b. 256 * a + unat b) 0 bs"

lemma length_bits_be [simp]: "length (bits_be n v) = n"
  by (simp add: bits_be_def)

lemma length_bytes_bits [simp]: "length (bytes_bits bs) = 8 * length bs"
  by (induction bs) (simp_all add: bytes_bits_def)

lemma bytes_bits_Nil [simp]: "bytes_bits [] = []"
  and bytes_bits_Cons [simp]: "bytes_bits (b # bs) = bits_be 8 (unat b) @ bytes_bits bs"
  and bytes_bits_append [simp]: "bytes_bits (as @ bs) = bytes_bits as @ bytes_bits bs"
  by (simp_all add: bytes_bits_def)

lemma bits_be_Suc: "bits_be (Suc n) v = bits_be n (v div 2) @ [odd v]"
proof -
  have "[0..<Suc n] = 0 # map Suc [0..<n]"
    by (metis map_Suc_upt upt_conv_Cons zero_less_Suc)
  then have "rev [0..<Suc n] = map Suc (rev [0..<n]) @ [0]"
    by (simp add: rev_map)
  then show ?thesis
    by (simp add: bits_be_def o_def div_mult2_eq)
qed

lemma bits_be_0 [simp]: "bits_be 0 v = []"
  by (simp add: bits_be_def)

lemma bits_val_snoc [simp]: "bits_val (bs @ [b]) = 2 * bits_val bs + of_bool b"
  by (simp add: bits_val_def)

lemma bits_val_Nil [simp]: "bits_val [] = 0"
  by (simp add: bits_val_def)

lemma bits_val_be: "bits_val (bits_be n v) = v mod 2 ^ n"
proof (induction n arbitrary: v)
  case 0
  then show ?case by simp
next
  case (Suc n)
  have "v mod (2 * 2 ^ n) = 2 * (v div 2 mod 2 ^ n) + v mod 2"
    by (rule mod_mult2_eq)
  moreover have "v mod 2 = of_bool (odd v)"
    by (rule mod_2_eq_odd)
  ultimately show ?case
    using Suc by (simp add: bits_be_Suc)
qed

lemma bits_val_be_small [simp]: "v < 2 ^ n \<Longrightarrow> bits_val (bits_be n v) = v"
  by (simp add: bits_val_be)

lemma bits_val_byte [simp]: "bits_val (bits_be 8 (unat (b :: byte))) = unat b"
  using unat_byte_less [of b] by simp

lemma bits_val_less: "bits_val bs < 2 ^ length bs"
  by (induction bs rule: rev_induct) auto

section \<open>The interface\<close>

text \<open>
  The messages and actions the relayer hands to the library: an internal message, of which the
  code fills in every field, and the only out-action it uses.
\<close>

record internal_message =
  im_ihr_disabled :: bool
  im_bounce :: bool
  im_bounced :: bool
  im_src :: ton_address
  im_dest :: ton_address
  im_value :: nat
  im_ihr_fee :: nat
  im_fwd_fee :: nat
  im_created_lt :: u64
  im_created_at :: u32

datatype 'c out_action = SendMsg (oa_mode: u8) (oa_out_msg: 'c)

record ('c, 'p, 'b) tonlib =
  from_boc_b64 :: "string \<Rightarrow> string + 'c"
  from_boc_hex :: "string \<Rightarrow> string + 'c"
  to_boc_hex :: "'c \<Rightarrow> string + string"
  boc_serialize :: "'c \<Rightarrow> string + byte list"
  cell_data :: "'c \<Rightarrow> byte list"
  cell_hash :: "'c \<Rightarrow> byte list"
  arc_from_cell :: "'c \<Rightarrow> string + 'c"
  cell_depth :: "'c \<Rightarrow> nat"
  cell_parser :: "'c \<Rightarrow> 'p"
  next_reference :: "'p \<Rightarrow> (string + 'c) \<times> 'p"
  load_bits :: "nat \<Rightarrow> 'p \<Rightarrow> (string + byte list) \<times> 'p"
  load_uint :: "nat \<Rightarrow> 'p \<Rightarrow> (string + nat) \<times> 'p"
  load_u8 :: "nat \<Rightarrow> 'p \<Rightarrow> (string + u8) \<times> 'p"
  load_i16 :: "nat \<Rightarrow> 'p \<Rightarrow> (string + 16 word) \<times> 'p"
  load_address :: "'p \<Rightarrow> (string + ton_address) \<times> 'p"
  load_coins :: "'p \<Rightarrow> (string + nat) \<times> 'p"
  load_tonhash :: "'p \<Rightarrow> (string + byte list) \<times> 'p"
  load_dict :: "nat \<Rightarrow> 'p \<Rightarrow> (string + (u8 \<times> 'c) list) \<times> 'p"
  new_builder :: 'b
  store_uint :: "nat \<Rightarrow> nat \<Rightarrow> 'b \<Rightarrow> string + 'b"
  store_u8 :: "nat \<Rightarrow> u8 \<Rightarrow> 'b \<Rightarrow> string + 'b"
  store_u32 :: "nat \<Rightarrow> u32 \<Rightarrow> 'b \<Rightarrow> string + 'b"
  store_u64 :: "nat \<Rightarrow> u64 \<Rightarrow> 'b \<Rightarrow> string + 'b"
  store_int :: "nat \<Rightarrow> int \<Rightarrow> 'b \<Rightarrow> string + 'b"
  store_number :: "nat \<Rightarrow> int \<Rightarrow> 'b \<Rightarrow> string + 'b"
  store_slice :: "byte list \<Rightarrow> 'b \<Rightarrow> string + 'b"
  store_reference :: "'c \<Rightarrow> 'b \<Rightarrow> string + 'b"
  store_address :: "ton_address \<Rightarrow> 'b \<Rightarrow> string + 'b"
  store_coins :: "nat \<Rightarrow> 'b \<Rightarrow> string + 'b"
  store_tonhash :: "byte list \<Rightarrow> 'b \<Rightarrow> string + 'b"
  build_cell :: "'b \<Rightarrow> string + 'c"
  write_out_list :: "'c out_action list \<Rightarrow> 'b \<Rightarrow> string + 'b"
  transfer_message :: "internal_message \<Rightarrow> 'c \<Rightarrow> string + 'c"
  ext_in_message :: "ton_address \<Rightarrow> nat \<Rightarrow> 'c \<Rightarrow> string + 'c"
  nacl_signature :: "byte list \<Rightarrow> byte list \<Rightarrow> string + byte list"

text \<open>
  \<open>cell_depth\<close> is not called by the relayer: it is the length of the longest chain of
  references below a cell, which bounds the loop of \<open>cell_to_buffer\<close>.

  What the library promises is stated through a view of cells, parsers and builders.
\<close>

record ('c, 'p, 'b) cell_view =
  bits_of :: "'c \<Rightarrow> bool list"
  refs_of :: "'c \<Rightarrow> 'c list"
  bits_left :: "'p \<Rightarrow> bool list"
  refs_left :: "'p \<Rightarrow> 'c list"
  bits_built :: "'b \<Rightarrow> bool list"
  refs_built :: "'b \<Rightarrow> 'c list"
  address_bits :: "ton_address \<Rightarrow> bool list"
  coins_bits :: "nat \<Rightarrow> bool list"

text \<open>Addresses in the standard form: one signed byte of work chain and 32 bytes of hash.\<close>

definition std_address :: "ton_address \<Rightarrow> bool" where
  "std_address a \<longleftrightarrow> length (hash_part a) = 32 \<and> - 128 \<le> sint (workchain a) \<and> sint (workchain a) < 128"

locale ton_cells =
  fixes T :: "('c, 'p, 'b) tonlib" and V :: "('c, 'p, 'b) cell_view"
  assumes parser_view: "bits_left V (cell_parser T c) = bits_of V c" "refs_left V (cell_parser T c) = refs_of V c"
    and depth_decreases: "d \<in> set (refs_of V c) \<Longrightarrow> cell_depth T d < cell_depth T c"
    and reference_ok: "refs_left V p = c # cs \<Longrightarrow>
          \<exists>q. next_reference T p = (Inr c, q) \<and> refs_left V q = cs \<and> bits_left V q = bits_left V p"
    and reference_none: "refs_left V p = [] \<Longrightarrow> \<exists>e q. next_reference T p = (Inl e, q)"
    and uint_ok: "bits_left V p = bs @ r \<Longrightarrow> length bs = n \<Longrightarrow>
          \<exists>q. load_uint T n p = (Inr (bits_val bs), q) \<and> bits_left V q = r \<and> refs_left V q = refs_left V p"
    and uint_short: "length (bits_left V p) < n \<Longrightarrow>
          \<exists>e q. load_uint T n p = (Inl e, q) \<and> bits_left V q = bits_left V p \<and> refs_left V q = refs_left V p"
    and bits_ok: "bits_left V p = bytes_bits bytes @ r \<Longrightarrow> n = 8 * length bytes \<Longrightarrow>
          \<exists>q. load_bits T n p = (Inr bytes, q) \<and> bits_left V q = r \<and> refs_left V q = refs_left V p"
    and bits_short: "length (bits_left V p) < n \<Longrightarrow> \<exists>e q. load_bits T n p = (Inl e, q)"
    and address_ok: "std_address a \<Longrightarrow> bits_left V p = address_bits V a @ r \<Longrightarrow>
          \<exists>q. load_address T p = (Inr a, q) \<and> bits_left V q = r \<and> refs_left V q = refs_left V p"
    and coins_ok: "m < 2 ^ 120 \<Longrightarrow> bits_left V p = coins_bits V m @ r \<Longrightarrow>
          \<exists>q. load_coins T p = (Inr m, q) \<and> bits_left V q = r \<and> refs_left V q = refs_left V p"
    and tonhash_ok: "length h = 32 \<Longrightarrow> bits_left V p = bytes_bits h @ r \<Longrightarrow>
          \<exists>q. load_tonhash T p = (Inr h, q) \<and> bits_left V q = r \<and> refs_left V q = refs_left V p"
    and builder_new: "bits_built V (new_builder T) = []" "refs_built V (new_builder T) = []"
    and store_uint_ok: "v < 2 ^ n \<Longrightarrow> length (bits_built V b) + n \<le> 1023 \<Longrightarrow>
          \<exists>b'. store_uint T n v b = Inr b' \<and> bits_built V b' = bits_built V b @ bits_be n v
             \<and> refs_built V b' = refs_built V b"
    and store_reference_ok: "length (refs_built V b) < 4 \<Longrightarrow>
          \<exists>b'. store_reference T c b = Inr b' \<and> refs_built V b' = refs_built V b @ [c]
             \<and> bits_built V b' = bits_built V b"
    and store_address_ok: "std_address a \<Longrightarrow> length (bits_built V b) + 267 \<le> 1023 \<Longrightarrow>
          \<exists>b'. store_address T a b = Inr b' \<and> bits_built V b' = bits_built V b @ address_bits V a
             \<and> refs_built V b' = refs_built V b"
    and store_coins_ok: "m < 2 ^ 120 \<Longrightarrow> length (bits_built V b) + 124 \<le> 1023 \<Longrightarrow>
          \<exists>b'. store_coins T m b = Inr b' \<and> bits_built V b' = bits_built V b @ coins_bits V m
             \<and> refs_built V b' = refs_built V b"
    and store_tonhash_ok: "length h = 32 \<Longrightarrow> length (bits_built V b) + 256 \<le> 1023 \<Longrightarrow>
          \<exists>b'. store_tonhash T h b = Inr b' \<and> bits_built V b' = bits_built V b @ bytes_bits h
             \<and> refs_built V b' = refs_built V b"
    and address_bits_length: "std_address a \<Longrightarrow> length (address_bits V a) \<le> 267"
    and coins_bits_length: "m < 2 ^ 120 \<Longrightarrow> length (coins_bits V m) \<le> 124"
    and build_ok: "length (bits_built V b) \<le> 1023 \<Longrightarrow> length (refs_built V b) \<le> 4 \<Longrightarrow>
          \<exists>c. build_cell T b = Inr c \<and> bits_of V c = bits_built V b \<and> refs_of V c = refs_built V b"


text \<open>
  The numbers a wallet message holds: the fixed-width stores at their full width, the signed
  store for non-negative values that fit with their sign bit, and byte slices.
\<close>

locale ton_numbers = ton_cells +
  assumes store_u8_ok: "length (bits_built V b) + 8 \<le> 1023 \<Longrightarrow>
          \<exists>b'. store_u8 T 8 w8 b = Inr b' \<and> bits_built V b' = bits_built V b @ bits_be 8 (unat w8)
             \<and> refs_built V b' = refs_built V b"
    and store_u32_ok: "length (bits_built V b) + 32 \<le> 1023 \<Longrightarrow>
          \<exists>b'. store_u32 T 32 w32 b = Inr b' \<and> bits_built V b' = bits_built V b @ bits_be 32 (unat w32)
             \<and> refs_built V b' = refs_built V b"
    and store_u64_ok: "length (bits_built V b) + 64 \<le> 1023 \<Longrightarrow>
          \<exists>b'. store_u64 T 64 w64 b = Inr b' \<and> bits_built V b' = bits_built V b @ bits_be 64 (unat w64)
             \<and> refs_built V b' = refs_built V b"
    and store_int_ok: "m < 2 ^ (n - 1) \<Longrightarrow> length (bits_built V b) + n \<le> 1023 \<Longrightarrow>
          \<exists>b'. store_int T n (int m) b = Inr b' \<and> bits_built V b' = bits_built V b @ bits_be n m
             \<and> refs_built V b' = refs_built V b"
    and store_number_ok: "m < 2 ^ (n - 1) \<Longrightarrow> length (bits_built V b) + n \<le> 1023 \<Longrightarrow>
          \<exists>b'. store_number T n (int m) b = Inr b' \<and> bits_built V b' = bits_built V b @ bits_be n m
             \<and> refs_built V b' = refs_built V b"
    and store_slice_ok: "length (bits_built V b) + 8 * length bytes \<le> 1023 \<Longrightarrow>
          \<exists>b'. store_slice T bytes b = Inr b' \<and> bits_built V b' = bits_built V b @ bytes_bits bytes
             \<and> refs_built V b' = refs_built V b"

text \<open>
  Messages and action lists: the list of one action refers to the empty list before it and to the
  message (\<open>out_list$_ prev:^(OutList n) action:OutAction\<close>), and the body of a transfer is its
  only reference.
\<close>

locale ton_messages = ton_numbers +
  assumes out_list_ok: "\<exists>b prev. write_out_list T [SendMsg mode msg] (new_builder T) = Inr b
          \<and> length (bits_built V b) \<le> 1023 \<and> refs_built V b = [prev, msg]"
    and transfer_ok: "transfer_message T im body = Inr tm \<Longrightarrow> refs_of V tm = [body]"

text \<open>Reads of small numbers: eight bits as an unsigned and as a signed number.\<close>

locale ton_reads = ton_cells +
  assumes u8_ok: "bits_left V p = bits_be 8 (unat b) @ r \<Longrightarrow>
          \<exists>q. load_u8 T 8 p = (Inr b, q) \<and> bits_left V q = r \<and> refs_left V q = refs_left V p"
    and i16_ok: "bits_left V p = bits_be 8 (unat (b :: 8 word)) @ r \<Longrightarrow>
          \<exists>q. load_i16 T 8 p = (Inr (scast b), q) \<and> bits_left V q = r \<and> refs_left V q = refs_left V p"

section \<open>An instance\<close>

text \<open>
  Cells as finite trees. A parser holds the bits and references left, a builder those written
  so far. The reader of serialised cells is left as a parameter \<open>D\<close>.
\<close>

datatype rcell = RCell (rc_bits: "bool list") (rc_refs: "rcell list")

type_synonym rparser = "bool list \<times> rcell list"

fun bits_bytes :: "bool list \<Rightarrow> byte list" where
  "bits_bytes bs = (if bs = [] then [] else word_of_nat (bits_val (take 8 bs)) # bits_bytes (drop 8 bs))"

declare bits_bytes.simps [simp del]

definition rc_take :: "nat \<Rightarrow> (bool list \<Rightarrow> 'a) \<Rightarrow> rparser \<Rightarrow> (string + 'a) \<times> rparser" where
  "rc_take n f p =
     (if n \<le> length (fst p) then (Inr (f (take n (fst p))), (drop n (fst p), snd p)) else (Inl ''not enough bits'', p))"

definition rc_address :: "ton_address \<Rightarrow> bool list" where
  "rc_address a = [True, False, False] @ bits_be 8 (unat (ucast (workchain a) :: 8 word)) @ bytes_bits (hash_part a)"

definition rc_read_address :: "bool list \<Rightarrow> ton_address" where
  "rc_read_address bs =
     TonAddress (scast (word_of_nat (bits_val (take 8 (drop 3 bs))) :: 8 word)) (bits_bytes (drop 11 bs))"

definition rc_coins :: "nat \<Rightarrow> bool list" where
  "rc_coins m = bits_be 4 (if m = 0 then 0 else length (radix_digits 256 m))
     @ bits_be (if m = 0 then 0 else 8 * length (radix_digits 256 m)) m"

definition rc_load_coins :: "rparser \<Rightarrow> (string + nat) \<times> rparser" where
  "rc_load_coins p =
     (if length (fst p) < 4 then (Inl ''not enough bits'', p)
      else let n = 4 + 8 * bits_val (take 4 (fst p)) in rc_take n (\<lambda>bs. bits_val (drop 4 bs)) p)"

definition rc_append :: "bool list \<Rightarrow> rparser \<Rightarrow> string + rparser" where
  "rc_append bs b = (if length (fst b) + length bs \<le> 1023 then Inr (fst b @ bs, snd b) else Inl ''cell overflow'')"

text \<open>An action list, last action first: the actions before it in the first reference.\<close>

fun rc_out_list :: "rcell out_action list \<Rightarrow> rparser" where
  "rc_out_list [] = ([], [])"
| "rc_out_list (a # as) =
     (bits_be 32 0x0ec3c86d @ bits_be 8 (unat (oa_mode a)),
      [RCell (fst (rc_out_list as)) (snd (rc_out_list as)), oa_out_msg a])"

definition tree_tonlib :: "(string \<Rightarrow> string + rcell) \<Rightarrow> (rcell, rparser, rparser) tonlib" where
  "tree_tonlib D =
     \<lparr>from_boc_b64 = D, from_boc_hex = D, to_boc_hex = (\<lambda>c. Inl ''unsupported''),
      boc_serialize = (\<lambda>c. Inr (bits_bytes (rc_bits c))),
      cell_data = (\<lambda>c. bits_bytes (rc_bits c)), cell_hash = (\<lambda>c. take 32 (bits_bytes (rc_bits c) @ replicate 32 0)),
      arc_from_cell = Inr, cell_depth = size,
      cell_parser = (\<lambda>c. (rc_bits c, rc_refs c)),
      next_reference = (\<lambda>p. case snd p of [] \<Rightarrow> (Inl ''no reference'', p) | c # cs \<Rightarrow> (Inr c, (fst p, cs))),
      load_bits = (\<lambda>n. rc_take n bits_bytes), load_uint = (\<lambda>n. rc_take n bits_val),
      load_u8 = (\<lambda>n. rc_take n (\<lambda>bs. word_of_nat (bits_val bs))),
      load_i16 = (\<lambda>n. rc_take n (\<lambda>bs. scast (word_of_nat (bits_val bs) :: 8 word))),
      load_address = rc_take 267 rc_read_address, load_coins = rc_load_coins,
      load_tonhash = rc_take 256 bits_bytes, load_dict = (\<lambda>n p. (Inl ''unsupported'', p)),
      new_builder = ([], []),
      store_uint = (\<lambda>n v b. if v < 2 ^ n then rc_append (bits_be n v) b else Inl ''value too big''),
      store_u8 = (\<lambda>n v. rc_append (bits_be n (unat v))),
      store_u32 = (\<lambda>n v. rc_append (bits_be n (unat v))),
      store_u64 = (\<lambda>n v. rc_append (bits_be n (unat v))),
      store_int = (\<lambda>n v b. if - (2 ^ (n - 1)) \<le> v \<and> v < 2 ^ (n - 1)
         then rc_append (bits_be n (nat (v mod 2 ^ n))) b else Inl ''value too big''),
      store_number = (\<lambda>n v b. if 0 \<le> v \<and> v < 2 ^ n then rc_append (bits_be n (nat v)) b else Inl ''value too big''),
      store_slice = (\<lambda>bytes. rc_append (bytes_bits bytes)),
      store_reference = (\<lambda>c b. if length (snd b) < 4 then Inr (fst b, snd b @ [c]) else Inl ''too many references''),
      store_address = (\<lambda>a. rc_append (rc_address a)), store_coins = (\<lambda>m. rc_append (rc_coins m)),
      store_tonhash = (\<lambda>h. rc_append (bytes_bits h)),
      build_cell = (\<lambda>b. Inr (RCell (fst b) (snd b))),
      write_out_list = (\<lambda>acts b. Inr (fst b @ fst (rc_out_list (rev acts)), snd b @ snd (rc_out_list (rev acts)))),
      transfer_message = (\<lambda>m c. Inr (RCell (rc_address (im_dest m)) [c])),
      ext_in_message = (\<lambda>a fee c. Inr (RCell (rc_address a) [c])),
      nacl_signature = (\<lambda>msg key. Inr (replicate 64 0))\<rparr>"

definition tree_view :: "(rcell, rparser, rparser) cell_view" where
  "tree_view =
     \<lparr>bits_of = rc_bits, refs_of = rc_refs, bits_left = fst, refs_left = snd, bits_built = fst, refs_built = snd,
      address_bits = rc_address, coins_bits = rc_coins\<rparr>"

lemma bits_bytes_bytes_bits [simp]: "bits_bytes (bytes_bits bs) = bs"
proof (induction bs)
  case Nil
  then show ?case by (simp add: bits_bytes.simps)
next
  case (Cons b bs)
  have "bits_be 8 (unat b) \<noteq> []"
    by (metis length_bits_be length_0_conv numeral_eq_Suc nat.distinct(1))
  with Cons show ?case by (simp add: bits_bytes.simps [of "bits_be 8 (unat b) @ bytes_bits bs"])
qed

lemma rc_take_prefix: "length bs = n \<Longrightarrow> rc_take n f (bs @ r, cs) = (Inr (f bs), (r, cs))"
  by (simp add: rc_take_def)

lemma length_rc_address: "std_address a \<Longrightarrow> length (rc_address a) = 267"
  by (simp add: rc_address_def std_address_def)

lemma ucast_byte_sint: "(ucast (w :: i32) :: 8 word) = word_of_int (sint w)"
  by (rule bit_word_eqI) (simp add: bit_simps min_def)

lemma rc_read_address_inverse:
  assumes "std_address a"
  shows "rc_read_address (rc_address a) = a"
proof -
  have u: "(ucast (workchain a) :: 8 word) = word_of_int (sint (workchain a))"
    by (rule ucast_byte_sint)
  have "sint (word_of_int (sint (workchain a)) :: 8 word) = sint (workchain a)"
    using assms by (intro sint_exact) (simp_all add: std_address_def)
  then have "scast (ucast (workchain a) :: 8 word) = workchain a"
    by (simp only: u scast_eq) (rule word_of_sint)
  then show ?thesis
    by (cases a) (simp add: rc_read_address_def rc_address_def)
qed

lemma rc_load_coins_inverse:
  assumes "m < 2 ^ 120"
  shows "rc_load_coins (rc_coins m @ r, cs) = (Inr m, (r, cs)) \<and> length (rc_coins m) \<le> 124"
proof (cases "m = 0")
  case True
  then show ?thesis
    by (simp add: rc_load_coins_def rc_coins_def rc_take_def Let_def)
next
  case False
  define k where "k = length (radix_digits 256 m)"
  have "length (radix_digits 256 m) \<le> Suc 14"
    using assms by (intro radix_digits_length) simp_all
  then have k: "k \<le> 15" by (simp add: k_def)
  have "(256 :: nat) ^ k = 2 ^ (8 * k)" by (simp add: power_mult)
  then have m: "m < 2 ^ (8 * k)" using radix_digits_value_less [of 256 m] by (simp add: k_def)
  have c: "rc_coins m = bits_be 4 k @ bits_be (8 * k) m"
    using False by (simp add: rc_coins_def k_def)
  have "bits_val (bits_be 4 k) = k" using k by simp
  then show ?thesis using k m by (simp add: rc_load_coins_def c rc_take_def Let_def)
qed


lemma rc_coins_fits: "m < 2 ^ 120 \<Longrightarrow> k \<le> 899 \<Longrightarrow> k + length (rc_coins m) \<le> 1023"
  using rc_load_coins_inverse [of m] by fastforce

lemma rcell_child_size: "d \<in> set (rc_refs c) \<Longrightarrow> size d < size c"
  by (cases c) (auto dest: size_list_estimation' [of _ _ _ size, OF _ order_refl] simp: less_Suc_eq_le)

interpretation tree: ton_cells "tree_tonlib D" tree_view
  by unfold_locales
    (auto simp: tree_tonlib_def tree_view_def rcell_child_size rc_take_def rc_append_def length_rc_address
       rc_read_address_inverse rc_load_coins_inverse rc_coins_fits)


lemma power_diff_one_le: "(m :: nat) < 2 ^ (n - 1) \<Longrightarrow> m < 2 ^ n"
  by (erule order_less_le_trans) simp

lemma int_less_power: "m < 2 ^ k \<Longrightarrow> int m < 2 ^ k"
  by (metis of_nat_less_iff of_nat_numeral of_nat_power)

interpretation tree: ton_numbers "tree_tonlib D" tree_view
proof
  fix m n :: nat and b :: rparser
  assume m: "m < 2 ^ (n - 1)" and len: "length (bits_built tree_view b) + n \<le> 1023"
  have l: "int m < 2 ^ (n - 1)" "int m < 2 ^ n" using m power_diff_one_le [OF m] by (simp_all add: int_less_power)
  then have "nat (int m mod 2 ^ n) = m" by simp
  moreover have "- (2 ^ (n - 1)) \<le> int m" by (rule order_trans [of _ 0]) simp_all
  ultimately show "\<exists>b'. store_int (tree_tonlib D) n (int m) b = Inr b' \<and>
         bits_built tree_view b' = bits_built tree_view b @ bits_be n m \<and> refs_built tree_view b' = refs_built tree_view b"
    using l len by (simp add: tree_tonlib_def tree_view_def rc_append_def)
  show "\<exists>b'. store_number (tree_tonlib D) n (int m) b = Inr b' \<and>
         bits_built tree_view b' = bits_built tree_view b @ bits_be n m \<and> refs_built tree_view b' = refs_built tree_view b"
    using l len by (simp add: tree_tonlib_def tree_view_def rc_append_def)
qed (simp_all add: tree_tonlib_def tree_view_def rc_append_def)

interpretation tree: ton_messages "tree_tonlib D" tree_view
  by unfold_locales (auto simp: tree_tonlib_def tree_view_def)

interpretation tree: ton_reads "tree_tonlib D" tree_view
  by unfold_locales (simp_all add: tree_tonlib_def tree_view_def rc_take_def)

end
