(* ===== verification/Cell_Codec.thy ===== *)
theory Cell_Codec
  imports Tonlib
begin

text \<open>
  Byte strings in chains of cells: \<open>src/src/boc/buffer_to_cell.rs\<close>,
  \<open>src/src/boc/cell_to.rs\<close>, the op-code comparison of \<open>src/src/boc/op_code.rs\<close> and the
  errors of \<open>src/src/error.rs\<close>. A buffer is split into cells of 96 bytes, each holding a
  reference to the next. The lemmas in the context of \<open>ton_cells\<close> show that reading is
  total and that it inverts writing.
\<close>

section \<open>Errors\<close>

datatype boc_error = BocEncodingError string | BocParsingError string | InvalidOpCode string

section \<open>Writing\<close>

definition BYTES_PER_CELL :: nat where
  "BYTES_PER_CELL = 96"

fun store_bytes :: "('c, 'p, 'b) tonlib \<Rightarrow> byte list \<Rightarrow> 'b \<Rightarrow> boc_error + 'b" where
  "store_bytes T [] b = Inr b"
| "store_bytes T (x # xs) b =
     and_then (map_err BocParsingError (store_uint T 8 (unat x) b)) (store_bytes T xs)"

function build_cell_chain :: "('c, 'p, 'b) tonlib \<Rightarrow> nat \<Rightarrow> byte list \<Rightarrow> boc_error + 'c" where
  "build_cell_chain T start_index buffer =
     (let end_index = min (start_index + BYTES_PER_CELL) (length buffer) in
      and_then (store_bytes T (take (end_index - start_index) (drop start_index buffer)) (new_builder T)) (\<lambda>b.
      and_then
        (if end_index < length buffer
         then and_then (build_cell_chain T end_index buffer) (\<lambda>next_cell.
                map_err BocParsingError (store_reference T next_cell b))
         else Inr b) (\<lambda>b'.
      map_err BocParsingError (build_cell T b'))))"
  by pat_completeness auto
termination
  by (relation "measure (\<lambda>(T, i, buffer). length buffer - i)") (auto simp: BYTES_PER_CELL_def)

declare build_cell_chain.simps [simp del]

definition buffer_to_cell :: "('c, 'p, 'b) tonlib \<Rightarrow> byte list \<Rightarrow> boc_error + 'c" where
  "buffer_to_cell T buffer = build_cell_chain T 0 buffer"

section \<open>Reading\<close>

text \<open>The inner loop of \<open>cell_to_buffer\<close>: at most \<open>n\<close> more bytes of one cell.\<close>

fun load_bytes :: "('c, 'p, 'b) tonlib \<Rightarrow> nat \<Rightarrow> 'p \<Rightarrow> byte list \<Rightarrow> byte list \<times> 'p" where
  "load_bytes T 0 p u8_vec = (u8_vec, p)"
| "load_bytes T (Suc n) p u8_vec =
     (case load_uint T 8 p of
        (Inr val, q) \<Rightarrow>
          load_bytes T n q
            (case to_bytes_be val of [] \<Rightarrow> u8_vec | bytes \<Rightarrow> u8_vec @ [last bytes])
      | (Inl e, q) \<Rightarrow> (u8_vec, q))"

text \<open>
  The outer loop. \<open>None\<close> is running out of fuel, which the depth of the first cell rules
  out: \<open>cell_to_buffer_total\<close> below.
\<close>

fun buffer_loop :: "('c, 'p, 'b) tonlib \<Rightarrow> nat \<Rightarrow> 'c option \<Rightarrow> byte list \<Rightarrow> byte list option" where
  "buffer_loop T fuel None u8_vec = Some u8_vec"
| "buffer_loop T 0 (Some cell) u8_vec = None"
| "buffer_loop T (Suc fuel) (Some cell) u8_vec =
     (let (u8_vec', p) = load_bytes T BYTES_PER_CELL (cell_parser T cell) u8_vec in
      buffer_loop T fuel (case fst (next_reference T p) of Inl _ \<Rightarrow> None | Inr c \<Rightarrow> Some c) u8_vec')"

definition cell_to_buffer :: "('c, 'p, 'b) tonlib \<Rightarrow> 'c \<Rightarrow> boc_error + byte list" where
  "cell_to_buffer T cell =
     ok_or (BocParsingError ''out of fuel'') (buffer_loop T (Suc (cell_depth T cell)) (Some cell) [])"

definition cell_to_string :: "('c, 'p, 'b) tonlib \<Rightarrow> 'c \<Rightarrow> boc_error + string" where
  "cell_to_string T cell =
     and_then (cell_to_buffer T cell) (\<lambda>bytes. map_err BocParsingError (from_utf8 bytes))"

section \<open>Op codes\<close>

definition compare_op_code :: "u32 \<Rightarrow> byte list \<Rightarrow> bool" where
  "compare_op_code expected_op_code op_code \<longleftrightarrow>
     length op_code = 4 \<and> word_of_nat (from_bytes_be op_code) = expected_op_code"

section \<open>Chains of cells\<close>

text \<open>
  The specification: a cell holds a byte string if its bits are the bytes of a first part of at
  most 96 bytes and, where it has references, the first one holds the rest.
\<close>

inductive holds_bytes :: "('c, 'p, 'b) cell_view \<Rightarrow> 'c \<Rightarrow> byte list \<Rightarrow> bool" for V where
  last_cell: "bits_of V c = bytes_bits bs \<Longrightarrow> length bs \<le> BYTES_PER_CELL \<Longrightarrow> refs_of V c = []
     \<Longrightarrow> holds_bytes V c bs"
| more_cells: "bits_of V c = bytes_bits bs \<Longrightarrow> length bs \<le> BYTES_PER_CELL \<Longrightarrow> refs_of V c = d # ds
     \<Longrightarrow> holds_bytes V d cs \<Longrightarrow> holds_bytes V c (bs @ cs)"

lemma last_to_bytes_be: "last (to_bytes_be v) = word_of_nat v" "to_bytes_be v \<noteq> []"
proof -
  show "to_bytes_be v \<noteq> []" by (simp add: to_bytes_be_def radix_digits_nonempty)
  have "word_of_nat (v mod 256) = (word_of_nat v :: byte)"
    by (simp add: word_of_nat_eq_iff take_bit_eq_mod)
  then show "last (to_bytes_be v) = word_of_nat v"
    by (simp add: to_bytes_be_def radix_digits.simps [of 256 v])
qed

context ton_cells
begin

lemma load_bytes_one:
  assumes "bits_left V p = bits_be 8 (unat x) @ r"
  shows "\<exists>q. load_bytes T (Suc n) p acc = load_bytes T n q (acc @ [x])
    \<and> bits_left V q = r \<and> refs_left V q = refs_left V p"
proof -
  obtain q where q: "load_uint T 8 p = (Inr (bits_val (bits_be 8 (unat x))), q)"
      "bits_left V q = r" "refs_left V q = refs_left V p"
    using uint_ok [OF assms] by auto
  obtain y ys where "to_bytes_be (unat x) = y # ys"
    using last_to_bytes_be(2) by (metis list.exhaust)
  moreover have "last (to_bytes_be (unat x)) = x"
    by (simp add: last_to_bytes_be)
  ultimately show ?thesis using q by auto
qed

lemma load_bytes_short:
  assumes "length (bits_left V p) < 8"
  shows "\<exists>q. load_bytes T n p acc = (acc, q) \<and> refs_left V q = refs_left V p"
proof (cases n)
  case (Suc k)
  then show ?thesis using uint_short [OF assms] by auto
qed auto

lemma load_bytes_all:
  "bits_left V p = bytes_bits bs \<Longrightarrow> length bs \<le> n \<Longrightarrow>
     \<exists>q. load_bytes T n p acc = (acc @ bs, q) \<and> refs_left V q = refs_left V p"
proof (induction bs arbitrary: n p acc)
  case Nil
  then show ?case using load_bytes_short [of p n acc] by simp
next
  case (Cons x bs)
  then obtain k where k: "n = Suc k" by (cases n) auto
  obtain q where q: "load_bytes T n p acc = load_bytes T k q (acc @ [x])"
      "bits_left V q = bytes_bits bs" "refs_left V q = refs_left V p"
    using load_bytes_one [of p x "bytes_bits bs" k acc] Cons.prems k by auto
  have "length bs \<le> k" using Cons.prems k by simp
  from Cons.IH [OF q(2) this, of "acc @ [x]"] obtain s where
    "load_bytes T k q (acc @ [x]) = ((acc @ [x]) @ bs, s)" "refs_left V s = refs_left V q"
    by auto
  with q show ?case by auto
qed

text \<open>A cell is read in at most \<open>n\<close> steps without losing a reference, whatever its bits.\<close>

lemma load_bytes_keeps_refs: "refs_left V (snd (load_bytes T n p acc)) = refs_left V p"
proof (induction n arbitrary: p acc)
  case (Suc n)
  show ?case
  proof (cases "length (bits_left V p) < 8")
    case True
    then show ?thesis using load_bytes_short [OF True, of "Suc n" acc] by auto
  next
    case False
    then obtain q where q: "load_uint T 8 p = (Inr (bits_val (take 8 (bits_left V p))), q)"
        "refs_left V q = refs_left V p"
      using uint_ok [of p "take 8 (bits_left V p)" "drop 8 (bits_left V p)" 8] by auto
    then show ?thesis by (simp add: Suc)
  qed
qed simp

lemma next_after_load:
  "(case fst (next_reference T (snd (load_bytes T n (cell_parser T c) acc))) of Inl _ \<Rightarrow> None | Inr d \<Rightarrow> Some d)
     = (case refs_of V c of [] \<Rightarrow> None | d # _ \<Rightarrow> Some d)"
proof -
  let ?p = "snd (load_bytes T n (cell_parser T c) acc)"
  have r: "refs_left V ?p = refs_of V c"
    by (simp add: load_bytes_keeps_refs parser_view)
  show ?thesis
  proof (cases "refs_of V c")
    case Nil
    then show ?thesis using reference_none [of ?p] r by auto
  next
    case (Cons d ds)
    then show ?thesis using reference_ok [of ?p d ds] r by auto
  qed
qed

lemma buffer_loop_total: "cell_depth T c < fuel \<Longrightarrow> \<exists>bs. buffer_loop T fuel (Some c) acc = Some bs"
proof (induction fuel arbitrary: c acc)
  case (Suc fuel)
  show ?case
  proof (cases "refs_of V c")
    case Nil
    then show ?thesis using next_after_load [of BYTES_PER_CELL c acc] by (simp add: case_prod_beta)
  next
    case (Cons d ds)
    then have "cell_depth T d < fuel" using depth_decreases [of d c] Suc.prems by simp
    with Suc.IH Cons next_after_load [of BYTES_PER_CELL c acc] show ?thesis
      by (simp add: case_prod_beta)
  qed
qed simp

lemma buffer_loop_holds:
  "holds_bytes V c bs \<Longrightarrow> cell_depth T c < fuel \<Longrightarrow> buffer_loop T fuel (Some c) acc = Some (acc @ bs)"
proof (induction arbitrary: fuel acc rule: holds_bytes.induct)
  case (last_cell c bs)
  then obtain k where k: "fuel = Suc k" by (cases fuel) auto
  have "fst (load_bytes T BYTES_PER_CELL (cell_parser T c) acc) = acc @ bs"
    using load_bytes_all [of "cell_parser T c" bs BYTES_PER_CELL acc] last_cell by (auto simp: parser_view)
  then show ?case
    using next_after_load [of BYTES_PER_CELL c acc] last_cell k by (simp add: case_prod_beta)
next
  case (more_cells c bs d ds cs)
  then obtain k where k: "fuel = Suc k" by (cases fuel) auto
  have f: "fst (load_bytes T BYTES_PER_CELL (cell_parser T c) acc) = acc @ bs"
    using load_bytes_all [of "cell_parser T c" bs BYTES_PER_CELL acc] more_cells by (auto simp: parser_view)
  have "cell_depth T d < k"
    using depth_decreases [of d c] more_cells k by simp
  then show ?case
    using next_after_load [of BYTES_PER_CELL c acc] more_cells k f by (simp add: case_prod_beta)
qed

lemma cell_to_buffer_total: "\<exists>bs. cell_to_buffer T c = Inr bs"
  using buffer_loop_total [of c "Suc (cell_depth T c)" "[]"] by (auto simp: cell_to_buffer_def)

lemma cell_to_buffer_holds: "holds_bytes V c bs \<Longrightarrow> cell_to_buffer T c = Inr bs"
  using buffer_loop_holds [of c bs "Suc (cell_depth T c)" "[]"] by (simp add: cell_to_buffer_def)

lemma store_bytes_ok:
  "length (bits_built V b) + 8 * length bs \<le> 1023 \<Longrightarrow>
     \<exists>b'. store_bytes T bs b = Inr b' \<and> bits_built V b' = bits_built V b @ bytes_bits bs
        \<and> refs_built V b' = refs_built V b"
proof (induction bs arbitrary: b)
  case (Cons x bs)
  have "unat x < 2 ^ 8" using unat_byte_less [of x] by simp
  with store_uint_ok [of "unat x" 8 b] Cons.prems obtain b' where
    "store_uint T 8 (unat x) b = Inr b'" "bits_built V b' = bits_built V b @ bits_be 8 (unat x)"
    "refs_built V b' = refs_built V b"
    by auto
  with Cons.IH [of b'] Cons.prems show ?case by auto
qed simp

lemma build_cell_chain_holds:
  "i \<le> length buf \<Longrightarrow> \<exists>c. build_cell_chain T i buf = Inr c \<and> holds_bytes V c (drop i buf)"
proof (induction "length buf - i" arbitrary: i rule: less_induct)
  case less
  define e where "e = min (i + BYTES_PER_CELL) (length buf)"
  define bs where "bs = take (e - i) (drop i buf)"
  have len: "length bs \<le> BYTES_PER_CELL" by (simp add: bs_def e_def)
  obtain b where b: "store_bytes T bs (new_builder T) = Inr b" "bits_built V b = bytes_bits bs" "refs_built V b = []"
    using store_bytes_ok [of "new_builder T" bs] len by (auto simp: builder_new BYTES_PER_CELL_def)
  show ?case
  proof (cases "e < length buf")
    case True
    then have e: "e = i + BYTES_PER_CELL" by (simp add: e_def min_def split: if_splits)
    with True have "length buf - e < length buf - i" by (simp add: BYTES_PER_CELL_def)
    then obtain d where d: "build_cell_chain T e buf = Inr d" "holds_bytes V d (drop e buf)"
      using less(1) [of e] True by (auto simp: less_imp_le)
    obtain b' where b': "store_reference T d b = Inr b'" "refs_built V b' = [d]" "bits_built V b' = bytes_bits bs"
      using store_reference_ok [of b d] b by auto
    obtain c where c: "build_cell T b' = Inr c" "bits_of V c = bytes_bits bs" "refs_of V c = [d]"
      using build_ok [of b'] b' len by (auto simp: BYTES_PER_CELL_def)
    have "drop i buf = bs @ drop e buf"
      by (metis append_take_drop_id bs_def drop_drop le_add_diff_inverse2 less.prems e le_add1)
    with c d(2) len have "holds_bytes V c (drop i buf)" by (metis more_cells)
    with True b b' c d show ?thesis
      by (subst build_cell_chain.simps) (simp add: Let_def flip: e_def bs_def)
  next
    case False
    then have "bs = drop i buf" by (simp add: bs_def e_def)
    moreover obtain c where c: "build_cell T b = Inr c" "bits_of V c = bytes_bits bs" "refs_of V c = []"
      using build_ok [of b] b len by (auto simp: BYTES_PER_CELL_def)
    ultimately have "holds_bytes V c (drop i buf)" using len by (metis last_cell)
    with False b c show ?thesis
      by (subst build_cell_chain.simps) (simp add: Let_def flip: e_def bs_def)
  qed
qed

lemma buffer_to_cell_holds: "\<exists>c. buffer_to_cell T buf = Inr c \<and> holds_bytes V c buf"
  using build_cell_chain_holds [of 0 buf] by (simp add: buffer_to_cell_def)

lemma cell_to_string_holds:
  "holds_bytes V c (as_bytes s) \<Longrightarrow> utf8_valid (as_bytes s) \<Longrightarrow> cell_to_string T c = Inr s"
  by (simp add: cell_to_string_def cell_to_buffer_holds from_utf8_as_bytes)

end


section \<open>Properties\<close>

text \<open>
  Claim C24: writing a byte string of any length into a chain of cells succeeds (each cell stays
  within 1023 bits and 4 references), reading the chain returns the same bytes, and reading it
  as a string succeeds exactly on well-formed UTF-8. The laws assumed of the library bound the
  size of a cell but not the depth of a chain.
\<close>

theorem buffer_cell_roundtrip:
  assumes "ton_cells T V"
  shows "\<exists>c. buffer_to_cell T buf = Inr c \<and> cell_to_buffer T c = Inr buf
    \<and> cell_to_string T c
        = (if utf8_valid buf then Inr (str_of_bytes buf) else Inl (BocParsingError ''invalid utf-8 sequence''))"
proof -
  obtain c where c: "buffer_to_cell T buf = Inr c" "holds_bytes V c buf"
    using ton_cells.buffer_to_cell_holds [OF assms] by blast
  then have "cell_to_buffer T c = Inr buf"
    by (intro ton_cells.cell_to_buffer_holds [OF assms])
  with c(1) show ?thesis by (simp add: cell_to_string_def from_utf8_def)
qed

lemma buffer_cell_roundtrip_witness:
  "\<exists>c. buffer_to_cell (tree_tonlib Inl) (replicate 200 65) = Inr c
     \<and> cell_to_buffer (tree_tonlib Inl) c = Inr (replicate 200 65)"
  using buffer_cell_roundtrip [OF tree.ton_cells_axioms, of Inl "replicate 200 65"] by blast

text \<open>
  reading a cell as bytes always ends with a byte string, whatever the cell holds and
  however long its chain of references is, and returns exactly the bytes of the chain where each
  of its cells holds at most 96 bytes.
\<close>

theorem cell_to_buffer_reads_chain:
  assumes "ton_cells T V"
  shows "(\<exists>bs. cell_to_buffer T c = Inr bs) \<and> (holds_bytes V c bs \<longrightarrow> cell_to_buffer T c = Inr bs)"
  using ton_cells.cell_to_buffer_total [OF assms] ton_cells.cell_to_buffer_holds [OF assms] by blast

lemma cell_to_buffer_reads_chain_witness:
  "cell_to_buffer (tree_tonlib Inl) (RCell (bytes_bits [1, 2]) [RCell (bytes_bits [3]) []]) = Inr [1, 2, 3]"
proof -
  have "holds_bytes tree_view (RCell (bytes_bits [3]) []) [3]"
    by (rule last_cell) (simp_all add: tree_view_def BYTES_PER_CELL_def)
  then have "holds_bytes tree_view (RCell (bytes_bits [1, 2]) [RCell (bytes_bits [3]) []]) ([1, 2] @ [3])"
    by (intro more_cells) (simp_all add: tree_view_def BYTES_PER_CELL_def)
  then show ?thesis
    using cell_to_buffer_reads_chain [OF tree.ton_cells_axioms, of Inl] by simp
qed

end
