(* ===== verification/Boc_Messages.thy ===== *)
theory Boc_Messages
  imports Cell_Codec
begin

text \<open>
  The message types of \<open>src/src/boc/\<close>: for each its struct and its decoder or encoder, in the
  order of the reads of the code. A decoder threads the state of the cell parser; a failed read
  is a \<open>BocParsingError\<close>. \<open>src/src/hashing.rs\<close> and the op codes of
  \<open>src/src/ton_constants.rs\<close> are here too. The lemmas on the reads are proved once in the
  context of \<open>ton_cells\<close>; the properties say what a decoder returns on a cell that has the
  layout of the contracts, and what cells the encoders build.
\<close>

section \<open>Op codes and send modes\<close>

definition OP_APPROVE_MESSAGES :: u32 where "OP_APPROVE_MESSAGES = 0x00000028"
definition OP_MESSAGE_APPROVED :: u32 where "OP_MESSAGE_APPROVED = 0x0000000D"
definition OP_NULLIFIED_SUCCESSFULLY :: u32 where "OP_NULLIFIED_SUCCESSFULLY = 0x00000005"
definition OP_MESSAGE_APPROVE :: u32 where "OP_MESSAGE_APPROVE = 0x00000007"
definition OP_NULLIFY_IF_APPROVED :: u32 where "OP_NULLIFY_IF_APPROVED = 0x00000004"
definition OP_RELAYER_EXECUTE :: u32 where "OP_RELAYER_EXECUTE = 0x00000008"
definition OP_GATEWAY_EXECUTE :: u32 where "OP_GATEWAY_EXECUTE = 0x0000000C"
definition OP_CALL_CONTRACT :: u32 where "OP_CALL_CONTRACT = 0x00000009"
definition OP_PAY_GAS :: u32 where "OP_PAY_GAS = 0x00000045"
definition OP_PAY_NATIVE_GAS_FOR_CONTRACT_CALL :: u32 where "OP_PAY_NATIVE_GAS_FOR_CONTRACT_CALL = 0x0000001F"
definition OP_ADD_NATIVE_GAS :: u32 where "OP_ADD_NATIVE_GAS = 0x00000036"
definition OP_NATIVE_REFUND :: u32 where "OP_NATIVE_REFUND = 0x00000046"
definition OP_REFUND :: u32 where "OP_REFUND = 0x00000018"
definition OP_TRANSFER_NOTIFICATION :: u32 where "OP_TRANSFER_NOTIFICATION = 0x7362d09c"
definition OP_TOKEN_METADATA_REGISTERED_LOG :: u32 where "OP_TOKEN_METADATA_REGISTERED_LOG = 0x00000104"
definition OP_REGISTER_TOKEN_METADATA :: u32 where "OP_REGISTER_TOKEN_METADATA = 0x00000101"
definition OP_LINK_TOKEN_STARTED_LOG :: u32 where "OP_LINK_TOKEN_STARTED_LOG = 0x00000105"
definition OP_INTERCHAIN_TOKEN_DEPLOYMENT_STARTED_LOG :: u32 where
  "OP_INTERCHAIN_TOKEN_DEPLOYMENT_STARTED_LOG = 0x00000107"
definition OP_INTERCHAIN_TRANSFER_LOG :: u32 where "OP_INTERCHAIN_TRANSFER_LOG = 0x00000110"
definition OP_SIGNERS_ROTATED_LOG :: u32 where "OP_SIGNERS_ROTATED_LOG = 0x0000002A"
definition EXIT_CODE_INSUFFICIENT_GAS :: u32 where "EXIT_CODE_INSUFFICIENT_GAS = 106"
definition SEND_MODE_IGNORE_ERRORS :: u8 where "SEND_MODE_IGNORE_ERRORS = 2"
definition REFUND_DUST :: u32 where "REFUND_DUST = 10000000"
definition WORKCHAIN :: i32 where "WORKCHAIN = 0"

lemmas op_codes = OP_APPROVE_MESSAGES_def OP_MESSAGE_APPROVED_def OP_NULLIFIED_SUCCESSFULLY_def
  OP_MESSAGE_APPROVE_def OP_NULLIFY_IF_APPROVED_def OP_RELAYER_EXECUTE_def OP_GATEWAY_EXECUTE_def
  OP_CALL_CONTRACT_def OP_PAY_GAS_def OP_PAY_NATIVE_GAS_FOR_CONTRACT_CALL_def OP_ADD_NATIVE_GAS_def
  OP_NATIVE_REFUND_def OP_REFUND_def OP_TRANSFER_NOTIFICATION_def OP_TOKEN_METADATA_REGISTERED_LOG_def
  OP_REGISTER_TOKEN_METADATA_def OP_LINK_TOKEN_STARTED_LOG_def OP_INTERCHAIN_TOKEN_DEPLOYMENT_STARTED_LOG_def
  OP_INTERCHAIN_TRANSFER_LOG_def OP_SIGNERS_ROTATED_LOG_def

section \<open>Formatting\<close>

text \<open>\<open>{:08X}\<close>, and the \<open>Display\<close> of \<open>BocError\<close>.\<close>

definition upper_hex_char :: "char \<Rightarrow> char" where
  "upper_hex_char c = (if 97 \<le> (of_char c :: nat) then char_of (of_char c - 32 :: nat) else c)"

definition fmt_08X :: "u32 \<Rightarrow> string" where
  "fmt_08X w =
     (let s = map upper_hex_char (to_str_radix 16 (unat w)) in replicate (8 - length s) (CHR ''0'') @ s)"

definition fmt_debug_str :: "string \<Rightarrow> string" where
  "fmt_debug_str s = [char_of (34 :: nat)] @ s @ [char_of (34 :: nat)]"

definition boc_error_to_string :: "boc_error \<Rightarrow> string" where
  "boc_error_to_string e =
     (case e of
        BocEncodingError s \<Rightarrow> ''BocEncodingError: '' @ s
      | BocParsingError s \<Rightarrow> ''BocParsingError: '' @ s
      | InvalidOpCode s \<Rightarrow> ''Invalid Op Code: '' @ s)"

section \<open>Hashing\<close>

definition payload_hash :: "crates \<Rightarrow> byte list \<Rightarrow> nat" where
  "payload_hash X payload = from_bytes_be (keccak256 X payload)"

section \<open>Reads\<close>

text \<open>
  The recurring steps of the decoders: \<open>f(\<dots>).map_err(|err| BocParsingError(err.to_string()))?\<close>
  on the parser, with the bytes, string or address of the next reference, the 32-byte arrays
  and the op-code check.
\<close>

definition boc_read :: "('p \<Rightarrow> (string + 'a) \<times> 'p) \<Rightarrow> 'p \<Rightarrow> boc_error + 'a \<times> 'p" where
  "boc_read f p = (let (r, q) = f p in map_ok (\<lambda>a. (a, q)) (map_err BocParsingError r))"

definition open_boc_b64 :: "('c, 'p, 'b) tonlib \<Rightarrow> string \<Rightarrow> boc_error + 'p" where
  "open_boc_b64 T boc = map_ok (cell_parser T) (map_err BocParsingError (from_boc_b64 T boc))"

definition array32 :: "string \<Rightarrow> byte list \<Rightarrow> boc_error + byte list" where
  "array32 msg bs = (if length bs = 32 then Inr bs else Inl (BocParsingError msg))"

definition read_array32 :: "('c, 'p, 'b) tonlib \<Rightarrow> string \<Rightarrow> 'p \<Rightarrow> boc_error + byte list \<times> 'p" where
  "read_array32 T msg p =
     and_then (boc_read (load_bits T 256) p) (\<lambda>(bs, q). and_then (array32 msg bs) (\<lambda>h. Inr (h, q)))"

definition ref_string :: "('c, 'p, 'b) tonlib \<Rightarrow> 'p \<Rightarrow> boc_error + string \<times> 'p" where
  "ref_string T p =
     and_then (boc_read (next_reference T) p) (\<lambda>(c, q). and_then (cell_to_string T c) (\<lambda>s. Inr (s, q)))"

definition ref_buffer :: "('c, 'p, 'b) tonlib \<Rightarrow> 'p \<Rightarrow> boc_error + byte list \<times> 'p" where
  "ref_buffer T p =
     and_then (boc_read (next_reference T) p) (\<lambda>(c, q). and_then (cell_to_buffer T c) (\<lambda>s. Inr (s, q)))"

definition ref_parser :: "('c, 'p, 'b) tonlib \<Rightarrow> 'p \<Rightarrow> boc_error + 'p \<times> 'p" where
  "ref_parser T p = and_then (boc_read (next_reference T) p) (\<lambda>(c, q). Inr (cell_parser T c, q))"

definition ref_address :: "('c, 'p, 'b) tonlib \<Rightarrow> 'p \<Rightarrow> boc_error + ton_address \<times> 'p" where
  "ref_address T p =
     and_then (ref_parser T p) (\<lambda>(inner_parser, q).
     and_then (boc_read (load_address T) inner_parser) (\<lambda>(a, _). Inr (a, q)))"

definition check_op_code :: "crates \<Rightarrow> ('c, 'p, 'b) tonlib \<Rightarrow> u32 \<Rightarrow> 'p \<Rightarrow> boc_error + unit \<times> 'p" where
  "check_op_code X T op p =
     and_then (boc_read (load_bits T 32) p) (\<lambda>(op_code, q).
     if compare_op_code op op_code then Inr ((), q)
     else Inl (InvalidOpCode (''Expected '' @ fmt_08X op @ '', got '' @ hex_encode X op_code)))"

section \<open>Gateway messages\<close>

subsection \<open>cc\_message.rs\<close>

record ton_cc_message =
  cc_message_id :: string
  cc_destination_address :: string
  cc_destination_chain :: string
  cc_source_address :: string
  cc_source_chain :: string
  cc_log_event :: string
  cc_payload_hash :: "byte list"

definition cc_message_from_boc_b64 ::
    "crates \<Rightarrow> ('c, 'p, 'b) tonlib \<Rightarrow> string \<Rightarrow> boc_error + ton_cc_message" where
  "cc_message_from_boc_b64 X T boc_b64 =
     and_then (open_boc_b64 T boc_b64) (\<lambda>p.
     and_then (ref_string T p) (\<lambda>(message_id, p).
     and_then (ref_string T p) (\<lambda>(source_chain, p).
     and_then (ref_string T p) (\<lambda>(source_address, p).
     and_then (ref_parser T p) (\<lambda>(inner, p).
     and_then (read_array32 T ''Invalid payload hash length'' inner) (\<lambda>(hash, inner).
     and_then (ref_buffer T inner) (\<lambda>(destination_address, inner).
     and_then (array32 ''Invalid hash length'' destination_address) (\<lambda>hash_part.
     let ton_address = TonAddress WORKCHAIN hash_part in
     and_then (ref_string T inner) (\<lambda>(destination_chain, inner).
     Inr \<lparr>cc_message_id = message_id, cc_destination_address = address_to_hex X ton_address,
          cc_destination_chain = destination_chain, cc_source_address = source_address,
          cc_source_chain = source_chain, cc_log_event = [], cc_payload_hash = hash\<rparr>)))))))))"

subsection \<open>call\_contract.rs\<close>

record call_contract_message =
  ccm_destination_chain :: string
  ccm_destination_address :: string
  ccm_payload :: string
  ccm_source_address :: ton_address
  ccm_payload_hash :: "byte list"

definition call_contract_from_boc_b64 ::
    "crates \<Rightarrow> ('c, 'p, 'b) tonlib \<Rightarrow> string \<Rightarrow> boc_error + call_contract_message" where
  "call_contract_from_boc_b64 X T boc =
     and_then (open_boc_b64 T boc) (\<lambda>p.
     and_then (ref_string T p) (\<lambda>(destination_chain, p).
     and_then (ref_string T p) (\<lambda>(destination_address, p).
     and_then (ref_buffer T p) (\<lambda>(payload, p).
     and_then (boc_read (load_address T) p) (\<lambda>(source_address, p).
     and_then (read_array32 T ''Invalid payload hash length'' p) (\<lambda>(hash, p).
     Inr \<lparr>ccm_destination_chain = destination_chain, ccm_destination_address = destination_address,
          ccm_payload = hex_encode X payload, ccm_source_address = source_address,
          ccm_payload_hash = hash\<rparr>))))))"

subsection \<open>approve\_message.rs\<close>

record approve_message =
  am_message_id :: string
  am_source_chain :: string
  am_source_address :: string
  am_destination_chain :: string
  am_destination_address :: "byte list"
  am_payload_hash :: nat

definition parse_approve_messages :: "('c, 'p, 'b) tonlib \<Rightarrow> 'c \<Rightarrow> boc_error + approve_message" where
  "parse_approve_messages T cell =
     and_then (boc_read (load_uint T 256) (cell_parser T cell)) (\<lambda>(hash, p).
     and_then (ref_string T p) (\<lambda>(message_id, p).
     and_then (ref_string T p) (\<lambda>(source_chain, p).
     and_then (ref_string T p) (\<lambda>(source_address, p).
     and_then (ref_parser T p) (\<lambda>(inner, p).
     and_then (ref_buffer T inner) (\<lambda>(destination_address, inner).
     and_then (ref_string T inner) (\<lambda>(destination_chain, inner).
     Inr \<lparr>am_message_id = message_id, am_source_chain = source_chain, am_source_address = source_address,
          am_destination_chain = destination_chain, am_destination_address = destination_address,
          am_payload_hash = hash\<rparr>)))))))"

text \<open>The decoded messages and the cell of the proof.\<close>

definition approve_messages_from_boc_hex ::
    "crates \<Rightarrow> ('c, 'p, 'b) tonlib \<Rightarrow> string \<Rightarrow> boc_error + approve_message list \<times> 'c" where
  "approve_messages_from_boc_hex X T boc =
     and_then (map_err BocParsingError (from_boc_hex T boc)) (\<lambda>cell.
     and_then (check_op_code X T OP_APPROVE_MESSAGES (cell_parser T cell)) (\<lambda>(_, p).
     and_then (boc_read (next_reference T) p) (\<lambda>(proof_cell, p).
     and_then (ref_parser T p) (\<lambda>(messages_parser, p).
     and_then (boc_read (load_dict T 16) messages_parser) (\<lambda>(data, _).
     and_then
       (try_map (\<lambda>(_, cell).
          and_then (map_err BocParsingError (arc_from_cell T cell)) (parse_approve_messages T)) data)
       (\<lambda>approve_messages. Inr (approve_messages, proof_cell)))))))"

subsection \<open>nullified\_message.rs\<close>

record nullified_message =
  nm_message_id :: string
  nm_source_chain :: string
  nm_source_address :: string
  nm_destination_chain :: string
  nm_destination_address :: "byte list"
  nm_payload :: string

definition nullified_from_boc_b64 ::
    "crates \<Rightarrow> ('c, 'p, 'b) tonlib \<Rightarrow> string \<Rightarrow> boc_error + nullified_message" where
  "nullified_from_boc_b64 X T boc =
     and_then (open_boc_b64 T boc) (\<lambda>p.
     and_then (boc_read (load_bits T 32) p) (\<lambda>(op_code, p).
     if hex_encode X op_code \<noteq> fmt_08X OP_NULLIFIED_SUCCESSFULLY
     then Inl (InvalidOpCode (''Expected '' @ nat_to_string (unat OP_NULLIFIED_SUCCESSFULLY)
                @ '', got '' @ fmt_debug_str (hex_encode X op_code)))
     else
     and_then (ref_string T p) (\<lambda>(message_id, p).
     and_then (ref_string T p) (\<lambda>(source_chain, p).
     and_then (ref_string T p) (\<lambda>(source_address, p).
     and_then (ref_parser T p) (\<lambda>(inner, p).
     and_then (ref_buffer T inner) (\<lambda>(payload, inner).
     and_then (ref_buffer T inner) (\<lambda>(destination_address, inner).
     and_then (ref_string T inner) (\<lambda>(destination_chain, inner).
     Inr \<lparr>nm_message_id = message_id, nm_source_chain = source_chain, nm_source_address = source_address,
          nm_destination_chain = destination_chain, nm_destination_address = destination_address,
          nm_payload = hex_encode X payload\<rparr>)))))))))"

subsection \<open>relayer\_execute\_wrapped.rs\<close>

record relayer_execute_wrapped_message =
  rew_message_id :: string
  rew_source_chain :: string

definition relayer_execute_wrapped_from_boc_b64 ::
    "('c, 'p, 'b) tonlib \<Rightarrow> string \<Rightarrow> boc_error + relayer_execute_wrapped_message" where
  "relayer_execute_wrapped_from_boc_b64 T boc =
     and_then (open_boc_b64 T boc) (\<lambda>outer_parser.
     and_then (ref_parser T outer_parser) (\<lambda>(p, _).
     and_then (boc_read (next_reference T) p) (\<lambda>(_, p).
     and_then (ref_parser T p) (\<lambda>(p, _).
     and_then (ref_parser T p) (\<lambda>(p, _).
     and_then (ref_parser T p) (\<lambda>(p, _).
     and_then (boc_read (next_reference T) p) (\<lambda>(c, p).
     and_then (map_err (\<lambda>e. BocParsingError (boc_error_to_string e)) (cell_to_string T c)) (\<lambda>message_id.
     and_then (boc_read (next_reference T) p) (\<lambda>(c, p).
     and_then (map_err (\<lambda>e. BocParsingError (boc_error_to_string e)) (cell_to_string T c)) (\<lambda>source_chain.
     Inr \<lparr>rew_message_id = message_id, rew_source_chain = source_chain\<rparr>))))))))))"

subsection \<open>signers\_rotated.rs\<close>

record log_signers_rotated_message =
  sr_signers_hash :: string
  sr_epoch :: u64

definition signers_rotated_from_boc_b64 ::
    "crates \<Rightarrow> ('c, 'p, 'b) tonlib \<Rightarrow> string \<Rightarrow> boc_error + log_signers_rotated_message" where
  "signers_rotated_from_boc_b64 X T boc_b64 =
     and_then (open_boc_b64 T boc_b64) (\<lambda>p.
     and_then (check_op_code X T OP_SIGNERS_ROTATED_LOG p) (\<lambda>(_, p).
     and_then (boc_read (next_reference T) p) (\<lambda>(_, p).
     and_then (boc_read (load_uint T 256) p) (\<lambda>(signers_hash, p).
     and_then (boc_read (load_uint T 256) p) (\<lambda>(epoch, p).
     and_then
       (if epoch < 2 ^ 64 then Inr (word_of_nat epoch)
        else Inl (BocParsingError ''out of range conversion regarding big integer attempted''))
       (\<lambda>epoch.
     Inr \<lparr>sr_signers_hash = ''0x'' @ hex_encode X (to_bytes_be signers_hash), sr_epoch = epoch\<rparr>))))))"


section \<open>Gas service messages\<close>

subsection \<open>native\_gas\_paid.rs, native\_gas\_added.rs, native\_gas\_refunded.rs\<close>

record native_gas_paid_message =
  ngp_sender :: ton_address
  ngp_payload_hash :: "byte list"
  ngp_msg_value :: nat
  ngp_refund_address :: ton_address
  ngp_destination_chain :: string
  ngp_destination_address :: string

definition native_gas_paid_from_boc_b64 :: "('c, 'p, 'b) tonlib \<Rightarrow> string \<Rightarrow> boc_error + native_gas_paid_message" where
  "native_gas_paid_from_boc_b64 T boc_b64 =
     and_then (open_boc_b64 T boc_b64) (\<lambda>p.
     and_then (boc_read (load_address T) p) (\<lambda>(sender, p).
     and_then (read_array32 T ''Invalid payload hash length'' p) (\<lambda>(hash, p).
     and_then (read_array32 T ''Invalid msg_value hash length'' p) (\<lambda>(msg_value, p).
     and_then (ref_address T p) (\<lambda>(refund_address, p).
     and_then (ref_string T p) (\<lambda>(destination_chain, p).
     and_then (ref_string T p) (\<lambda>(destination_address, p).
     Inr \<lparr>ngp_sender = sender, ngp_payload_hash = hash, ngp_msg_value = from_bytes_be msg_value,
          ngp_refund_address = refund_address, ngp_destination_chain = destination_chain,
          ngp_destination_address = destination_address\<rparr>)))))))"

record native_gas_added_message =
  nga_tx_hash :: "byte list"
  nga_refund_address :: ton_address
  nga_msg_value :: nat

definition native_gas_added_from_boc_b64 :: "('c, 'p, 'b) tonlib \<Rightarrow> string \<Rightarrow> boc_error + native_gas_added_message" where
  "native_gas_added_from_boc_b64 T boc =
     and_then (open_boc_b64 T boc) (\<lambda>p.
     and_then (read_array32 T ''Invalid tx_hash hash length'' p) (\<lambda>(tx_hash, p).
     and_then (boc_read (load_address T) p) (\<lambda>(refund_address, p).
     and_then (read_array32 T ''Invalid msg_value hash length'' p) (\<lambda>(msg_value, p).
     Inr \<lparr>nga_tx_hash = tx_hash, nga_refund_address = refund_address,
          nga_msg_value = from_bytes_be msg_value\<rparr>))))"

record native_gas_refunded_message =
  ngr_tx_hash :: "byte list"
  ngr_address :: ton_address
  ngr_amount :: nat

definition native_gas_refunded_from_boc_b64 ::
    "('c, 'p, 'b) tonlib \<Rightarrow> string \<Rightarrow> boc_error + native_gas_refunded_message" where
  "native_gas_refunded_from_boc_b64 T boc_b64 =
     and_then (open_boc_b64 T boc_b64) (\<lambda>p.
     and_then (boc_read (load_tonhash T) p) (\<lambda>(tx_hash, p).
     and_then (boc_read (load_address T) p) (\<lambda>(address, p).
     and_then (boc_read (load_coins T) p) (\<lambda>(amount, p).
     Inr \<lparr>ngr_tx_hash = tx_hash, ngr_address = address, ngr_amount = amount\<rparr>))))"

subsection \<open>jetton\_gas\_paid.rs, jetton\_gas\_added.rs\<close>

record jetton_gas_paid_message =
  jgp_minter :: ton_address
  jgp_payload_hash :: "byte list"
  jgp_amount :: nat
  jgp_refund_address :: ton_address
  jgp_destination_chain :: string
  jgp_destination_address :: string

definition jetton_gas_paid_from_boc_b64 :: "('c, 'p, 'b) tonlib \<Rightarrow> string \<Rightarrow> boc_error + jetton_gas_paid_message" where
  "jetton_gas_paid_from_boc_b64 T boc_b64 =
     and_then (open_boc_b64 T boc_b64) (\<lambda>p.
     and_then (boc_read (load_address T) p) (\<lambda>(minter, p).
     and_then (boc_read (load_coins T) p) (\<lambda>(amount, p).
     and_then (read_array32 T ''Invalid payload hash length'' p) (\<lambda>(hash, p).
     and_then (ref_address T p) (\<lambda>(refund_address, p).
     and_then (ref_string T p) (\<lambda>(destination_chain, p).
     and_then (ref_string T p) (\<lambda>(destination_address, p).
     Inr \<lparr>jgp_minter = minter, jgp_payload_hash = hash, jgp_amount = amount,
          jgp_refund_address = refund_address, jgp_destination_chain = destination_chain,
          jgp_destination_address = destination_address\<rparr>)))))))"

record jetton_gas_added_message =
  jga_minter :: ton_address
  jga_sender :: ton_address
  jga_tx_hash :: "byte list"
  jga_amount :: nat
  jga_refund_address :: ton_address

definition jetton_gas_added_from_boc_b64 :: "('c, 'p, 'b) tonlib \<Rightarrow> string \<Rightarrow> boc_error + jetton_gas_added_message" where
  "jetton_gas_added_from_boc_b64 T boc_b64 =
     and_then (open_boc_b64 T boc_b64) (\<lambda>p.
     and_then (boc_read (load_address T) p) (\<lambda>(minter, p).
     and_then (boc_read (load_address T) p) (\<lambda>(sender, p).
     and_then (boc_read (load_coins T) p) (\<lambda>(amount, p).
     and_then (read_array32 T ''Invalid tx_hash hash length'' p) (\<lambda>(tx_hash, p).
     and_then (ref_address T p) (\<lambda>(refund_address, p).
     Inr \<lparr>jga_minter = minter, jga_sender = sender, jga_tx_hash = tx_hash, jga_amount = amount,
          jga_refund_address = refund_address\<rparr>))))))"

section \<open>Token service messages\<close>

text \<open>\<open>relayer_core\<close>'s enumeration of token managers.\<close>

datatype token_manager_type = NativeInterchainToken | MintBurnFrom | LockUnlock | LockUnlockFee | MintBurn

text \<open>\<open>TonAddress::from_str(&format!("0:{}", n.to_str_radix(16)))\<close>\<close>

definition address_of_uint :: "crates \<Rightarrow> nat \<Rightarrow> boc_error + ton_address" where
  "address_of_uint X n = map_err BocParsingError (address_from_str X (''0:'' @ to_str_radix 16 n))"

subsection \<open>its\_interchain\_transfer.rs\<close>

record its_interchain_transfer_message =
  it_token_id :: nat
  it_sender_address :: ton_address
  it_destination_chain :: string
  it_destination_address :: string
  it_jetton_amount :: nat
  it_data :: "byte list"

definition its_interchain_transfer_from_boc_b64 ::
    "crates \<Rightarrow> ('c, 'p, 'b) tonlib \<Rightarrow> string \<Rightarrow> boc_error + its_interchain_transfer_message" where
  "its_interchain_transfer_from_boc_b64 X T boc_b64 =
     and_then (open_boc_b64 T boc_b64) (\<lambda>p.
     and_then (check_op_code X T OP_INTERCHAIN_TRANSFER_LOG p) (\<lambda>(_, p).
     and_then (boc_read (load_uint T 256) p) (\<lambda>(token_id, p).
     and_then (ref_parser T p) (\<lambda>(inner, p).
     and_then (boc_read (load_uint T 256) inner) (\<lambda>(sender_address, _).
     and_then (address_of_uint X sender_address) (\<lambda>sender_address.
     and_then (ref_string T p) (\<lambda>(destination_chain, p).
     and_then (ref_buffer T p) (\<lambda>(destination_address, p).
     and_then (boc_read (load_uint T 256) p) (\<lambda>(jetton_amount, p).
     and_then (boc_read (next_reference T) p) (\<lambda>(data, p).
     Inr \<lparr>it_token_id = token_id, it_sender_address = sender_address,
          it_destination_chain = destination_chain,
          it_destination_address = ''0x'' @ hex_encode X destination_address,
          it_jetton_amount = jetton_amount, it_data = cell_data T data\<rparr>))))))))))"

subsection \<open>its\_interchain\_token\_deployment\_started.rs\<close>

record its_deployment_started_message =
  ds_destination_chain :: string
  ds_token_id :: nat
  ds_token_name :: string
  ds_token_symbol :: string
  ds_decimals :: u8

text \<open>The address in the minter cell is read and its result dropped.\<close>

definition its_deployment_started_from_boc_b64 ::
    "crates \<Rightarrow> ('c, 'p, 'b) tonlib \<Rightarrow> string \<Rightarrow> boc_error + its_deployment_started_message" where
  "its_deployment_started_from_boc_b64 X T boc_b64 =
     and_then (open_boc_b64 T boc_b64) (\<lambda>p.
     and_then (check_op_code X T OP_INTERCHAIN_TOKEN_DEPLOYMENT_STARTED_LOG p) (\<lambda>(_, p).
     and_then (boc_read (load_uint T 256) p) (\<lambda>(token_id, p).
     and_then (ref_string T p) (\<lambda>(token_name, p).
     and_then (ref_string T p) (\<lambda>(token_symbol, p).
     and_then (boc_read (load_u8 T 8) p) (\<lambda>(decimals, p).
     and_then (boc_read (next_reference T) p) (\<lambda>(_, p).
     and_then (ref_string T p) (\<lambda>(destination_chain, p).
     Inr \<lparr>ds_destination_chain = destination_chain, ds_token_id = token_id, ds_token_name = token_name,
          ds_token_symbol = token_symbol, ds_decimals = decimals\<rparr>))))))))"

subsection \<open>its\_link\_token\_started.rs\<close>

record its_link_token_started_message =
  lt_token_id :: nat
  lt_destination_chain :: string
  lt_source_token_address :: ton_address
  lt_destination_token_address :: string
  lt_token_manager_type :: token_manager_type

definition token_manager_type_of :: "u8 \<Rightarrow> boc_error + token_manager_type" where
  "token_manager_type_of t =
     (if t = 0 then Inr NativeInterchainToken
      else if t = 1 then Inr MintBurnFrom
      else if t = 2 then Inr LockUnlock
      else if t = 3 then Inr LockUnlockFee
      else if t = 4 then Inr MintBurn
      else Inl (BocParsingError (''Invalid token manager type '' @ nat_to_string (unat t))))"

definition its_link_token_started_from_boc_b64 ::
    "crates \<Rightarrow> ('c, 'p, 'b) tonlib \<Rightarrow> string \<Rightarrow> boc_error + its_link_token_started_message" where
  "its_link_token_started_from_boc_b64 X T boc_b64 =
     and_then (open_boc_b64 T boc_b64) (\<lambda>p.
     and_then (check_op_code X T OP_LINK_TOKEN_STARTED_LOG p) (\<lambda>(_, p).
     and_then (boc_read (load_uint T 256) p) (\<lambda>(token_id, p).
     and_then (ref_string T p) (\<lambda>(destination_chain, p).
     and_then (ref_parser T p) (\<lambda>(inner, p).
     and_then (boc_read (load_uint T 256) inner) (\<lambda>(source_token_address, _).
     and_then (address_of_uint X source_token_address) (\<lambda>source_token_address.
     and_then (ref_buffer T p) (\<lambda>(destination_token_address, p).
     and_then (boc_read (load_u8 T 8) p) (\<lambda>(manager_type, p).
     and_then (token_manager_type_of manager_type) (\<lambda>manager_type.
     Inr \<lparr>lt_token_id = token_id, lt_destination_chain = destination_chain,
          lt_source_token_address = source_token_address,
          lt_destination_token_address = ''0x'' @ hex_encode X destination_token_address,
          lt_token_manager_type = manager_type\<rparr>))))))))))"

subsection \<open>its\_token\_metadata\_registered.rs\<close>

record token_metadata_registered_message =
  tm_address :: ton_address
  tm_decimals :: u8

definition token_metadata_registered_from_boc_b64 ::
    "crates \<Rightarrow> ('c, 'p, 'b) tonlib \<Rightarrow> string \<Rightarrow> boc_error + token_metadata_registered_message" where
  "token_metadata_registered_from_boc_b64 X T boc_b64 =
     and_then (open_boc_b64 T boc_b64) (\<lambda>p.
     and_then (check_op_code X T OP_TOKEN_METADATA_REGISTERED_LOG p) (\<lambda>(_, p).
     and_then (boc_read (load_address T) p) (\<lambda>(address, p).
     and_then (boc_read (load_i16 T 8) p) (\<lambda>(decimals, p).
     Inr \<lparr>tm_address = address, tm_decimals = ucast decimals\<rparr>))))"

section \<open>Encoders\<close>

subsection \<open>native\_refund.rs\<close>

record native_refund_message =
  nr_tx_hash :: "byte list"
  nr_address :: ton_address
  nr_amount :: nat

definition native_refund_to_cell :: "('c, 'p, 'b) tonlib \<Rightarrow> native_refund_message \<Rightarrow> boc_error + 'c" where
  "native_refund_to_cell T m =
     map_err BocEncodingError
       (and_then (store_uint T 32 (unat OP_NATIVE_REFUND) (new_builder T)) (\<lambda>b.
        and_then (store_tonhash T (nr_tx_hash m) b) (\<lambda>b.
        and_then (store_address T (nr_address m) b) (\<lambda>b.
        and_then (store_coins T (nr_amount m) b) (\<lambda>b.
        build_cell T b)))))"

subsection \<open>relayer\_execute\_message.rs\<close>

record relayer_execute_message =
  rem_message_id :: string
  rem_source_chain :: string
  rem_source_address :: string
  rem_destination_chain :: string
  rem_destination_address :: ton_address
  rem_payload :: string
  rem_relayer_address :: ton_address

fun store_references :: "('c, 'p, 'b) tonlib \<Rightarrow> 'c list \<Rightarrow> 'b \<Rightarrow> boc_error + 'b" where
  "store_references T [] b = Inr b"
| "store_references T (c # cs) b =
     and_then (map_err BocEncodingError (store_reference T c b)) (store_references T cs)"

definition relayer_execute_to_cell ::
    "crates \<Rightarrow> ('c, 'p, 'b) tonlib \<Rightarrow> relayer_execute_message \<Rightarrow> boc_error + 'c" where
  "relayer_execute_to_cell X T m =
     and_then (buffer_to_cell T (as_bytes (rem_message_id m))) (\<lambda>message_id.
     and_then (buffer_to_cell T (as_bytes (rem_source_chain m))) (\<lambda>source_chain.
     and_then (buffer_to_cell T (as_bytes (rem_source_address m))) (\<lambda>source_address.
     and_then (buffer_to_cell T (as_bytes (rem_destination_chain m))) (\<lambda>destination_chain.
     and_then (buffer_to_cell T (hash_part (rem_destination_address m))) (\<lambda>destination_address.
     and_then (map_err (\<lambda>e. BocParsingError (''Invalid hex payload: '' @ e)) (hex_decode X (rem_payload m)))
       (\<lambda>payload_bytes.
     and_then (buffer_to_cell T payload_bytes) (\<lambda>payload.
     and_then (store_references T [payload, destination_address, destination_chain] (new_builder T)) (\<lambda>b.
     and_then (map_err BocEncodingError (store_uint T 256 (payload_hash X payload_bytes) b)) (\<lambda>b.
     and_then (map_err BocParsingError (build_cell T b)) (\<lambda>inner.
     and_then (store_references T [message_id, source_chain, source_address, inner] (new_builder T)) (\<lambda>b.
     and_then (map_err BocEncodingError (build_cell T b)) (\<lambda>message.
     map_err BocEncodingError
       (and_then (store_uint T 32 (unat OP_RELAYER_EXECUTE) (new_builder T)) (\<lambda>b.
        and_then (store_reference T message b) (\<lambda>b.
        and_then (store_address T (rem_relayer_address m) b) (\<lambda>b.
        build_cell T b))))))))))))))))"


section \<open>Bits and bytes\<close>

lemma bits_be_bits_val: "length bs = n \<Longrightarrow> bits_be n (bits_val bs) = bs"
proof (induction bs arbitrary: n rule: rev_induct)
  case (snoc b bs)
  then show ?case by (cases n) (auto simp: bits_be_Suc)
qed simp

lemma bits_val_inject: "length as = length bs \<Longrightarrow> bits_val as = bits_val bs \<Longrightarrow> as = bs"
  by (metis bits_be_bits_val)

lemma bits_val_append: "bits_val (as @ bs) = bits_val as * 2 ^ length bs + bits_val bs"
  by (induction bs rule: rev_induct) (auto simp: append_assoc [symmetric] simp del: append_assoc)

lemma from_bytes_be_snoc [simp]: "from_bytes_be (bs @ [b]) = 256 * from_bytes_be bs + unat b"
  by (simp add: from_bytes_be_def)

lemma bits_val_bytes_bits: "bits_val (bytes_bits bs) = from_bytes_be bs"
proof (induction bs rule: rev_induct)
  case Nil
  then show ?case by (simp add: from_bytes_be_def)
next
  case (snoc b bs)
  then show ?case by (simp add: bits_val_append mult.commute)
qed

lemma from_bytes_be_less: "from_bytes_be bs < 2 ^ (8 * length bs)"
  using bits_val_less [of "bytes_bits bs"] by (simp add: bits_val_bytes_bits)

lemma bytes_bits_surj: "length bs = 8 * k \<Longrightarrow> \<exists>bytes. bs = bytes_bits bytes \<and> length bytes = k"
proof (induction k arbitrary: bs)
  case (Suc k)
  have "length (drop 8 bs) = 8 * k" using Suc.prems by simp
  from Suc.IH [OF this] obtain bytes where b: "drop 8 bs = bytes_bits bytes" "length bytes = k" by blast
  define x :: byte where "x = word_of_nat (bits_val (take 8 bs))"
  have "bits_val (take 8 bs) < 2 ^ 8"
    using bits_val_less [of "take 8 bs"] Suc.prems by (simp add: min_def split: if_splits)
  then have "unat x = bits_val (take 8 bs)" by (simp add: x_def unat_of_nat)
  then have "bits_be 8 (unat x) = take 8 bs" using bits_be_bits_val [of "take 8 bs" 8] Suc.prems by simp
  then have "bs = bytes_bits (x # bytes)" by (metis append_take_drop_id b(1) bytes_bits_Cons)
  with b(2) show ?case by (metis length_Cons)
qed simp

lemma compare_op_code_iff:
  "compare_op_code op bytes \<longleftrightarrow> length bytes = 4 \<and> bytes_bits bytes = bits_be 32 (unat op)"
proof (cases "length bytes = 4")
  case True
  then have lt: "from_bytes_be bytes < 2 ^ 32" using from_bytes_be_less [of bytes] by simp
  have "word_of_nat (from_bytes_be bytes) = op \<longleftrightarrow> from_bytes_be bytes = unat op"
    using lt by (auto simp: unat_of_nat)
  also have "\<dots> \<longleftrightarrow> bytes_bits bytes = bits_be 32 (unat op)"
  proof
    assume "from_bytes_be bytes = unat op"
    then show "bytes_bits bytes = bits_be 32 (unat op)"
      using bits_be_bits_val [of "bytes_bits bytes" 32] True by (simp add: bits_val_bytes_bits)
  next
    assume "bytes_bits bytes = bits_be 32 (unat op)"
    then have "from_bytes_be bytes = unat op mod 2 ^ 32"
      by (metis bits_val_be bits_val_bytes_bits)
    then show "from_bytes_be bytes = unat op"
      using unsigned_less [of op, where ?'a = nat] by simp
  qed
  finally show ?thesis using True by (simp add: compare_op_code_def)
qed (simp add: compare_op_code_def)

section \<open>Reads on a cell with a known layout\<close>

definition holds_string :: "('c, 'p, 'b) cell_view \<Rightarrow> 'c \<Rightarrow> string \<Rightarrow> bool" where
  "holds_string V c s \<longleftrightarrow> holds_bytes V c (as_bytes s) \<and> utf8_valid (as_bytes s)"

lemma boc_read_Inr: "f p = (Inr a, q) \<Longrightarrow> boc_read f p = Inr (a, q)"
  by (simp add: boc_read_def)

lemma boc_read_eq_Inr_iff: "boc_read f p = Inr (a, q) \<longleftrightarrow> f p = (Inr a, q)"
  by (cases "f p"; cases "fst (f p)") (auto simp: boc_read_def)

context ton_cells
begin

lemma read_reference:
  "refs_left V p = c # cs \<Longrightarrow>
     \<exists>q. boc_read (next_reference T) p = Inr (c, q) \<and> refs_left V q = cs \<and> bits_left V q = bits_left V p"
  using reference_ok [of p c cs] by (auto intro: boc_read_Inr)

lemma read_string:
  assumes "refs_left V p = c # cs" "holds_string V c s"
  shows "\<exists>q. ref_string T p = Inr (s, q) \<and> refs_left V q = cs \<and> bits_left V q = bits_left V p"
  using read_reference [OF assms(1)] assms(2) by (auto simp: ref_string_def holds_string_def cell_to_string_holds)

lemma read_buffer:
  assumes "refs_left V p = c # cs" "holds_bytes V c bs"
  shows "\<exists>q. ref_buffer T p = Inr (bs, q) \<and> refs_left V q = cs \<and> bits_left V q = bits_left V p"
  using read_reference [OF assms(1)] assms(2) by (auto simp: ref_buffer_def cell_to_buffer_holds)

lemma read_parser:
  assumes "refs_left V p = c # cs"
  shows "\<exists>q. ref_parser T p = Inr (cell_parser T c, q) \<and> refs_left V q = cs \<and> bits_left V q = bits_left V p"
  using read_reference [OF assms(1)] by (auto simp: ref_parser_def)

lemma read_address:
  assumes "std_address a" "bits_left V p = address_bits V a @ r"
  shows "\<exists>q. boc_read (load_address T) p = Inr (a, q) \<and> bits_left V q = r \<and> refs_left V q = refs_left V p"
  using address_ok [OF assms] by (auto intro: boc_read_Inr)

lemma read_coins:
  assumes "m < 2 ^ 120" "bits_left V p = coins_bits V m @ r"
  shows "\<exists>q. boc_read (load_coins T) p = Inr (m, q) \<and> bits_left V q = r \<and> refs_left V q = refs_left V p"
  using coins_ok [OF assms] by (auto intro: boc_read_Inr)

lemma read_tonhash:
  assumes "length h = 32" "bits_left V p = bytes_bits h @ r"
  shows "\<exists>q. boc_read (load_tonhash T) p = Inr (h, q) \<and> bits_left V q = r \<and> refs_left V q = refs_left V p"
  using tonhash_ok [OF assms] by (auto intro: boc_read_Inr)

lemma read_array:
  assumes "length h = 32" "bits_left V p = bytes_bits h @ r"
  shows "\<exists>q. read_array32 T msg p = Inr (h, q) \<and> bits_left V q = r \<and> refs_left V q = refs_left V p"
proof -
  obtain q where "load_bits T 256 p = (Inr h, q)" "bits_left V q = r" "refs_left V q = refs_left V p"
    using bits_ok [OF assms(2), of 256] assms(1) by auto
  then show ?thesis using assms(1) by (simp add: read_array32_def boc_read_def array32_def)
qed

lemma read_ref_address:
  assumes "refs_left V p = c # cs" "std_address a" "bits_of V c = address_bits V a @ r"
  shows "\<exists>q. ref_address T p = Inr (a, q) \<and> refs_left V q = cs \<and> bits_left V q = bits_left V p"
proof -
  obtain q where q: "ref_parser T p = Inr (cell_parser T c, q)" "refs_left V q = cs" "bits_left V q = bits_left V p"
    using read_parser [OF assms(1)] by blast
  moreover obtain s where "boc_read (load_address T) (cell_parser T c) = Inr (a, s)"
    using read_address [of a "cell_parser T c" r] assms by (auto simp: parser_view)
  ultimately show ?thesis by (auto simp: ref_address_def)
qed

text \<open>The op-code check passes exactly on the 32 bits of the op code.\<close>

lemma check_op_code_sound:
  assumes "check_op_code X T op p = Inr (u, q)"
  shows "take 32 (bits_left V p) = bits_be 32 (unat op)"
proof -
  obtain bytes where l: "load_bits T 32 p = (Inr bytes, q)" and cmp: "compare_op_code op bytes"
    using assms by (auto simp: check_op_code_def and_then_eq_Inr_iff boc_read_eq_Inr_iff split: if_splits)
  then have "32 \<le> length (bits_left V p)"
    using bits_short [of p 32] by (metis Inl_Inr_False linorder_not_less prod.inject)
  then have len: "length (take 32 (bits_left V p)) = 8 * 4" by simp
  from bytes_bits_surj [OF this] obtain bytes' where
    b: "take 32 (bits_left V p) = bytes_bits bytes'" "length bytes' = 4" by blast
  then have "bits_left V p = bytes_bits bytes' @ drop 32 (bits_left V p)"
    by (metis append_take_drop_id)
  from bits_ok [OF this, of 32] b l have "bytes = bytes'" by auto
  with b cmp show ?thesis by (simp add: compare_op_code_iff)
qed

end


section \<open>Cells that are built\<close>

context ton_cells
begin

lemma store_references_ok:
  "length (refs_built V b) + length cs \<le> 4 \<Longrightarrow>
     \<exists>b'. store_references T cs b = Inr b' \<and> refs_built V b' = refs_built V b @ cs \<and> bits_built V b' = bits_built V b"
proof (induction cs arbitrary: b)
  case (Cons c cs)
  then obtain b1 where "store_reference T c b = Inr b1" "refs_built V b1 = refs_built V b @ [c]"
      "bits_built V b1 = bits_built V b"
    using store_reference_ok [of b c] by auto
  with Cons.IH [of b1] Cons.prems show ?case by auto
qed simp

lemma store_u32_first:
  "\<exists>b. store_uint T 32 (unat (w :: u32)) (new_builder T) = Inr b \<and> bits_built V b = bits_be 32 (unat w)
     \<and> refs_built V b = []"
  using store_uint_ok [of "unat w" 32 "new_builder T"] unsigned_less [of w, where ?'a = nat]
  by (simp add: builder_new)

lemma cell_refs:
  assumes "length cs \<le> 4"
  shows "\<exists>b c. store_references T cs (new_builder T) = Inr b \<and> build_cell T b = Inr c
    \<and> bits_of V c = [] \<and> refs_of V c = cs"
proof -
  obtain b where b: "store_references T cs (new_builder T) = Inr b" "refs_built V b = cs" "bits_built V b = []"
    using store_references_ok [of "new_builder T" cs] assms by (auto simp: builder_new)
  then show ?thesis using build_ok [of b] assms by auto
qed

lemma cell_refs_uint:
  assumes "length cs \<le> 4" "v < 2 ^ n" "n \<le> 1023"
  shows "\<exists>b b' c. store_references T cs (new_builder T) = Inr b \<and> store_uint T n v b = Inr b'
    \<and> build_cell T b' = Inr c \<and> bits_of V c = bits_be n v \<and> refs_of V c = cs"
proof -
  obtain b where b: "store_references T cs (new_builder T) = Inr b" "refs_built V b = cs" "bits_built V b = []"
    using store_references_ok [of "new_builder T" cs] assms by (auto simp: builder_new)
  obtain b' where "store_uint T n v b = Inr b'" "bits_built V b' = bits_be n v" "refs_built V b' = cs"
    using store_uint_ok [OF assms(2), of b] b assms(3) by auto
  with b show ?thesis using build_ok [of b'] assms by auto
qed

lemma cell_op_ref_address:
  assumes "std_address a"
  shows "\<exists>b1 b2 b3 c. store_uint T 32 (unat (op :: u32)) (new_builder T) = Inr b1 \<and> store_reference T d b1 = Inr b2
    \<and> store_address T a b2 = Inr b3 \<and> build_cell T b3 = Inr c
    \<and> bits_of V c = bits_be 32 (unat op) @ address_bits V a \<and> refs_of V c = [d]"
proof -
  obtain b1 where 1: "store_uint T 32 (unat op) (new_builder T) = Inr b1"
      "bits_built V b1 = bits_be 32 (unat op)" "refs_built V b1 = []"
    using store_u32_first by blast
  obtain b2 where 2: "store_reference T d b1 = Inr b2" "bits_built V b2 = bits_built V b1" "refs_built V b2 = [d]"
    using store_reference_ok [of b1 d] 1 by auto
  obtain b3 where 3: "store_address T a b2 = Inr b3" "refs_built V b3 = [d]"
      "bits_built V b3 = bits_built V b2 @ address_bits V a"
    using store_address_ok [OF assms, of b2] 1 2 by auto
  obtain c where "build_cell T b3 = Inr c" "bits_of V c = bits_built V b3" "refs_of V c = [d]"
    using build_ok [of b3] 1 2 3 address_bits_length [OF assms] by auto
  with 1 2 3 show ?thesis by auto
qed

lemma native_refund_cell:
  assumes "length (nr_tx_hash m) = 32" "std_address (nr_address m)" "nr_amount m < 2 ^ 120"
  shows "\<exists>c. native_refund_to_cell T m = Inr c \<and> refs_of V c = []
    \<and> bits_of V c = bits_be 32 (unat OP_NATIVE_REFUND) @ bytes_bits (nr_tx_hash m)
        @ address_bits V (nr_address m) @ coins_bits V (nr_amount m)"
proof -
  note len = address_bits_length [OF assms(2)] coins_bits_length [OF assms(3)]
  obtain b1 where 1: "store_uint T 32 (unat OP_NATIVE_REFUND) (new_builder T) = Inr b1"
      "bits_built V b1 = bits_be 32 (unat OP_NATIVE_REFUND)" "refs_built V b1 = []"
    using store_u32_first by blast
  obtain b2 where 2: "store_tonhash T (nr_tx_hash m) b1 = Inr b2"
      "bits_built V b2 = bits_built V b1 @ bytes_bits (nr_tx_hash m)" "refs_built V b2 = []"
    using store_tonhash_ok [OF assms(1), of b1] 1 by auto
  obtain b3 where 3: "store_address T (nr_address m) b2 = Inr b3"
      "bits_built V b3 = bits_built V b2 @ address_bits V (nr_address m)" "refs_built V b3 = []"
    using store_address_ok [OF assms(2), of b2] 1 2 assms(1) by auto
  obtain b4 where 4: "store_coins T (nr_amount m) b3 = Inr b4"
      "bits_built V b4 = bits_built V b3 @ coins_bits V (nr_amount m)" "refs_built V b4 = []"
    using store_coins_ok [OF assms(3), of b3] 1 2 3 assms(1) len by auto
  obtain c where "build_cell T b4 = Inr c" "bits_of V c = bits_built V b4" "refs_of V c = []"
    using build_ok [of b4] 1 2 3 4 assms(1) len by auto
  with 1 2 3 4 show ?thesis by (simp add: native_refund_to_cell_def)
qed

end

lemma call_contract_decode:
  assumes tc: "ton_cells T V" and boc: "from_boc_b64 T boc = Inr c"
    and refs: "refs_of V c = c1 # c2 # c3 # cs" and bits: "bits_of V c = address_bits V a @ bytes_bits h @ r"
    and chain: "holds_string V c1 chain" and dest: "holds_string V c2 dest" and pay: "holds_bytes V c3 pay"
    and a: "std_address a" and h: "length h = 32"
  shows "call_contract_from_boc_b64 X T boc =
    Inr \<lparr>ccm_destination_chain = chain, ccm_destination_address = dest, ccm_payload = hex_encode X pay,
         ccm_source_address = a, ccm_payload_hash = h\<rparr>"
proof -
  let ?p = "cell_parser T c"
  have v: "refs_left V ?p = c1 # c2 # c3 # cs" "bits_left V ?p = address_bits V a @ bytes_bits h @ r"
    by (simp_all add: ton_cells.parser_view [OF tc] refs bits)
  obtain p1 where 1: "ref_string T ?p = Inr (chain, p1)" "refs_left V p1 = c2 # c3 # cs" "bits_left V p1 = bits_left V ?p"
    using ton_cells.read_string [OF tc v(1) chain] by blast
  obtain p2 where 2: "ref_string T p1 = Inr (dest, p2)" "refs_left V p2 = c3 # cs" "bits_left V p2 = bits_left V ?p"
    using ton_cells.read_string [OF tc 1(2) dest] 1 by auto
  obtain p3 where 3: "ref_buffer T p2 = Inr (pay, p3)" "bits_left V p3 = address_bits V a @ bytes_bits h @ r"
    using ton_cells.read_buffer [OF tc 2(2) pay] 2 v by auto
  obtain p4 where 4: "boc_read (load_address T) p3 = Inr (a, p4)" "bits_left V p4 = bytes_bits h @ r"
    using ton_cells.read_address [OF tc a 3(2)] by blast
  obtain p5 where 5: "read_array32 T ''Invalid payload hash length'' p4 = Inr (h, p5)"
    using ton_cells.read_array [OF tc h 4(2)] by blast
  show ?thesis
    by (simp add: call_contract_from_boc_b64_def open_boc_b64_def boc 1 2 3 4 5)
qed

section \<open>Properties\<close>

text \<open>
  the decoders of the five logs that carry an op code (rotated signers, token
  metadata, interchain transfer, token deployment, token link) accept a cell only if its first
  32 bits are that op code.
\<close>

theorem op_code_checked:
  assumes tc: "ton_cells T V" and boc: "from_boc_b64 T boc = Inr c"
  shows "(is_ok (signers_rotated_from_boc_b64 X T boc)
            \<longrightarrow> take 32 (bits_of V c) = bits_be 32 (unat OP_SIGNERS_ROTATED_LOG))
    \<and> (is_ok (token_metadata_registered_from_boc_b64 X T boc)
            \<longrightarrow> take 32 (bits_of V c) = bits_be 32 (unat OP_TOKEN_METADATA_REGISTERED_LOG))
    \<and> (is_ok (its_interchain_transfer_from_boc_b64 X T boc)
            \<longrightarrow> take 32 (bits_of V c) = bits_be 32 (unat OP_INTERCHAIN_TRANSFER_LOG))
    \<and> (is_ok (its_deployment_started_from_boc_b64 X T boc)
            \<longrightarrow> take 32 (bits_of V c) = bits_be 32 (unat OP_INTERCHAIN_TOKEN_DEPLOYMENT_STARTED_LOG))
    \<and> (is_ok (its_link_token_started_from_boc_b64 X T boc)
            \<longrightarrow> take 32 (bits_of V c) = bits_be 32 (unat OP_LINK_TOKEN_STARTED_LOG))"
proof -
  have *: "take 32 (bits_of V c) = bits_be 32 (unat op)"
    if "is_ok (and_then (open_boc_b64 T boc) (\<lambda>p. and_then (check_op_code X T op p) (f p)))" for op and f :: "_ \<Rightarrow> _ \<Rightarrow> boc_error + 'z"
  proof -
    from that obtain u q where "check_op_code X T op (cell_parser T c) = Inr (u, q)"
      by (auto simp: is_ok_iff and_then_eq_Inr_iff open_boc_b64_def boc)
    from ton_cells.check_op_code_sound [OF tc this] show ?thesis
      by (simp add: ton_cells.parser_view [OF tc])
  qed
  show ?thesis
    unfolding signers_rotated_from_boc_b64_def token_metadata_registered_from_boc_b64_def
      its_interchain_transfer_from_boc_b64_def its_deployment_started_from_boc_b64_def
      its_link_token_started_from_boc_b64_def
    by (intro conjI impI; erule *)
qed


text \<open>
  a refund message with a 32-byte transaction hash, a standard address and an amount
  below 2^120 always fits a cell, and the log decoder of refunds reads the same hash, address
  and amount from the bits after the op code.
\<close>

theorem native_refund_roundtrip:
  assumes tc: "ton_cells T V" and h: "length (nr_tx_hash m) = 32" and a: "std_address (nr_address m)"
    and v: "nr_amount m < 2 ^ 120"
  shows "\<exists>c. native_refund_to_cell T m = Inr c \<and> take 32 (bits_of V c) = bits_be 32 0x46 \<and> refs_of V c = []
    \<and> (\<forall>boc d. from_boc_b64 T boc = Inr d \<and> bits_of V d = drop 32 (bits_of V c) \<longrightarrow>
         native_gas_refunded_from_boc_b64 T boc =
           Inr \<lparr>ngr_tx_hash = nr_tx_hash m, ngr_address = nr_address m, ngr_amount = nr_amount m\<rparr>)"
proof -
  obtain c where c: "native_refund_to_cell T m = Inr c" "refs_of V c = []"
      "bits_of V c = bits_be 32 (unat OP_NATIVE_REFUND) @ bytes_bits (nr_tx_hash m)
        @ address_bits V (nr_address m) @ coins_bits V (nr_amount m)"
    using ton_cells.native_refund_cell [OF tc h a v] by blast
  have "native_gas_refunded_from_boc_b64 T boc =
      Inr \<lparr>ngr_tx_hash = nr_tx_hash m, ngr_address = nr_address m, ngr_amount = nr_amount m\<rparr>"
    if boc: "from_boc_b64 T boc = Inr d" and d: "bits_of V d = drop 32 (bits_of V c)" for boc d
  proof -
    let ?p = "cell_parser T d"
    have "bits_left V ?p = bytes_bits (nr_tx_hash m) @ address_bits V (nr_address m) @ coins_bits V (nr_amount m) @ []"
      by (simp add: ton_cells.parser_view [OF tc] d c)
    from ton_cells.read_tonhash [OF tc h this] obtain p1 where 1: "boc_read (load_tonhash T) ?p = Inr (nr_tx_hash m, p1)"
      "bits_left V p1 = address_bits V (nr_address m) @ coins_bits V (nr_amount m) @ []" by blast
    from ton_cells.read_address [OF tc a 1(2)] obtain p2 where 2: "boc_read (load_address T) p1 = Inr (nr_address m, p2)"
      "bits_left V p2 = coins_bits V (nr_amount m) @ []" by blast
    from ton_cells.read_coins [OF tc v 2(2)] obtain p3 where 3: "boc_read (load_coins T) p2 = Inr (nr_amount m, p3)"
      by blast
    show ?thesis by (simp add: native_gas_refunded_from_boc_b64_def open_boc_b64_def boc 1 2 3)
  qed
  with c show ?thesis by (auto simp: OP_NATIVE_REFUND_def)
qed

text \<open>Sample cells for the witnesses.\<close>

definition leaf :: "byte list \<Rightarrow> rcell" where
  "leaf bs = RCell (bytes_bits bs) []"

lemma leaf_holds_bytes: "length bs \<le> 96 \<Longrightarrow> holds_bytes tree_view (leaf bs) bs"
  by (rule last_cell) (simp_all add: leaf_def tree_view_def BYTES_PER_CELL_def)

lemma leaf_holds_string:
  "length s \<le> 96 \<Longrightarrow> utf8_valid (as_bytes s) \<Longrightarrow> holds_string tree_view (leaf (as_bytes s)) s"
  by (simp add: holds_string_def leaf_holds_bytes as_bytes_def)

definition sample_std_address :: ton_address where
  "sample_std_address = TonAddress 0 (replicate 32 7)"

lemma sample_std_address_std [simp]: "std_address sample_std_address"
  by (simp add: std_address_def sample_std_address_def)

definition sample_call_cell :: rcell where
  "sample_call_cell = RCell (rc_address sample_std_address @ bytes_bits (replicate 32 1))
     [leaf (as_bytes ''avalanche''), leaf (as_bytes ''0xd7''), leaf [1, 2, 3]]"

lemma utf8_valid_avalanche: "utf8_valid (as_bytes ''avalanche'')" "utf8_valid (as_bytes ''0xd7'')"
  by (simp_all add: as_bytes_def byte_of_char_def)

lemma sample_call_cell_view:
  "from_boc_b64 (tree_tonlib (\<lambda>_. Inr c)) boc = Inr c"
  "refs_of tree_view sample_call_cell = [leaf (as_bytes ''avalanche''), leaf (as_bytes ''0xd7''), leaf [1, 2, 3]]"
  "bits_of tree_view sample_call_cell = address_bits tree_view sample_std_address @ bytes_bits (replicate 32 1) @ []"
  by (simp_all add: tree_tonlib_def tree_view_def sample_call_cell_def)


definition sample_metadata_cell :: rcell where
  "sample_metadata_cell = RCell (bits_be 32 0x104 @ rc_address sample_std_address @ bits_be 8 9) []"

lemma op_code_checked_witness:
  "\<not> is_ok (its_interchain_transfer_from_boc_b64 sample_crates (tree_tonlib (\<lambda>_. Inr sample_metadata_cell)) [])"
proof -
  have "bits_val (bits_be 32 0x104) \<noteq> bits_val (bits_be 32 (unat OP_INTERCHAIN_TRANSFER_LOG))"
    by (simp add: OP_INTERCHAIN_TRANSFER_LOG_def bits_val_be)
  then have "bits_be 32 0x104 \<noteq> bits_be 32 (unat OP_INTERCHAIN_TRANSFER_LOG)" by metis
  then have "take 32 (bits_of tree_view sample_metadata_cell) \<noteq> bits_be 32 (unat OP_INTERCHAIN_TRANSFER_LOG)"
    by (auto simp: tree_view_def sample_metadata_cell_def)
  then show ?thesis
    using op_code_checked [OF tree.ton_cells_axioms, of "\<lambda>_. Inr sample_metadata_cell" "[]" sample_metadata_cell sample_crates]
    by (simp add: tree_tonlib_def)
qed

lemma native_refund_roundtrip_witness:
  "\<exists>c. native_refund_to_cell (tree_tonlib Inl)
          \<lparr>nr_tx_hash = replicate 32 3, nr_address = sample_std_address, nr_amount = 10000000\<rparr> = Inr c
     \<and> take 32 (bits_of tree_view c) = bits_be 32 0x46"
  using native_refund_roundtrip [OF tree.ton_cells_axioms, of
      "\<lparr>nr_tx_hash = replicate 32 3, nr_address = sample_std_address, nr_amount = 10000000\<rparr>" Inl] by auto

lemma relayer_execute_cell:
  assumes tc: "ton_cells T V" and hex: "hex_decode X (rem_payload m) = Inr pay"
    and keccak: "length (keccak256 X pay) = 32" and a: "std_address (rem_relayer_address m)"
  shows "\<exists>c msg inner c1 c2 c3 c4 c5 c6. relayer_execute_to_cell X T m = Inr c
    \<and> bits_of V c = bits_be 32 8 @ address_bits V (rem_relayer_address m) \<and> refs_of V c = [msg]
    \<and> bits_of V msg = [] \<and> refs_of V msg = [c1, c2, c3, inner]
    \<and> bits_of V inner = bits_be 256 (payload_hash X pay) \<and> refs_of V inner = [c4, c5, c6]
    \<and> cell_to_buffer T c1 = Inr (as_bytes (rem_message_id m))
    \<and> cell_to_buffer T c2 = Inr (as_bytes (rem_source_chain m))
    \<and> cell_to_buffer T c3 = Inr (as_bytes (rem_source_address m))
    \<and> cell_to_buffer T c4 = Inr pay
    \<and> cell_to_buffer T c5 = Inr (hash_part (rem_destination_address m))
    \<and> cell_to_buffer T c6 = Inr (as_bytes (rem_destination_chain m))"
proof -
  have *: "\<exists>c. buffer_to_cell T buf = Inr c \<and> cell_to_buffer T c = Inr buf" for buf
    using ton_cells.buffer_to_cell_holds [OF tc, of buf] ton_cells.cell_to_buffer_holds [OF tc] by blast
  obtain c1 c2 c3 c4 c5 c6 where cells:
      "buffer_to_cell T (as_bytes (rem_message_id m)) = Inr c1" "cell_to_buffer T c1 = Inr (as_bytes (rem_message_id m))"
      "buffer_to_cell T (as_bytes (rem_source_chain m)) = Inr c2" "cell_to_buffer T c2 = Inr (as_bytes (rem_source_chain m))"
      "buffer_to_cell T (as_bytes (rem_source_address m)) = Inr c3" "cell_to_buffer T c3 = Inr (as_bytes (rem_source_address m))"
      "buffer_to_cell T pay = Inr c4" "cell_to_buffer T c4 = Inr pay"
      "buffer_to_cell T (hash_part (rem_destination_address m)) = Inr c5"
      "cell_to_buffer T c5 = Inr (hash_part (rem_destination_address m))"
      "buffer_to_cell T (as_bytes (rem_destination_chain m)) = Inr c6"
      "cell_to_buffer T c6 = Inr (as_bytes (rem_destination_chain m))"
    using * by meson
  have lt: "payload_hash X pay < 2 ^ 256"
    using from_bytes_be_less [of "keccak256 X pay"] keccak by (simp add: payload_hash_def)
  obtain b1 b2 inner where 1: "store_references T [c4, c5, c6] (new_builder T) = Inr b1"
      "store_uint T 256 (payload_hash X pay) b1 = Inr b2" "build_cell T b2 = Inr inner"
      "bits_of V inner = bits_be 256 (payload_hash X pay)" "refs_of V inner = [c4, c5, c6]"
    using ton_cells.cell_refs_uint [OF tc _ lt, of "[c4, c5, c6]"] by auto
  obtain b3 msg where 2: "store_references T [c1, c2, c3, inner] (new_builder T) = Inr b3"
      "build_cell T b3 = Inr msg" "bits_of V msg = []" "refs_of V msg = [c1, c2, c3, inner]"
    using ton_cells.cell_refs [OF tc, of "[c1, c2, c3, inner]"] by auto
  obtain b4 b5 b6 c where 3: "store_uint T 32 (unat OP_RELAYER_EXECUTE) (new_builder T) = Inr b4"
      "store_reference T msg b4 = Inr b5" "store_address T (rem_relayer_address m) b5 = Inr b6"
      "build_cell T b6 = Inr c" "refs_of V c = [msg]"
      "bits_of V c = bits_be 32 (unat OP_RELAYER_EXECUTE) @ address_bits V (rem_relayer_address m)"
    using ton_cells.cell_op_ref_address [OF tc a] by blast
  have "relayer_execute_to_cell X T m = Inr c"
    by (simp only: relayer_execute_to_cell_def cells hex 1 2 3 and_then_Inr map_err_Inr)
  then show ?thesis using cells 1 2 3 by (fastforce simp: OP_RELAYER_EXECUTE_def)
qed

text \<open>
  The message that executes a command is a cell with the op code 8, the relayer's
  address and one reference, to a message whose four references hold the message id, the source
  chain, the source address and an inner cell with the keccak hash of the payload and
  references to the payload, the 32 bytes of the destination address and the destination
  chain; every one of these reads back as the text or bytes that were encoded.
\<close>

theorem relayer_execute_layout:
  assumes tc: "ton_cells T V" and hex: "hex_decode X (rem_payload m) = Inr pay"
    and keccak: "length (keccak256 X pay) = 32" and a: "std_address (rem_relayer_address m)"
  shows "\<exists>c msg inner c1 c2 c3 c4 c5 c6. relayer_execute_to_cell X T m = Inr c
    \<and> bits_of V c = bits_be 32 8 @ address_bits V (rem_relayer_address m) \<and> refs_of V c = [msg]
    \<and> bits_of V msg = [] \<and> refs_of V msg = [c1, c2, c3, inner]
    \<and> bits_of V inner = bits_be 256 (payload_hash X pay) \<and> refs_of V inner = [c4, c5, c6]
    \<and> cell_to_buffer T c1 = Inr (as_bytes (rem_message_id m))
    \<and> cell_to_buffer T c2 = Inr (as_bytes (rem_source_chain m))
    \<and> cell_to_buffer T c3 = Inr (as_bytes (rem_source_address m))
    \<and> cell_to_buffer T c4 = Inr pay
    \<and> cell_to_buffer T c5 = Inr (hash_part (rem_destination_address m))
    \<and> cell_to_buffer T c6 = Inr (as_bytes (rem_destination_chain m))"
  by (rule relayer_execute_cell [OF assms])

lemma relayer_execute_layout_witness:
  "\<exists>c msg. relayer_execute_to_cell sample_crates (tree_tonlib Inl)
       \<lparr>rem_message_id = ''0x8c-1'', rem_source_chain = ''avalanche'', rem_source_address = ''0xd7'',
        rem_destination_chain = ''ton'', rem_destination_address = sample_std_address,
        rem_payload = ''0a0b'', rem_relayer_address = sample_std_address\<rparr> = Inr c
     \<and> refs_of tree_view c = [msg]"
proof -
  have k: "hex_decode sample_crates ''0a0b'' = Inr (as_bytes ''0a0b'')"
      "length (keccak256 sample_crates (as_bytes ''0a0b'')) = 32"
    by (simp_all add: sample_crates_def as_bytes_def)
  show ?thesis
  using relayer_execute_layout [OF tree.ton_cells_axioms, of sample_crates
      "\<lparr>rem_message_id = ''0x8c-1'', rem_source_chain = ''avalanche'', rem_source_address = ''0xd7'',
        rem_destination_chain = ''ton'', rem_destination_address = sample_std_address,
        rem_payload = ''0a0b'', rem_relayer_address = sample_std_address\<rparr>" "as_bytes ''0a0b''" Inl] k
  by auto
qed

end
