(* ===== verification/High_Load_Wallet.thy ===== *)
theory High_Load_Wallet
  imports Wallet_Manager Boc_Messages
begin

text \<open>
  The outgoing messages of a high-load wallet: \<open>src/src/out_action.rs\<close> and
  \<open>src/src/ton_wallet_high_load_v3.rs\<close>. A list of at most 254 actions becomes the body of an
  internal transfer of the wallet to itself, which is wrapped with the subwallet, the query id,
  the creation time and the timeout, signed, and wrapped as an external message. The record of a
  wallet is in \<open>Wallet_Manager\<close>; the time of the clock is an argument.
\<close>

section \<open>Actions\<close>

text \<open>\<open>TonAddress::NULL\<close>\<close>

definition NULL_ADDRESS :: ton_address where
  "NULL_ADDRESS = TonAddress 0 (replicate 32 0)"

text \<open>The internal message both files fill in: bounceable, from nobody, without fees.\<close>

definition plain_internal_message :: "ton_address \<Rightarrow> nat \<Rightarrow> internal_message" where
  "plain_internal_message dest value =
     \<lparr>im_ihr_disabled = False, im_bounce = True, im_bounced = False, im_src = NULL_ADDRESS, im_dest = dest,
      im_value = value, im_ihr_fee = 0, im_fwd_fee = 0, im_created_lt = 0, im_created_at = 0\<rparr>"

definition out_action :: "('c, 'p, 'b) tonlib \<Rightarrow> string \<Rightarrow> nat \<Rightarrow> ton_address \<Rightarrow> string + 'c out_action" where
  "out_action T boc_hex value destination =
     and_then (from_boc_hex T boc_hex) (\<lambda>body.
     and_then (transfer_message T (plain_internal_message destination value) body) (\<lambda>tm.
     Inr (SendMsg SEND_MODE_IGNORE_ERRORS tm)))"

section \<open>The wallet\<close>

definition MAX_ACTIONS :: nat where
  "MAX_ACTIONS = 254"

definition internal_transfer_body ::
    "('c, 'p, 'b) tonlib \<Rightarrow> 'c out_action list \<Rightarrow> u64 \<Rightarrow> string exn + 'c" where
  "internal_transfer_body T actions qid =
     (if MAX_ACTIONS < length actions then Inl Panicked
      else map_err Err
        (and_then (write_out_list T actions (new_builder T)) (\<lambda>builder.
         and_then (build_cell T builder) (\<lambda>actions_cell.
         and_then (store_u32 T 32 0xae42e5a4 (new_builder T)) (\<lambda>b.
         and_then (store_u64 T 64 qid b) (\<lambda>b.
         and_then (store_reference T actions_cell b) (\<lambda>b.
         build_cell T b)))))))"

definition internal_transfer_message_cell ::
    "('c, 'p, 'b) tonlib \<Rightarrow> ton_wallet_high_load_v3 \<Rightarrow> 'c \<Rightarrow> nat \<Rightarrow> string + 'c" where
  "internal_transfer_message_cell T w body internal_message_value =
     transfer_message T (plain_internal_message (wallet_address w) internal_message_value) body"

definition message_inner ::
    "('c, 'p, 'b) tonlib \<Rightarrow> ton_wallet_high_load_v3 \<Rightarrow> 'c \<Rightarrow> u8 \<Rightarrow> u64 \<Rightarrow> u64 \<Rightarrow> u64 \<Rightarrow> string + 'c" where
  "message_inner T w message mode qid created_at timeout =
     and_then (store_u32 T 32 (subwallet_id w) (new_builder T)) (\<lambda>b.
     and_then (store_reference T message b) (\<lambda>b.
     and_then (store_u8 T 8 mode b) (\<lambda>b.
     and_then (store_int T 23 (uint qid) b) (\<lambda>b.
     and_then (store_u64 T 64 created_at b) (\<lambda>b.
     and_then (store_number T 22 (uint timeout) b) (\<lambda>b.
     build_cell T b))))))"

definition sign_external_body :: "('c, 'p, 'b) tonlib \<Rightarrow> ton_wallet_high_load_v3 \<Rightarrow> 'c \<Rightarrow> string + 'c" where
  "sign_external_body T w external_body =
     and_then (nacl_signature T (cell_hash T external_body) (kp_secret_key (wallet_key_pair w))) (\<lambda>sign.
     and_then (store_slice T sign (new_builder T)) (\<lambda>b.
     and_then (store_reference T external_body b) (\<lambda>b.
     build_cell T b)))"

definition wrap_signed_body :: "('c, 'p, 'b) tonlib \<Rightarrow> ton_wallet_high_load_v3 \<Rightarrow> 'c \<Rightarrow> string + 'c" where
  "wrap_signed_body T w signed_body = ext_in_message T (wallet_address w) 0 signed_body"

text \<open>\<open>created_at\<close>: the clock less a sixtieth of the timeout, in wrapping arithmetic.\<close>

definition created_at :: "u64 \<Rightarrow> ton_wallet_high_load_v3 \<Rightarrow> u64" where
  "created_at now w = now - wallet_timeout w div 60"

definition outgoing_message ::
    "('c, 'p, 'b) tonlib \<Rightarrow> u64 \<Rightarrow> ton_wallet_high_load_v3 \<Rightarrow> 'c out_action list \<Rightarrow> u64 \<Rightarrow> nat
      \<Rightarrow> boc_error exn + 'c" where
  "outgoing_message T now w actions qid internal_message_value =
     and_then
       (case internal_transfer_body T actions qid of
          Inl Panicked \<Rightarrow> Inl Panicked
        | Inl (Err e) \<Rightarrow> Inl (Err (BocEncodingError (''Failed constructing internal transfer body: '' @ e)))
        | Inr c \<Rightarrow> Inr c)
       (\<lambda>body. map_err Err
       (and_then
         (map_err (\<lambda>e. BocEncodingError (''Failed constructing internal transfer message: '' @ e))
           (internal_transfer_message_cell T w body internal_message_value)) (\<lambda>internal_transfer.
        and_then
         (map_err (\<lambda>e. BocEncodingError (''Failed constructing inner message: '' @ e))
           (message_inner T w internal_transfer SEND_MODE_IGNORE_ERRORS qid (created_at now w)
             (wallet_timeout w))) (\<lambda>inner.
        and_then
         (map_err (\<lambda>e. BocEncodingError (''Failed signing external body: '' @ e))
           (sign_external_body T w inner)) (\<lambda>signed_body.
        map_err (\<lambda>e. BocEncodingError (''Failed wrapping signed body: '' @ e))
          (wrap_signed_body T w signed_body))))))"

section \<open>The cells of a message\<close>

context ton_numbers
begin

lemma internal_transfer_body_cell:
  assumes "length actions \<le> MAX_ACTIONS" "write_out_list T actions (new_builder T) = Inr ob" "build_cell T ob = Inr oc"
  shows "\<exists>c. internal_transfer_body T actions qid = Inr c
    \<and> bits_of V c = bits_be 32 0xae42e5a4 @ bits_be 64 (unat qid) \<and> refs_of V c = [oc]"
proof -
  obtain b1 where 1: "store_u32 T 32 0xae42e5a4 (new_builder T) = Inr b1"
      "bits_built V b1 = bits_be 32 0xae42e5a4" "refs_built V b1 = []"
    using store_u32_ok [of "new_builder T" "0xae42e5a4"] by (auto simp: builder_new)
  obtain b2 where 2: "store_u64 T 64 qid b1 = Inr b2" "bits_built V b2 = bits_built V b1 @ bits_be 64 (unat qid)"
      "refs_built V b2 = []"
    using store_u64_ok [of b1 qid] 1 by auto
  obtain b3 where 3: "store_reference T oc b2 = Inr b3" "refs_built V b3 = [oc]" "bits_built V b3 = bits_built V b2"
    using store_reference_ok [of b2 oc] 2 by auto
  obtain c where "build_cell T b3 = Inr c" "bits_of V c = bits_built V b3" "refs_of V c = [oc]"
    using build_ok [of b3] 1 2 3 by auto
  with 1 2 3 assms show ?thesis by (simp add: internal_transfer_body_def)
qed

lemma message_inner_cell:
  assumes "unat qid < 2 ^ 22" "unat to < 2 ^ 21"
  shows "\<exists>c. message_inner T w d mode qid at to = Inr c \<and> refs_of V c = [d]
    \<and> bits_of V c = bits_be 32 (unat (subwallet_id w)) @ bits_be 8 (unat mode) @ bits_be 23 (unat qid)
        @ bits_be 64 (unat at) @ bits_be 22 (unat to)"
proof -
  obtain b1 where 1: "store_u32 T 32 (subwallet_id w) (new_builder T) = Inr b1"
      "bits_built V b1 = bits_be 32 (unat (subwallet_id w))" "refs_built V b1 = []"
    using store_u32_ok [of "new_builder T" "subwallet_id w"] by (auto simp: builder_new)
  obtain b2 where 2: "store_reference T d b1 = Inr b2" "refs_built V b2 = [d]" "bits_built V b2 = bits_built V b1"
    using store_reference_ok [of b1 d] 1 by auto
  obtain b3 where 3: "store_u8 T 8 mode b2 = Inr b3" "bits_built V b3 = bits_built V b2 @ bits_be 8 (unat mode)"
      "refs_built V b3 = [d]"
    using store_u8_ok [of b2 mode] 1 2 by auto
  obtain b4 where 4: "store_int T 23 (uint qid) b3 = Inr b4" "bits_built V b4 = bits_built V b3 @ bits_be 23 (unat qid)"
      "refs_built V b4 = [d]"
    using store_int_ok [of "unat qid" 23 b3] 1 2 3 assms by auto
  obtain b5 where 5: "store_u64 T 64 at b4 = Inr b5" "bits_built V b5 = bits_built V b4 @ bits_be 64 (unat at)"
      "refs_built V b5 = [d]"
    using store_u64_ok [of b4 at] 1 2 3 4 by auto
  obtain b6 where 6: "store_number T 22 (uint to) b5 = Inr b6" "bits_built V b6 = bits_built V b5 @ bits_be 22 (unat to)"
      "refs_built V b6 = [d]"
    using store_number_ok [of "unat to" 22 b5] 1 2 3 4 5 assms by auto
  obtain c where "build_cell T b6 = Inr c" "bits_of V c = bits_built V b6" "refs_of V c = [d]"
    using build_ok [of b6] 1 2 3 4 5 6 by auto
  with 1 2 3 4 5 6 show ?thesis by (simp add: message_inner_def)
qed

lemma sign_external_body_cell:
  assumes "nacl_signature T (cell_hash T d) (kp_secret_key (wallet_key_pair w)) = Inr sig" "length sig = 64"
  shows "\<exists>c. sign_external_body T w d = Inr c \<and> bits_of V c = bytes_bits sig \<and> refs_of V c = [d]"
proof -
  obtain b1 where 1: "store_slice T sig (new_builder T) = Inr b1" "bits_built V b1 = bytes_bits sig" "refs_built V b1 = []"
    using store_slice_ok [of "new_builder T" sig] assms(2) by (auto simp: builder_new)
  obtain b2 where 2: "store_reference T d b1 = Inr b2" "refs_built V b2 = [d]" "bits_built V b2 = bits_built V b1"
    using store_reference_ok [of b1 d] 1 by auto
  obtain c where "build_cell T b2 = Inr c" "bits_of V c = bits_built V b2" "refs_of V c = [d]"
    using build_ok [of b2] 1 2 assms(2) by auto
  with 1 2 assms(1) show ?thesis by (simp add: sign_external_body_def)
qed

end

section \<open>Properties\<close>

text \<open>
  Claim C28: with at most 254 actions, a query id below 2^22 and a timeout below 2^21 seconds, an
  outgoing message is built whenever the library can build the action list, the transfer, the
  signature and the envelope. Its signed body is the 64-byte signature of the hash of the inner
  cell with a reference to that cell, and the inner cell holds exactly the subwallet, send mode
  2, the query id in 23 bits, the creation time and the timeout in 22 bits, with a reference to
  the transfer.
\<close>

theorem outgoing_message_layout:
  assumes tn: "ton_numbers T V" and n: "length actions \<le> 254" and q: "unat qid < 2 ^ 22"
    and to: "unat (wallet_timeout w) < 2 ^ 21"
    and ol: "write_out_list T actions (new_builder T) = Inr ob" "build_cell T ob = Inr oc"
    and tm: "\<And>body. transfer_message T (plain_internal_message (wallet_address w) value) body = Inr (tr body)"
    and sg: "\<And>d. nacl_signature T (cell_hash T d) (kp_secret_key (wallet_key_pair w)) = Inr (sig d)"
    and sl: "\<And>d. length (sig d) = 64"
    and ei: "\<And>s. ext_in_message T (wallet_address w) 0 s = Inr (env s)"
  shows "\<exists>body inner signed. outgoing_message T now w actions qid value = Inr (env signed)
    \<and> bits_of V signed = bytes_bits (sig inner) \<and> refs_of V signed = [inner]
    \<and> bits_of V inner = bits_be 32 (unat (subwallet_id w)) @ bits_be 8 2 @ bits_be 23 (unat qid)
        @ bits_be 64 (unat (created_at now w)) @ bits_be 22 (unat (wallet_timeout w))
    \<and> refs_of V inner = [tr body]
    \<and> bits_of V body = bits_be 32 0xae42e5a4 @ bits_be 64 (unat qid) \<and> refs_of V body = [oc]"
proof -
  obtain body where 1: "internal_transfer_body T actions qid = Inr body"
      "bits_of V body = bits_be 32 0xae42e5a4 @ bits_be 64 (unat qid)" "refs_of V body = [oc]"
    using ton_numbers.internal_transfer_body_cell [OF tn _ ol] n by (auto simp: MAX_ACTIONS_def)
  obtain inner where 2: "message_inner T w (tr body) SEND_MODE_IGNORE_ERRORS qid (created_at now w) (wallet_timeout w) = Inr inner"
      "refs_of V inner = [tr body]"
      "bits_of V inner = bits_be 32 (unat (subwallet_id w)) @ bits_be 8 2 @ bits_be 23 (unat qid)
        @ bits_be 64 (unat (created_at now w)) @ bits_be 22 (unat (wallet_timeout w))"
    using ton_numbers.message_inner_cell [OF tn q to, of w "tr body" SEND_MODE_IGNORE_ERRORS]
    by (auto simp: SEND_MODE_IGNORE_ERRORS_def)
  obtain signed where 3: "sign_external_body T w inner = Inr signed" "bits_of V signed = bytes_bits (sig inner)"
      "refs_of V signed = [inner]"
    using ton_numbers.sign_external_body_cell [OF tn sg sl] by blast
  have "outgoing_message T now w actions qid value = Inr (env signed)"
    by (simp add: outgoing_message_def 1 2 3 internal_transfer_message_cell_def tm wrap_signed_body_def ei)
  with 1 2 3 show ?thesis by blast
qed

lemma outgoing_message_layout_witness:
  "\<exists>inner signed. outgoing_message (tree_tonlib Inl) 1000 (sample_wallet 65) [SendMsg 2 (leaf [])] 5 0
       = Inr (RCell (rc_address (sample_address 65)) [signed])
     \<and> refs_of tree_view signed = [inner]"
  using outgoing_message_layout [OF tree.ton_numbers_axioms, of "[SendMsg 2 (leaf [])]" 5 "sample_wallet 65" Inl
      "(bits_be 32 0x0ec3c86d @ bits_be 8 2, [RCell [] [], leaf []])"
      "RCell (bits_be 32 0x0ec3c86d @ bits_be 8 2) [RCell [] [], leaf []]" 0 "\<lambda>body. RCell (rc_address (sample_address 65)) [body]" "\<lambda>_. replicate 64 0"
      "\<lambda>s. RCell (rc_address (sample_address 65)) [s]" 1000]
  by (fastforce simp: tree_tonlib_def sample_wallet_def plain_internal_message_def)

text \<open>
  building an outgoing message panics exactly when it is given more than 254 actions.
\<close>

theorem outgoing_message_panics_iff:
  "panics (outgoing_message T now w actions qid value) \<longleftrightarrow> 254 < length actions"
proof (cases "254 < length actions")
  case True
  then show ?thesis by (simp add: outgoing_message_def internal_transfer_body_def MAX_ACTIONS_def)
next
  case False
  then have "internal_transfer_body T actions qid \<noteq> Inl Panicked"
    by (auto simp: internal_transfer_body_def MAX_ACTIONS_def map_err_eq_Inl_iff)
  with False show ?thesis
    by (auto simp: outgoing_message_def panics_map_err_Err split: sum.splits exn.splits)
qed

text \<open>
  If the clock is past a sixtieth of the wallet's timeout, the creation time of a
  message is not in the future, and with a positive timeout the message has not expired at the
  time it is built.
\<close>

theorem created_at_bounds:
  assumes "unat (wallet_timeout w) div 60 \<le> unat now"
  shows "unat (created_at now w) = unat now - unat (wallet_timeout w) div 60
    \<and> unat (created_at now w) \<le> unat now
    \<and> (0 < unat (wallet_timeout w) \<longrightarrow> unat now < unat (created_at now w) + unat (wallet_timeout w))"
proof -
  have "unat (wallet_timeout w div 60) = unat (wallet_timeout w) div 60"
    by (simp add: unat_div_distrib)
  then have "unat (created_at now w) = unat now - unat (wallet_timeout w) div 60"
    using assms by (simp add: created_at_def unat_sub word_le_nat_alt)
  then show ?thesis using assms by linarith
qed

lemma created_at_bounds_witness: "unat (created_at 1000 (sample_wallet 65)) = 999"
  using created_at_bounds [of "sample_wallet 65" 1000] by (simp add: sample_wallet_def)

end
