(* ===== verification/Chain_Types.thy ===== *)
theory Chain_Types
  imports External
begin

text \<open>
  The data of the Toncenter API (\<open>src/src/types.rs\<close>): traces, transactions, messages,
  account states, the conversion of the API's trace (a map of transactions and their order)
  into the list the relayer works on, and the reader of op codes. Numbers the code reads from
  text (\<open>value\<close>, \<open>fwd_fee\<close>) stay text, as in the code.
\<close>

section \<open>JSON values\<close>

text \<open>A number is known by what \<open>as_u64\<close> gives for it.\<close>

datatype json = JNull | JBool bool | JNumber "u64 option" | JString string
  | JArray "json list" | JObject "(string \<times> json) list"

section \<open>Transactions\<close>

type_synonym extra_currencies = "(string \<times> json) list"

record message_content =
  content_hash :: string
  body :: string
  decoded :: "json option"

record transaction_message =
  msg_hash :: string
  msg_source :: "string option"
  destination :: "ton_address option"
  msg_value :: "string option"
  value_extra_currencies :: "extra_currencies option"
  fwd_fee :: "string option"
  ihr_fee :: "string option"
  created_lt :: "string option"
  msg_created_at :: "string option"
  opcode :: "u32 option"
  ihr_disabled :: "bool option"
  bounce :: "bool option"
  bounced :: "bool option"
  import_fee :: "string option"
  msg_content :: message_content
  init_state :: "json option"

record storage_phase =
  storage_fees_collected :: string
  storage_status_change :: string

record credit_phase =
  credit :: string

record compute_phase =
  skipped :: bool
  compute_success :: "bool option"
  msg_state_used :: "bool option"
  account_activated :: "bool option"
  gas_fees :: "string option"
  compute_gas_used :: "string option"
  gas_limit :: "string option"
  compute_mode :: "u32 option"
  exit_code :: "i32 option"
  vm_steps :: "u64 option"
  vm_init_state_hash :: "string option"
  vm_final_state_hash :: "string option"

record message_size =
  size_cells :: string
  size_bits :: string

record action_phase =
  action_success :: "bool option"
  action_valid :: bool
  no_funds :: bool
  action_status_change :: string
  total_fwd_fees :: "string option"
  total_action_fees :: "string option"
  result_code :: i32
  tot_actions :: u32
  spec_actions :: u32
  skipped_actions :: u32
  msgs_created :: u32
  action_list_hash :: string
  tot_msg_size :: message_size

record transaction_description =
  tx_type :: string
  aborted :: bool
  destroyed :: bool
  credit_first :: bool
  storage_ph :: storage_phase
  credit_ph :: "credit_phase option"
  compute_ph :: "compute_phase option"
  action :: "action_phase option"

record block_ref =
  ref_workchain :: i32
  shard :: string
  seqno :: u32

record account_state_balance =
  state_hash :: string
  state_balance :: "string option"
  state_extra_currencies :: "extra_currencies option"
  account_status :: "string option"
  frozen_hash :: "string option"
  data_hash :: "string option"
  code_hash :: "string option"

record transaction =
  account :: ton_address
  tx_hash :: string
  lt :: i64
  tx_now :: u64
  mc_block_seqno :: u64
  tx_trace_id :: string
  prev_trans_hash :: string
  prev_trans_lt :: string
  orig_status :: string
  end_status :: string
  total_fees :: u64
  total_fees_extra_currencies :: extra_currencies
  description :: transaction_description
  tx_block_ref :: block_ref
  in_msg :: "transaction_message option"
  out_msgs :: "transaction_message list"
  account_state_before :: account_state_balance
  account_state_after :: account_state_balance
  emulated :: bool

record trace =
  is_incomplete :: bool
  start_lt :: i64
  end_lt :: i64
  trace_id :: string
  transactions :: "transaction list"

record trace_rest =
  rest_is_incomplete :: bool
  rest_start_lt :: i64
  rest_end_lt :: i64
  rest_trace_id :: string
  rest_transactions :: "string \<rightharpoonup> transaction"
  transactions_order :: "string list"

record account_state =
  state_address :: ton_address
  account_state_hash :: string
  balance :: string
  status :: string

section \<open>Conversions\<close>

text \<open>\<open>impl From<TracesResponseRest> for TracesResponse\<close>: a missing key is logged and left out.\<close>

definition trace_from_rest :: "trace_rest \<Rightarrow> trace" where
  "trace_from_rest t =
     \<lparr>is_incomplete = rest_is_incomplete t, start_lt = rest_start_lt t, end_lt = rest_end_lt t,
      trace_id = rest_trace_id t,
      transactions = List.map_filter (rest_transactions t) (transactions_order t)\<rparr>"

definition traces_from_rest :: "trace_rest list \<Rightarrow> trace list" where
  "traces_from_rest ts = map trace_from_rest ts"

text \<open>\<open>trim_start_matches("0x")\<close> removes the prefix as often as it occurs.\<close>

fun trim_start_0x :: "string \<Rightarrow> string" where
  "trim_start_0x (a # b # s) = (if a = CHR ''0'' \<and> b = CHR ''x'' then trim_start_0x s else a # b # s)"
| "trim_start_0x s = s"

definition hex_digit_val :: "char \<Rightarrow> nat option" where
  "hex_digit_val c =
     (let n = of_char c in
      if 48 \<le> n \<and> n \<le> 57 then Some (n - 48)
      else if 97 \<le> n \<and> n \<le> 102 then Some (n - 87)
      else if 65 \<le> n \<and> n \<le> 70 then Some (n - 55) else None)"

fun hex_value :: "nat \<Rightarrow> string \<Rightarrow> nat option" where
  "hex_value acc [] = Some acc"
| "hex_value acc (c # cs) =
     (case hex_digit_val c of None \<Rightarrow> None | Some d \<Rightarrow> hex_value (16 * acc + d) cs)"

text \<open>\<open>u32::from_str_radix(s, 16)\<close>.\<close>

definition parse_hex_u32 :: "string \<Rightarrow> string + u32" where
  "parse_hex_u32 s =
     (let ds = strip_plus s in
      if ds = [] then Inl ''cannot parse integer from empty string''
      else (case hex_value 0 ds of
          None \<Rightarrow> Inl ''invalid digit found in string''
        | Some n \<Rightarrow>
            if n < 2 ^ 32 then Inr (word_of_nat n)
            else Inl ''number too large to fit in target type''))"

definition deserialize_hex_u32 :: "json option \<Rightarrow> string + u32 option" where
  "deserialize_hex_u32 val =
     (case val of
        Some (JString s) \<Rightarrow> map_ok Some (parse_hex_u32 (trim_start_0x s))
      | Some (JNumber n) \<Rightarrow> ok_or ''Expected u64 number'' (map_option (\<lambda>n. Some (ucast n)) n)
      | Some _ \<Rightarrow> Inl ''Expected string or number for opcode''
      | None \<Rightarrow> Inr None)"

section \<open>Lemmas\<close>

lemma trace_from_rest_complete:
  assumes "set (transactions_order t) \<subseteq> dom (rest_transactions t)"
  shows "map Some (transactions (trace_from_rest t)) = map (rest_transactions t) (transactions_order t)"
proof -
  have "map Some (List.map_filter f ks) = map f ks" if "set ks \<subseteq> dom f" for f :: "string \<rightharpoonup> transaction" and ks
    using that by (induction ks) (auto simp: List.map_filter_simps)
  with assms show ?thesis by (simp add: trace_from_rest_def)
qed

lemma hex_digit_val_digit_char: "d < 16 \<Longrightarrow> hex_digit_val (digit_char d) = Some d"
  by (auto simp: hex_digit_val_def digit_char_def)

lemma hex_value_append:
  "hex_value acc (s @ t) = (case hex_value acc s of None \<Rightarrow> None | Some v \<Rightarrow> hex_value v t)"
  by (induction s arbitrary: acc) (auto split: option.splits)

lemma hex_value_radix: "hex_value 0 (to_str_radix 16 n) = Some n"
proof (induction n rule: less_induct)
  case (less n)
  show ?case
  proof (cases "n < 16")
    case True
    then show ?thesis by (simp add: to_str_radix_def radix_digits.simps [of 16 n] hex_digit_val_digit_char)
  next
    case False
    then have "hex_value 0 (to_str_radix 16 (n div 16)) = Some (n div 16)"
      by (intro less.IH) simp
    with False show ?thesis
      by (simp add: to_str_radix_def radix_digits.simps [of 16 n] hex_value_append hex_digit_val_digit_char)
  qed
qed

lemma hex_digits_no_x: "2 \<le> b \<Longrightarrow> b \<le> 16 \<Longrightarrow> CHR ''x'' \<notin> set (to_str_radix b n)"
proof
  assume b: "2 \<le> b" "b \<le> 16" and "CHR ''x'' \<in> set (to_str_radix b n)"
  then obtain d where d: "d \<in> set (radix_digits b n)" "CHR ''x'' = digit_char d"
    by (auto simp: to_str_radix_def)
  then have "d < 16" using radix_digits_bound [OF b(1), of n] b(2) by (auto simp: list_all_iff)
  then have "hex_digit_val (CHR ''x'') = Some d" using d(2) hex_digit_val_digit_char by metis
  then show False by (simp add: hex_digit_val_def)
qed

lemma trim_start_0x_no_x: "CHR ''x'' \<notin> set s \<Longrightarrow> trim_start_0x s = s"
  by (induction s rule: trim_start_0x.induct) auto

lemma strip_plus_radix_16: "strip_plus (to_str_radix 16 n) = to_str_radix 16 n"
proof (cases "radix_digits 16 n")
  case Nil
  then show ?thesis by (simp add: radix_digits_nonempty)
next
  case (Cons d ds)
  then have "d < 16" using radix_digits_bound [of 16 n] by simp
  then have "digit_char d \<noteq> CHR ''+''"
    using hex_digit_val_digit_char [of d] by (auto simp: hex_digit_val_def)
  with Cons show ?thesis by (simp add: strip_plus_def to_str_radix_def)
qed

section \<open>Properties\<close>

text \<open>
  reading an op code that is written as \<open>0x\<close> followed by its hexadecimal digits
  gives the op code back, for every 32-bit value.
\<close>

theorem opcode_hex_roundtrip:
  "deserialize_hex_u32 (Some (JString (''0x'' @ to_str_radix 16 (unat (w :: u32))))) = Inr (Some w)"
proof -
  have "unat w < 2 ^ 32"
    using unsigned_less [of w, where ?'a = nat] by simp
  moreover have "trim_start_0x (''0x'' @ to_str_radix 16 (unat w)) = to_str_radix 16 (unat w)"
    by (simp add: trim_start_0x_no_x hex_digits_no_x)
  ultimately show ?thesis
    by (simp add: deserialize_hex_u32_def parse_hex_u32_def strip_plus_radix_16 hex_value_radix
        to_str_radix_nonempty)
qed

text \<open>
  The transactions of a converted trace are those of the API's map in the listed order;
  a key the map does not have is left out and changes nothing else.
\<close>

theorem trace_from_rest_in_order:
  "map Some (transactions (trace_from_rest t))
     = map (rest_transactions t) (filter (\<lambda>k. k \<in> dom (rest_transactions t)) (transactions_order t))
   \<and> trace_id (trace_from_rest t) = rest_trace_id t \<and> end_lt (trace_from_rest t) = rest_end_lt t
   \<and> is_incomplete (trace_from_rest t) = rest_is_incomplete t"
proof -
  have "map Some (List.map_filter f ks) = map f (filter (\<lambda>k. k \<in> dom f) ks)"
    for f :: "string \<rightharpoonup> transaction" and ks
    by (induction ks) (auto simp: List.map_filter_simps split: option.splits)
  then show ?thesis by (simp add: trace_from_rest_def)
qed

section \<open>Sample data\<close>

text \<open>Messages and transactions for the witnesses: only the fields the parsers read vary.\<close>

definition sample_message :: "ton_address option \<Rightarrow> u32 option \<Rightarrow> string \<Rightarrow> string option \<Rightarrow> transaction_message" where
  "sample_message dest op bdy val =
     \<lparr>msg_hash = ''h'', msg_source = None, destination = dest, msg_value = val, value_extra_currencies = None,
      fwd_fee = Some ''7'', ihr_fee = None, created_lt = None, msg_created_at = None, opcode = op,
      ihr_disabled = None, bounce = None, bounced = None, import_fee = None,
      msg_content = \<lparr>content_hash = ''c'', body = bdy, decoded = None\<rparr>, init_state = None\<rparr>"

definition sample_state :: account_state_balance where
  "sample_state =
     \<lparr>state_hash = [], state_balance = None, state_extra_currencies = None, account_status = None,
      frozen_hash = None, data_hash = None, code_hash = None\<rparr>"

definition sample_description :: "i32 option \<Rightarrow> action_phase option \<Rightarrow> transaction_description" where
  "sample_description code act =
     \<lparr>tx_type = ''ord'', aborted = False, destroyed = False, credit_first = False,
      storage_ph = \<lparr>storage_fees_collected = ''0'', storage_status_change = []\<rparr>, credit_ph = None,
      compute_ph = Some \<lparr>skipped = False, compute_success = None, msg_state_used = None, account_activated = None,
        gas_fees = None, compute_gas_used = None, gas_limit = None, compute_mode = None, exit_code = code,
        vm_steps = None, vm_init_state_hash = None, vm_final_state_hash = None\<rparr>,
      action = act\<rparr>"

definition sample_transaction ::
    "ton_address \<Rightarrow> u64 \<Rightarrow> transaction_message option \<Rightarrow> transaction_message list \<Rightarrow> transaction" where
  "sample_transaction acc fees inm outs =
     \<lparr>account = acc, tx_hash = ''AB'', lt = 1, tx_now = 0, mc_block_seqno = 0, tx_trace_id = ''t'',
      prev_trans_hash = [], prev_trans_lt = [], orig_status = [], end_status = [], total_fees = fees,
      total_fees_extra_currencies = [], description = sample_description None None,
      tx_block_ref = \<lparr>ref_workchain = 0, shard = [], seqno = 0\<rparr>, in_msg = inm, out_msgs = outs,
      account_state_before = sample_state, account_state_after = sample_state, emulated = False\<rparr>"

definition sample_trace :: "transaction list \<Rightarrow> trace" where
  "sample_trace txs = \<lparr>is_incomplete = False, start_lt = 1, end_lt = 2, trace_id = ''t'', transactions = txs\<rparr>"

end
