(* ===== verification/Gas.thy ===== *)
theory Gas
  imports Chain_Types
begin

text \<open>
  Gas: what the relayer attaches to the messages it sends (\<open>src/src/gas_estimator.rs\<close>
  with the configuration of \<open>src/src/config.rs\<close>) and what a trace cost it
  (\<open>src/src/gas_calculator.rs\<close>). The estimator's \<open>u64\<close> sums and products wrap, the
  calculator's balances are \<open>i128\<close>. Shown: the estimates' bounds, their exact value when
  nothing wraps, and that the calculator's hash map of balances sums to the value that flowed
  out of the relayer's accounts minus what flowed back.
\<close>

section \<open>Estimator\<close>

record gas_estimates =
  native_gas_refund :: u64
  native_gas_refund_storage_slippage :: u64
  execute_send_min :: u64
  execute_base :: u64
  execute_payload :: u64
  execute_storage_slippage :: u64
  cfg_approve_send :: u64
  cfg_highload_wallet_send :: u64
  its_execute_minimum :: u64

definition native_gas_refund_estimate :: "gas_estimates \<Rightarrow> u64" where
  "native_gas_refund_estimate c = native_gas_refund c + native_gas_refund_storage_slippage c"

definition execute_estimate :: "gas_estimates \<Rightarrow> u64 \<Rightarrow> u64" where
  "execute_estimate c payload =
     max (execute_base c + execute_payload c * payload + execute_storage_slippage c) (its_execute_minimum c)"

definition execute_send :: "gas_estimates \<Rightarrow> u64 \<Rightarrow> u64" where
  "execute_send c payload = max (execute_send_min c) (execute_estimate c payload)"

definition highload_wallet_send :: "gas_estimates \<Rightarrow> u64 \<Rightarrow> u64" where
  "highload_wallet_send c num_actions = cfg_highload_wallet_send c * num_actions"

definition approve_send :: "gas_estimates \<Rightarrow> u64 \<Rightarrow> u64" where
  "approve_send c num_messages = cfg_approve_send c"

text \<open>
  The trait \<open>GasEstimator\<close>: what the broadcaster relies on is that it never sends an
  execute message with less than the estimate it compared the task's balance with.
\<close>

locale gas_estimator =
  fixes ge_refund :: u64
    and ge_execute_estimate :: "u64 \<Rightarrow> u64"
    and ge_execute_send :: "u64 \<Rightarrow> u64"
    and ge_approve_send :: "u64 \<Rightarrow> u64"
    and ge_highload_send :: "u64 \<Rightarrow> u64"
  assumes send_covers_estimate: "ge_execute_estimate n \<le> ge_execute_send n"
begin

lemma estimate_covered:
  assumes "sent = ge_execute_send n"
  shows "unat (ge_execute_estimate n) \<le> unat sent"
  using assms send_covers_estimate [of n] by (simp add: word_le_nat_alt)

end

interpretation ton_gas: gas_estimator "native_gas_refund_estimate c" "execute_estimate c" "execute_send c"
  "approve_send c" "highload_wallet_send c" for c
  by unfold_locales (simp add: execute_send_def)

section \<open>Calculator\<close>

datatype gas_error = ConversionError string | GasCalculationError string

text \<open>
  The hash map of balances, as the list of its entries; only membership, \<open>entry.or_insert\<close>
  and the sum of the values are used, none of which depends on the order.
\<close>

type_synonym balances = "(ton_address \<times> i128) list"

definition contains_key :: "balances \<Rightarrow> ton_address \<Rightarrow> bool" where
  "contains_key m a \<longleftrightarrow> a \<in> fst ` set m"

fun add_cost :: "balances \<Rightarrow> ton_address \<Rightarrow> i128 \<Rightarrow> balances" where
  "add_cost [] acc c = [(acc, 0 + c)]"
| "add_cost ((a, v) # m) acc c = (if a = acc then (a, v + c) # m else (a, v) # add_cost m acc c)"

definition extract_fwd_fee :: "transaction_message \<Rightarrow> i128" where
  "extract_fwd_fee msg =
     (case parse_i128 (case fwd_fee msg of None \<Rightarrow> ''0'' | Some s \<Rightarrow> s) of None \<Rightarrow> 0 | Some v \<Rightarrow> v)"

definition extract_msg_value :: "transaction_message \<Rightarrow> i128" where
  "extract_msg_value msg =
     (case parse_i128 (case msg_value msg of None \<Rightarrow> ''0'' | Some s \<Rightarrow> s) of None \<Rightarrow> 0 | Some v \<Rightarrow> v)"

definition is_our_transaction :: "balances \<Rightarrow> transaction \<Rightarrow> bool" where
  "is_our_transaction m tx = contains_key m (account tx)"

definition us_receiving :: "balances \<Rightarrow> transaction \<Rightarrow> ton_address \<Rightarrow> bool" where
  "us_receiving m tx dest \<longleftrightarrow> \<not> contains_key m (account tx) \<and> contains_key m dest"

definition us_sending :: "balances \<Rightarrow> transaction \<Rightarrow> ton_address \<Rightarrow> bool" where
  "us_sending m tx dest \<longleftrightarrow> contains_key m (account tx) \<and> \<not> contains_key m dest"

text \<open>The body of the inner loop, over the outgoing messages of a transaction.\<close>

definition cost_msg :: "transaction \<Rightarrow> transaction_message \<Rightarrow> balances \<Rightarrow> balances" where
  "cost_msg tx msg m =
     (let m = (if is_our_transaction m tx then add_cost m (account tx) (extract_fwd_fee msg) else m) in
      case destination msg of
        None \<Rightarrow> m
      | Some dest \<Rightarrow>
          (let value = extract_msg_value msg;
               m = (if us_sending m tx dest then add_cost m (account tx) value else m)
           in if us_receiving m tx dest then add_cost m dest (0 - value) else m))"

definition cost_tx :: "transaction \<Rightarrow> balances \<Rightarrow> balances" where
  "cost_tx tx m =
     (let m = (if is_our_transaction m tx then add_cost m (account tx) (ucast (total_fees tx)) else m)
      in fold (cost_msg tx) (out_msgs tx) m)"

text \<open>\<open>collect\<close> into a hash map: each address once.\<close>

definition initial_balances :: "ton_address list \<Rightarrow> balances" where
  "initial_balances our_addresses = map (\<lambda>a. (a, 0)) (remdups our_addresses)"

definition cost :: "ton_address list \<Rightarrow> transaction list \<Rightarrow> gas_error + i128" where
  "cost our_addresses txs =
     Inr (sum_list (map snd (fold cost_tx txs (initial_balances our_addresses))))"

definition clamp_u64 :: "i128 \<Rightarrow> u64" where
  "clamp_u64 t = (if sint t > 0 then ucast t else 0)"

definition calc_message_gas :: "ton_address list \<Rightarrow> transaction list \<Rightarrow> gas_error + u64" where
  "calc_message_gas our_addresses txs =
     and_then (cost our_addresses txs) (\<lambda>t. Inr (clamp_u64 t))"

definition calc_message_gas_native_gas_refunded ::
    "ton_address list \<Rightarrow> transaction list \<Rightarrow> gas_error + u64" where
  "calc_message_gas_native_gas_refunded our_addresses txs =
     (case get_opt txs 2 of
        None \<Rightarrow> Inr 0
      | Some tx2 \<Rightarrow>
          (case get_opt (out_msgs tx2) 0 of
             None \<Rightarrow> Inr 0
           | Some out_msg \<Rightarrow>
               (let refund = (case msg_value out_msg of
                    Some val_str \<Rightarrow> (case parse_i128 val_str of None \<Rightarrow> 0 | Some v \<Rightarrow> v)
                  | None \<Rightarrow> 0)
                in and_then (cost our_addresses txs) (\<lambda>balance_diff.
                   Inr (clamp_u64 (balance_diff - refund))))))"

section \<open>The flow of value\<close>

text \<open>
  The specification: what a message and a transaction take out of the accounts \<open>ours\<close>, as
  integers. Messages between two of them, or between two others, do not count; a log has no
  destination.
\<close>

definition msg_flow :: "ton_address set \<Rightarrow> ton_address \<Rightarrow> transaction_message \<Rightarrow> int" where
  "msg_flow ours acc msg =
     (if acc \<in> ours then sint (extract_fwd_fee msg) else 0)
     + (case destination msg of None \<Rightarrow> 0
        | Some dest \<Rightarrow>
            if acc \<in> ours \<and> dest \<notin> ours then sint (extract_msg_value msg)
            else if acc \<notin> ours \<and> dest \<in> ours then - sint (extract_msg_value msg) else 0)"

definition tx_flow :: "ton_address set \<Rightarrow> transaction \<Rightarrow> int" where
  "tx_flow ours tx =
     (if account tx \<in> ours then int (unat (total_fees tx)) else 0)
     + sum_list (map (msg_flow ours (account tx)) (out_msgs tx))"

definition trace_flow :: "ton_address set \<Rightarrow> transaction list \<Rightarrow> int" where
  "trace_flow ours txs = sum_list (map (tx_flow ours) txs)"

lemma add_cost_sum: "sum_list (map snd (add_cost m a c)) = sum_list (map snd m) + c"
  by (induction m a c rule: add_cost.induct) (auto simp: add_ac)

lemma add_cost_keys: "contains_key m a \<Longrightarrow> fst ` set (add_cost m a c) = fst ` set m"
  by (induction m a c rule: add_cost.induct) (auto simp: contains_key_def)

lemma contains_key_cong: "fst ` set m = fst ` set m' \<Longrightarrow> contains_key m a = contains_key m' a"
  by (simp add: contains_key_def)

lemma cost_msg_flow:
  assumes "fst ` set m = ours"
  shows "fst ` set (cost_msg tx msg m) = ours"
    and "sum_list (map snd (cost_msg tx msg m)) = sum_list (map snd m) + word_of_int (msg_flow ours (account tx) msg)"
proof -
  define m1 where "m1 = (if is_our_transaction m tx then add_cost m (account tx) (extract_fwd_fee msg) else m)"
  have k1: "fst ` set m1 = ours"
    using assms by (auto simp: m1_def is_our_transaction_def add_cost_keys)
  have s1: "sum_list (map snd m1)
      = sum_list (map snd m) + word_of_int (if account tx \<in> ours then sint (extract_fwd_fee msg) else 0)"
    using assms by (simp add: m1_def is_our_transaction_def add_cost_sum contains_key_def)
  have "fst ` set (cost_msg tx msg m) = ours
    \<and> sum_list (map snd (cost_msg tx msg m)) = sum_list (map snd m) + word_of_int (msg_flow ours (account tx) msg)"
  proof (cases "destination msg")
    case None
    then show ?thesis
      using k1 s1 by (simp add: cost_msg_def Let_def msg_flow_def flip: m1_def)
  next
    case (Some dest)
    let ?v = "extract_msg_value msg"
    have in1: "contains_key m1 a \<longleftrightarrow> a \<in> ours" for a
      using k1 by (simp add: contains_key_def)
    have c: "cost_msg tx msg m =
        (if account tx \<in> ours \<and> dest \<notin> ours then add_cost m1 (account tx) ?v
         else if account tx \<notin> ours \<and> dest \<in> ours then add_cost m1 dest (0 - ?v) else m1)"
      using Some in1 add_cost_keys [of m1 "account tx" ?v] k1
      by (auto simp: cost_msg_def Let_def us_sending_def us_receiving_def contains_key_def simp flip: m1_def)
    show ?thesis
      using Some s1 k1 in1 unfolding c by (simp add: add_cost_sum add_cost_keys msg_flow_def)
  qed
  then show "fst ` set (cost_msg tx msg m) = ours"
    and "sum_list (map snd (cost_msg tx msg m)) = sum_list (map snd m) + word_of_int (msg_flow ours (account tx) msg)"
    by blast+
qed

lemma cost_msgs_flow:
  assumes "fst ` set m = ours"
  shows "fst ` set (fold (cost_msg tx) msgs m) = ours
    \<and> sum_list (map snd (fold (cost_msg tx) msgs m))
      = sum_list (map snd m) + word_of_int (sum_list (map (msg_flow ours (account tx)) msgs))"
  using assms
proof (induction msgs arbitrary: m)
  case Nil
  then show ?case by simp
next
  case (Cons msg msgs)
  show ?case
    using Cons.IH [OF cost_msg_flow(1) [OF Cons.prems]] cost_msg_flow(2) [OF Cons.prems]
    by (simp add: add.assoc)
qed

lemma cost_tx_flow:
  assumes "fst ` set m = ours"
  shows "fst ` set (cost_tx tx m) = ours"
    and "sum_list (map snd (cost_tx tx m)) = sum_list (map snd m) + word_of_int (tx_flow ours tx)"
proof -
  let ?m1 = "if is_our_transaction m tx then add_cost m (account tx) (ucast (total_fees tx)) else m"
  have k1: "fst ` set ?m1 = ours" using assms by (auto simp: is_our_transaction_def add_cost_keys)
  have u: "(ucast (total_fees tx) :: i128) = word_of_int (int (unat (total_fees tx)))" by simp
  have s1: "sum_list (map snd ?m1) = sum_list (map snd m)
      + word_of_int (if account tx \<in> ours then int (unat (total_fees tx)) else 0)"
    using assms by (auto simp: is_our_transaction_def add_cost_sum contains_key_def)
  show "fst ` set (cost_tx tx m) = ours"
    using cost_msgs_flow [OF k1] by (simp add: cost_tx_def Let_def)
  show "sum_list (map snd (cost_tx tx m)) = sum_list (map snd m) + word_of_int (tx_flow ours tx)"
    using cost_msgs_flow [OF k1] s1 by (simp add: cost_tx_def Let_def tx_flow_def add.assoc)
qed

lemma cost_txs_flow:
  assumes "fst ` set m = ours"
  shows "sum_list (map snd (fold cost_tx txs m)) = sum_list (map snd m) + word_of_int (trace_flow ours txs)"
  using assms
proof (induction txs arbitrary: m)
  case Nil
  then show ?case by (simp add: trace_flow_def)
next
  case (Cons tx txs)
  show ?case
    using Cons.IH [OF cost_tx_flow(1) [OF Cons.prems]] cost_tx_flow(2) [OF Cons.prems]
    by (simp add: trace_flow_def add.assoc)
qed

lemma initial_balances_keys: "fst ` set (initial_balances ours) = set ours"
  by (force simp: initial_balances_def)

lemma initial_balances_sum: "sum_list (map snd (initial_balances ours)) = 0"
  by (simp add: initial_balances_def o_def)

lemma cost_flow: "cost ours txs = Inr (word_of_int (trace_flow (set ours) txs))"
  using cost_txs_flow [OF initial_balances_keys] initial_balances_sum by (simp add: cost_def)

lemma clamp_u64_exact:
  assumes "- (2 ^ 127) \<le> i" and "i < 2 ^ 64"
  shows "unat (clamp_u64 (word_of_int i)) = nat i"
proof -
  have s: "sint (word_of_int i :: i128) = i"
    by (rule sint_exact) (use assms in simp_all)
  show ?thesis
  proof (cases "i > 0")
    case True
    then have "unat (ucast (word_of_int i :: i128) :: u64) = nat i"
      using assms(2) by (simp add: unsigned_ucast_eq unsigned_of_int take_bit_int_eq_self nat_less_iff
          take_bit_nat_eq_self flip: take_bit_nat_eq)
    with True s show ?thesis by (simp add: clamp_u64_def)
  next
    case False
    with s show ?thesis by (simp add: clamp_u64_def)
  qed
qed

section \<open>Properties\<close>

text \<open>
  Claim C30: the balances the calculator keeps per account sum to the value that left the
  relayer's accounts: their network fees and forward fees, plus what they sent to others, minus
  what others sent to them. Transfers between the relayer's own accounts do not count. The
  equation is one of 128-bit numbers, so it holds whatever the sizes.
\<close>

theorem gas_cost_is_flow:
  "cost ours txs = Inr (word_of_int (trace_flow (set ours) txs))"
  by (rule cost_flow)

text \<open>
  Claim C31: the gas reported for a trace is the flow out of the relayer's accounts, and zero when
  more came back than was spent, as long as the flow fits the machine types.
\<close>

theorem calc_message_gas_exact:
  assumes "- (2 ^ 127) \<le> trace_flow (set ours) txs" and "trace_flow (set ours) txs < 2 ^ 64"
  shows "\<exists>g. calc_message_gas ours txs = Inr g \<and> unat g = nat (trace_flow (set ours) txs)"
  using clamp_u64_exact [OF assms] by (simp add: calc_message_gas_def cost_flow)

lemma calc_message_gas_exact_witness:
  "\<exists>g. calc_message_gas [TonAddress 0 [1]]
      [sample_transaction (TonAddress 0 [1]) 100 None [sample_message (Some (TonAddress 0 [2])) None [] (Some ''50'')],
       sample_transaction (TonAddress 0 [2]) 999 None [sample_message (Some (TonAddress 0 [1])) None [] (Some ''30'')]]
      = Inr g \<and> unat g = 127"
proof -
  have f: "trace_flow (set [TonAddress 0 [1]])
      [sample_transaction (TonAddress 0 [1]) 100 None [sample_message (Some (TonAddress 0 [2])) None [] (Some ''50'')],
       sample_transaction (TonAddress 0 [2]) 999 None [sample_message (Some (TonAddress 0 [1])) None [] (Some ''30'')]]
      = 127"
    by (simp add: trace_flow_def tx_flow_def msg_flow_def sample_transaction_def sample_message_def
        extract_fwd_fee_def extract_msg_value_def parse_i128_def parse_nat_def strip_plus_def digit_val_def)
  show ?thesis
    using calc_message_gas_exact [where ours = "[TonAddress 0 [1]]" and txs = "
      [sample_transaction (TonAddress 0 [1]) 100 None [sample_message (Some (TonAddress 0 [2])) None [] (Some ''50'')],
       sample_transaction (TonAddress 0 [2]) 999 None [sample_message (Some (TonAddress 0 [1])) None [] (Some ''30'')]]"]
    unfolding f by simp
qed

text \<open>
  The value attached to an execute message is at least the estimate the task's balance
  is checked against, the configured minimum and the ITS minimum; this holds even if the
  estimate's arithmetic wraps.
\<close>

theorem execute_send_covers:
  "unat (execute_estimate c n) \<le> unat (execute_send c n)
   \<and> unat (execute_send_min c) \<le> unat (execute_send c n)
   \<and> unat (its_execute_minimum c) \<le> unat (execute_estimate c n)"
  using ton_gas.estimate_covered [OF refl, of c n]
  by (simp add: execute_send_def execute_estimate_def flip: word_le_nat_alt)

text \<open>
  As long as base, payload term and slippage together fit 64 bits, the execute estimate
  is their sum, but at least the ITS minimum, and it does not shrink when the payload grows.
\<close>

theorem execute_estimate_exact:
  assumes "unat (execute_base c) + unat (execute_payload c) * unat n + unat (execute_storage_slippage c) < 2 ^ 64"
  shows "unat (execute_estimate c n)
      = max (unat (execute_base c) + unat (execute_payload c) * unat n + unat (execute_storage_slippage c))
            (unat (its_execute_minimum c))
    \<and> (\<forall>m. m \<le> n \<longrightarrow> execute_estimate c m \<le> execute_estimate c n)"
proof -
  have exact: "unat (execute_estimate c m)
      = max (unat (execute_base c) + unat (execute_payload c) * unat m + unat (execute_storage_slippage c))
            (unat (its_execute_minimum c))" if "m \<le> n" for m
  proof -
    have "unat (execute_payload c) * unat m \<le> unat (execute_payload c) * unat n"
      using that by (simp add: word_le_nat_alt)
    then have lt: "unat (execute_base c) + unat (execute_payload c) * unat m + unat (execute_storage_slippage c) < 2 ^ 64"
      using assms by linarith
    then have "unat (execute_base c + execute_payload c * m + execute_storage_slippage c)
        = unat (execute_base c) + unat (execute_payload c) * unat m + unat (execute_storage_slippage c)"
      by (simp add: unat_word_ariths)
    then show ?thesis by (simp add: execute_estimate_def max_def word_le_nat_alt)
  qed
  moreover have "execute_estimate c m \<le> execute_estimate c n" if "m \<le> n" for m
  proof -
    have "unat (execute_payload c) * unat m \<le> unat (execute_payload c) * unat n"
      using that by (simp add: word_le_nat_alt)
    then show ?thesis
      unfolding word_le_nat_alt exact [OF that] exact [OF order_refl] by linarith
  qed
  ultimately show ?thesis by simp
qed

lemma execute_estimate_exact_witness:
  "unat (execute_estimate \<lparr>native_gas_refund = 1, native_gas_refund_storage_slippage = 1, execute_send_min = 310000000,
      execute_base = 40000000, execute_payload = 21000, execute_storage_slippage = 0, cfg_approve_send = 500000000,
      cfg_highload_wallet_send = 1, its_execute_minimum = 100\<rparr> 3842) = 120682000"
  using execute_estimate_exact [of "\<lparr>native_gas_refund = 1, native_gas_refund_storage_slippage = 1, execute_send_min = 310000000,
      execute_base = 40000000, execute_payload = 21000, execute_storage_slippage = 0, cfg_approve_send = 500000000,
      cfg_highload_wallet_send = 1, its_execute_minimum = 100\<rparr>" 3842]
  by simp

end
