(* ===== verification/Broadcaster.thy ===== *)
theory Broadcaster
  imports High_Load_Wallet Gas
begin

text \<open>
  The broadcaster (\<open>src/src/broadcaster.rs\<close>): it turns the relayer's tasks into messages of
  a high-load wallet and posts them. The state is the lock store, the table of query ids and the
  list of the posted messages; everything outside (the clocks, whether the database answers,
  what the indexer answers to a post) is given by an environment, one entry per attempt. The
  wallets, the query ids, the gas estimator and the message encoders are those of the other
  theories. The tasks are the structs of \<open>relayer_core\<close>, with the fields used here. Errors
  of libraries are strings, the text that the code prints.
\<close>

section \<open>Data\<close>

datatype broadcaster_error =
  BroadcasterGenericError string | RPCCallFailed string | InsufficientGas string

record v3_message_response =
  message_hash :: string
  message_hash_norm :: string

record broadcast_result =
  br_tx_hash :: string
  br_message_id :: "string option"
  br_source_chain :: "string option"
  br_status :: "broadcaster_error + unit"

record execute_task =
  et_message_id :: string
  et_source_chain :: string
  et_source_address :: string
  et_destination_address :: string
  et_payload :: string
  et_available_gas :: string

record refund_task =
  rt_message_id :: string
  rt_recipient :: string
  rt_token_id :: "string option"
  rt_amount :: string

record ton_broadcaster =
  b_wallets :: "(ton_address \<times> ton_wallet_high_load_v3) list"
  b_gateway_address :: ton_address
  b_gas_service_address :: ton_address
  b_chain_name :: string
  b_gas_estimator :: gas_estimates

record attempt =
  at_now :: int
  at_unix :: u64
  at_read_ok :: bool
  at_write_ok :: bool
  at_answer :: "string \<Rightarrow> string + v3_message_response"

record broadcast_env =
  acquire_at :: int
  release_at :: int
  attempts :: "nat \<Rightarrow> attempt"

record 'r broadcast_state =
  locks :: 'r
  query_ids :: query_id_table
  posted :: "string list"

section \<open>Text\<close>

definition HIGHLOAD_WALLET_ALREADY_EXECUTED :: string where
  "HIGHLOAD_WALLET_ALREADY_EXECUTED = ''THROWIF 36''"

text \<open>\<open>str::contains\<close>\<close>

fun str_contains :: "string \<Rightarrow> string \<Rightarrow> bool" where
  "str_contains [] pat = (pat = [])"
| "str_contains (c # cs) pat = (take (length pat) (c # cs) = pat \<or> str_contains cs pat)"

text \<open>The derived \<open>Debug\<close> texts used in messages.\<close>

definition wrapper_error_debug :: "high_load_query_id_wrapper_error \<Rightarrow> string" where
  "wrapper_error_debug e =
     (case e of ConstructionError \<Rightarrow> ''ConstructionError'' | NoNextQueryId \<Rightarrow> ''NoNextQueryId''
      | DatabaseError \<Rightarrow> ''DatabaseError'')"

definition wallet_error_debug :: "wallet_manager_error \<Rightarrow> string" where
  "wallet_error_debug e =
     (case e of NoAvailableWallet \<Rightarrow> ''NoAvailableWallet'' | LockError s \<Rightarrow> ''LockError('' @ s @ '')'')"

definition boc_failed :: "boc_error \<Rightarrow> broadcaster_error" where
  "boc_failed e = BroadcasterGenericError (boc_error_to_string e)"

section \<open>Sending\<close>

text \<open>The retries of the next attempt after an \<open>already executed\<close> answer.\<close>

definition next_retries :: "u32 option \<Rightarrow> u32 option" where
  "next_retries retries_left =
     (case retries_left of Some r \<Rightarrow> if r > 0 then Some (r - 1) else None | None \<Rightarrow> Some 10)"

definition retry_budget :: "u32 option \<Rightarrow> nat" where
  "retry_budget retries_left = (case retries_left of None \<Rightarrow> 11 | Some r \<Rightarrow> unat r)"

lemma next_retries_budget: "next_retries r = Some r' \<Longrightarrow> retry_budget (Some r') < retry_budget r"
  by (auto simp: next_retries_def retry_budget_def unat_minus_one word_gt_0 unat_gt_0 split: option.splits if_splits)

text \<open>The boc of one attempt: a new query id, the wallet's message, its serialisation.\<close>

definition prepare_boc ::
    "crates \<Rightarrow> ('c, 'p, 'b) tonlib \<Rightarrow> gas_estimates \<Rightarrow> attempt \<Rightarrow> ton_wallet_high_load_v3 \<Rightarrow> 'c out_action list
      \<Rightarrow> bool \<Rightarrow> query_id_table \<Rightarrow> (broadcaster_error exn + string) \<times> query_id_table" where
  "prepare_boc X T ge at wallet actions force tbl =
     (case wrapper_next (at_read_ok at) (at_write_ok at) (at_now at) tbl (address_to_string X (wallet_address wallet))
             (wallet_timeout wallet) force of
        (Inl e, tbl') \<Rightarrow>
          (Inl (Err (BroadcasterGenericError (''Query Id acquiring failed: '' @ wrapper_error_debug e))), tbl')
      | (Inr q, tbl') \<Rightarrow>
          (and_then
             (case outgoing_message T (at_unix at) wallet actions (query_id q)
                     (unat (highload_wallet_send ge (word_of_nat (length actions)))) of
                Inl Panicked \<Rightarrow> Inl Panicked
              | Inl (Err e) \<Rightarrow> Inl (Err (boc_failed e))
              | Inr c \<Rightarrow> Inr c) (\<lambda>message.
           and_then (map_err (\<lambda>e. Err (BroadcasterGenericError e)) (boc_serialize T message)) (\<lambda>tx.
           Inr (base64_encode X tx))), tbl'))"

function send_to_chain ::
    "crates \<Rightarrow> ('c, 'p, 'b) tonlib \<Rightarrow> gas_estimates \<Rightarrow> (nat \<Rightarrow> attempt) \<Rightarrow> ton_wallet_high_load_v3
      \<Rightarrow> 'c out_action list \<Rightarrow> u32 option \<Rightarrow> 'r broadcast_state
      \<Rightarrow> (broadcaster_error exn + v3_message_response) \<times> 'r broadcast_state" where
  "send_to_chain X T ge env wallet actions retries_left st =
     (case prepare_boc X T ge (env 0) wallet actions (retries_left \<noteq> None) (query_ids st) of
        (Inl e, tbl) \<Rightarrow> (Inl e, st\<lparr>query_ids := tbl\<rparr>)
      | (Inr boc, tbl) \<Rightarrow>
          (let st' = st\<lparr>query_ids := tbl, posted := posted st @ [boc]\<rparr>
           in case at_answer (env 0) boc of
                Inr response \<Rightarrow> (Inr response, st')
              | Inl error_str \<Rightarrow>
                  if str_contains error_str HIGHLOAD_WALLET_ALREADY_EXECUTED
                  then (case next_retries retries_left of
                          None \<Rightarrow> (Inl (Err (RPCCallFailed error_str)), st')
                        | Some r \<Rightarrow> send_to_chain X T ge (env \<circ> Suc) wallet actions (Some r) st')
                  else (Inl (Err (RPCCallFailed error_str)), st')))"
  by pat_completeness auto
termination
  by (relation "measure (\<lambda>(_, _, _, _, _, _, r, _). retry_budget r)") (auto simp: next_retries_budget)

declare send_to_chain.simps [simp del]

text \<open>
  The frame of the three handlers: acquire a wallet, run the block, release the wallet whatever
  the block returned. A panic in the block unwinds past the release.
\<close>

definition with_wallet ::
    "crates \<Rightarrow> 'r redis \<Rightarrow> ton_broadcaster \<Rightarrow> broadcast_env
      \<Rightarrow> (ton_wallet_high_load_v3 \<Rightarrow> 'r broadcast_state \<Rightarrow> (broadcaster_error exn + 'a) \<times> 'r broadcast_state)
      \<Rightarrow> 'r broadcast_state \<Rightarrow> (broadcaster_error exn + 'a) \<times> 'r broadcast_state" where
  "with_wallet X R B env block st =
     (case acquire X (redis_lock R (acquire_at env)) (b_wallets B) (locks st) of
        (Inl e, r) \<Rightarrow>
          (Inl (Err (BroadcasterGenericError (''Wallet acquire failed: '' @ wallet_error_debug e))), st\<lparr>locks := r\<rparr>)
      | (Inr wallet, r) \<Rightarrow>
          (let (result, st') = block wallet (st\<lparr>locks := r\<rparr>)
           in if result = Inl Panicked then (result, st')
              else (result, st'\<lparr>locks := release X (redis_unlock R (release_at env)) wallet (locks st')\<rparr>)))"

text \<open>The block of a broadcast: send, and put an error of the sending into the status.\<close>

definition send_and_report ::
    "crates \<Rightarrow> ('c, 'p, 'b) tonlib \<Rightarrow> gas_estimates \<Rightarrow> (nat \<Rightarrow> attempt) \<Rightarrow> string \<Rightarrow> string \<Rightarrow> ton_wallet_high_load_v3
      \<Rightarrow> 'c out_action list \<Rightarrow> 'r broadcast_state \<Rightarrow> (broadcaster_error exn + broadcast_result) \<times> 'r broadcast_state" where
  "send_and_report X T ge env message_id source_chain wallet actions st =
     (case send_to_chain X T ge env wallet actions None st of
        (Inl Panicked, st') \<Rightarrow> (Inl Panicked, st')
      | (Inl (Err err), st') \<Rightarrow>
          (Inr \<lparr>br_tx_hash = [], br_message_id = Some message_id, br_source_chain = Some source_chain,
                br_status = Inl err\<rparr>, st')
      | (Inr response, st') \<Rightarrow>
          (Inr \<lparr>br_tx_hash = message_hash response, br_message_id = Some message_id,
                br_source_chain = Some source_chain, br_status = Inr ()\<rparr>, st'))"

section \<open>Handlers\<close>

definition broadcast_prover_message ::
    "crates \<Rightarrow> ('c, 'p, 'b) tonlib \<Rightarrow> 'r redis \<Rightarrow> ton_broadcaster \<Rightarrow> broadcast_env \<Rightarrow> string \<Rightarrow> 'r broadcast_state
      \<Rightarrow> (broadcaster_error exn + broadcast_result) \<times> 'r broadcast_state" where
  "broadcast_prover_message X T R B env tx_blob st =
     (case and_then (map_err (\<lambda>e. Err (boc_failed e)) (approve_messages_from_boc_hex X T tx_blob)) (\<lambda>(msgs, _).
           and_then (ok_or (Err (BroadcasterGenericError ''Missing approved message'')) (get_opt msgs 0)) (\<lambda>message.
           and_then (map_err (\<lambda>e. Err (BroadcasterGenericError e))
               (out_action T tx_blob (unat (approve_send (b_gas_estimator B) (word_of_nat (length msgs))))
                 (b_gateway_address B))) (\<lambda>act.
           Inr (message, act)))) of
        Inl e \<Rightarrow> (Inl e, st)
      | Inr (message, act) \<Rightarrow>
          with_wallet X R B env
            (\<lambda>wallet. send_and_report X T (b_gas_estimator B) (attempts env) (am_message_id message)
               (am_source_chain message) wallet [act]) st)"

definition broadcast_refund :: "string \<Rightarrow> broadcaster_error + string" where
  "broadcast_refund data = Inr []"

text \<open>\<open>u64::from_str(amount).unwrap_or(0)\<close>\<close>

definition available_gas :: "execute_task \<Rightarrow> u64" where
  "available_gas task = (case parse_u64 (et_available_gas task) of None \<Rightarrow> 0 | Some g \<Rightarrow> g)"

text \<open>The action of an execute task: the gateway's message from the wallet that was acquired.\<close>

definition execute_action ::
    "crates \<Rightarrow> ('c, 'p, 'b) tonlib \<Rightarrow> ton_broadcaster \<Rightarrow> execute_task \<Rightarrow> ton_address \<Rightarrow> byte list
      \<Rightarrow> ton_wallet_high_load_v3 \<Rightarrow> broadcaster_error exn + 'c out_action" where
  "execute_action X T B task destination_address decoded_bytes wallet =
     and_then (map_err (\<lambda>e. Err (boc_failed e))
       (relayer_execute_to_cell X T
          \<lparr>rem_message_id = et_message_id task, rem_source_chain = et_source_chain task,
           rem_source_address = et_source_address task, rem_destination_chain = b_chain_name B,
           rem_destination_address = destination_address, rem_payload = hex_encode X decoded_bytes,
           rem_relayer_address = wallet_address wallet\<rparr>)) (\<lambda>cell.
     and_then (map_err (\<lambda>e. Err (BroadcasterGenericError (''Failed to serialize relayer execute message: '' @ e)))
       (to_boc_hex T cell)) (\<lambda>boc.
     map_err (\<lambda>e. Err (BroadcasterGenericError e))
       (out_action T boc (unat (execute_send (b_gas_estimator B) (word_of_nat (length decoded_bytes))))
          (b_gateway_address B))))"

definition execute_block ::
    "crates \<Rightarrow> ('c, 'p, 'b) tonlib \<Rightarrow> ton_broadcaster \<Rightarrow> broadcast_env \<Rightarrow> execute_task \<Rightarrow> ton_address \<Rightarrow> byte list
      \<Rightarrow> ton_wallet_high_load_v3 \<Rightarrow> 'r broadcast_state \<Rightarrow> (broadcaster_error exn + broadcast_result) \<times> 'r broadcast_state" where
  "execute_block X T B env task destination_address decoded_bytes wallet st =
     (case execute_action X T B task destination_address decoded_bytes wallet of
        Inl e \<Rightarrow> (Inl e, st)
      | Inr act \<Rightarrow>
          send_and_report X T (b_gas_estimator B) (attempts env) (et_message_id task) (et_source_chain task)
            wallet [act] st)"

definition broadcast_execute_message ::
    "crates \<Rightarrow> ('c, 'p, 'b) tonlib \<Rightarrow> 'r redis \<Rightarrow> ton_broadcaster \<Rightarrow> broadcast_env \<Rightarrow> execute_task \<Rightarrow> 'r broadcast_state
      \<Rightarrow> (broadcaster_error exn + broadcast_result) \<times> 'r broadcast_state" where
  "broadcast_execute_message X T R B env task st =
     (case and_then (map_err (\<lambda>e. Err (BroadcasterGenericError (''TonAddressParseError: '' @ e)))
             (address_from_str X (et_destination_address task))) (\<lambda>destination_address.
           and_then (map_err (\<lambda>e. Err (BroadcasterGenericError (''Failed decoding payload: '' @ e)))
             (base64_decode X (et_payload task))) (\<lambda>decoded_bytes.
           Inr (destination_address, decoded_bytes))) of
        Inl e \<Rightarrow> (Inl e, st)
      | Inr (destination_address, decoded_bytes) \<Rightarrow>
          if available_gas task < execute_estimate (b_gas_estimator B) (word_of_nat (length decoded_bytes))
          then (Inr \<lparr>br_tx_hash = [], br_message_id = Some (et_message_id task),
                     br_source_chain = Some (et_source_chain task),
                     br_status = Inl (InsufficientGas ''Cannot proceed to execute'')\<rparr>, st)
          else with_wallet X R B env (execute_block X T B env task destination_address decoded_bytes) st)"

definition refund_block ::
    "crates \<Rightarrow> ('c, 'p, 'b) tonlib \<Rightarrow> ton_broadcaster \<Rightarrow> broadcast_env \<Rightarrow> string
      \<Rightarrow> ton_wallet_high_load_v3 \<Rightarrow> 'r broadcast_state \<Rightarrow> (broadcaster_error exn + string) \<times> 'r broadcast_state" where
  "refund_block X T B env boc wallet st =
     (case out_action T boc (unat REFUND_DUST) (b_gas_service_address B) of
        Inl e \<Rightarrow> (Inl (Err (BroadcasterGenericError e)), st)
      | Inr act \<Rightarrow>
          (case send_to_chain X T (b_gas_estimator B) (attempts env) wallet [act] None st of
             (Inl Panicked, st') \<Rightarrow> (Inl Panicked, st')
           | (Inl (Err err), st') \<Rightarrow> (Inr [], st')
           | (Inr response, st') \<Rightarrow> (Inr (message_hash response), st')))"

text \<open>The refund message of a task: what is checked before a wallet is acquired.\<close>

definition refund_message ::
    "crates \<Rightarrow> ton_broadcaster \<Rightarrow> refund_task \<Rightarrow> broadcaster_error + native_refund_message" where
  "refund_message X B task =
     (if rt_token_id task \<noteq> None
      then Inl (BroadcasterGenericError ''Refund task with token_id is not supported'')
      else
        (let cleaned_hash = (case strip_prefix ''0x'' (rt_message_id task) of None \<Rightarrow> rt_message_id task | Some h \<Rightarrow> h)
         in and_then (map_err BroadcasterGenericError (tonhash_from_hex X cleaned_hash)) (\<lambda>tx_hash.
            and_then (map_err BroadcasterGenericError (address_from_hex_str X (rt_recipient task))) (\<lambda>addr.
            and_then (map_err BroadcasterGenericError (biguint_from_str X (rt_amount task))) (\<lambda>original_amount.
            let gas_estimate = unat (native_gas_refund_estimate (b_gas_estimator B))
            in if original_amount < gas_estimate
               then Inl (InsufficientGas ''Not enough balance to cover gas for refund'')
               else Inr \<lparr>nr_tx_hash = tx_hash, nr_address = addr, nr_amount = original_amount - gas_estimate\<rparr>)))))"

definition broadcast_refund_message ::
    "crates \<Rightarrow> ('c, 'p, 'b) tonlib \<Rightarrow> 'r redis \<Rightarrow> ton_broadcaster \<Rightarrow> broadcast_env \<Rightarrow> refund_task \<Rightarrow> 'r broadcast_state
      \<Rightarrow> (broadcaster_error exn + string) \<times> 'r broadcast_state" where
  "broadcast_refund_message X T R B env task st =
     (case and_then (map_err Err (refund_message X B task)) (\<lambda>native_refund.
           and_then (map_err (\<lambda>e. Err (boc_failed e)) (native_refund_to_cell T native_refund)) (\<lambda>cell.
           map_err (\<lambda>e. Err (BroadcasterGenericError (''Failed to serialize relayer execute message: '' @ e)))
             (to_boc_hex T cell))) of
        Inl e \<Rightarrow> (Inl e, st)
      | Inr boc \<Rightarrow> with_wallet X R B env (refund_block X T B env boc) st)"


section \<open>Lemmas on sending\<close>

text \<open>The answers that make the broadcaster try again.\<close>

definition already_executed :: "string + v3_message_response \<Rightarrow> bool" where
  "already_executed r = (case r of Inl e \<Rightarrow> str_contains e HIGHLOAD_WALLET_ALREADY_EXECUTED | Inr _ \<Rightarrow> False)"

lemma prepare_boc_panics:
  assumes "length actions \<le> 254"
  shows "fst (prepare_boc X T ge at wallet actions force tbl) \<noteq> Inl Panicked"
proof -
  have "outgoing_message T u wallet actions q v \<noteq> Inl Panicked" for u q v
  proof
    assume "outgoing_message T u wallet actions q v = Inl Panicked"
    then have "panics (outgoing_message T u wallet actions q v)" by simp
    then show False
      using assms
      by (auto simp: outgoing_message_def internal_transfer_body_def MAX_ACTIONS_def panics_def and_then_eq_Inl_iff
          map_err_eq_Inl_iff split: sum.splits exn.splits)
  qed
  then show ?thesis
    by (auto simp: prepare_boc_def and_then_eq_Inl_iff map_err_eq_Inl_iff split: prod.splits sum.splits exn.splits)
qed

lemma send_to_chain_run:
  "length actions \<le> 254 \<Longrightarrow>
   send_to_chain X T ge env wallet actions r st = (res, st') \<Longrightarrow>
   \<exists>bocs. posted st' = posted st @ bocs \<and> locks st' = locks st \<and> length bocs \<le> Suc (retry_budget r)
     \<and> res \<noteq> Inl Panicked
     \<and> (\<forall>i < length bocs - 1. already_executed (at_answer (env i) (bocs ! i)))
     \<and> (\<forall>resp. res = Inr resp \<longrightarrow>
          bocs \<noteq> [] \<and> at_answer (env (length bocs - 1)) (last bocs) = Inr resp)"
proof (induction X T ge env wallet actions r st arbitrary: res rule: send_to_chain.induct)
  case (1 X T ge env wallet actions r st)
  obtain p tbl where prep: "prepare_boc X T ge (env 0) wallet actions (r \<noteq> None) (query_ids st) = (p, tbl)"
    by fastforce
  show ?case
  proof (cases p)
    case (Inl e)
    then have "e \<noteq> Panicked"
      using prep prepare_boc_panics [OF 1(2)] by (metis fst_conv)
    then show ?thesis
      using 1(3) prep Inl by (auto simp: send_to_chain.simps [of X T ge env wallet actions r st])
  next
    case (Inr boc)
    let ?st = "st\<lparr>query_ids := tbl, posted := posted st @ [boc]\<rparr>"
    show ?thesis
    proof (cases "already_executed (at_answer (env 0) boc) \<and> next_retries r \<noteq> None")
      case False
      then show ?thesis
        using 1(3) prep Inr
        by (intro exI [of _ "[boc]"])
          (auto simp: send_to_chain.simps [of X T ge env wallet actions r st] already_executed_def Let_def
            split: sum.splits if_splits)
    next
      case True
      then obtain e r' where e: "at_answer (env 0) boc = Inl e" "str_contains e HIGHLOAD_WALLET_ALREADY_EXECUTED"
          and r': "next_retries r = Some r'"
        by (auto simp: already_executed_def split: sum.splits)
      have rec: "send_to_chain X T ge (env \<circ> Suc) wallet actions (Some r') ?st = (res, st')"
        using 1(3) prep Inr e r' by (simp add: send_to_chain.simps [of X T ge env wallet actions r st] Let_def)
      obtain bocs where b: "posted st' = posted ?st @ bocs" "locks st' = locks ?st"
          "length bocs \<le> Suc (retry_budget (Some r'))" "res \<noteq> Inl Panicked"
          "\<forall>i < length bocs - 1. already_executed (at_answer ((env \<circ> Suc) i) (bocs ! i))"
          "\<forall>resp. res = Inr resp \<longrightarrow> bocs \<noteq> [] \<and> at_answer ((env \<circ> Suc) (length bocs - 1)) (last bocs) = Inr resp"
        using 1(1) [OF prep [symmetric] Inr refl e r' 1(2) rec] by blast
      have "\<forall>i < length (boc # bocs) - 1. already_executed (at_answer (env i) ((boc # bocs) ! i))"
      proof (intro allI impI)
        fix i
        assume i: "i < length (boc # bocs) - 1"
        show "already_executed (at_answer (env i) ((boc # bocs) ! i))"
          using i True b(5) by (cases i) auto
      qed
      moreover have "length (boc # bocs) \<le> Suc (retry_budget r)"
        using b(3) next_retries_budget [OF r'] by simp
      moreover have "at_answer (env (length (boc # bocs) - 1)) (last (boc # bocs)) = Inr resp" if "res = Inr resp" for resp
        using b(6) that by (auto simp: Suc_pred)
      ultimately show ?thesis
        using b(1, 2, 4) by (intro exI [of _ "boc # bocs"]) simp
    qed
  qed
qed


lemma send_and_report_run:
  assumes "send_and_report X T ge env mid chain wallet [act] st = (res, st')"
  shows "locks st' = locks st" and "res \<noteq> Inl Panicked"
  using send_to_chain_run [of "[act]" X T ge env wallet None st] assms
  by (auto simp: send_and_report_def split: prod.splits sum.splits exn.splits)

lemma execute_block_run:
  assumes "execute_block X T B env task a bytes wallet st = (res, st')"
  shows "locks st' = locks st \<and> res \<noteq> Inl Panicked"
  using assms send_and_report_run [of X T "b_gas_estimator B" "attempts env" _ _ wallet _ st]
  by (auto simp: execute_block_def execute_action_def and_then_eq_Inl_iff map_err_eq_Inl_iff split: sum.splits)

lemma refund_block_run:
  assumes "refund_block X T B env boc wallet st = (res, st')"
  shows "locks st' = locks st \<and> res \<noteq> Inl Panicked"
  using assms send_to_chain_run [of "[_]" X T "b_gas_estimator B" "attempts env" wallet None st]
  by (fastforce simp: refund_block_def split: sum.splits exn.splits prod.splits)

section \<open>Wallets are given back\<close>

text \<open>
  How a handler leaves the lock store: untouched, as a failed \<open>acquire\<close> left it, or with the
  lock of the acquired wallet released.
\<close>

definition gives_back ::
    "crates \<Rightarrow> 'r redis \<Rightarrow> ton_broadcaster \<Rightarrow> broadcast_env \<Rightarrow> 'r \<Rightarrow> 'r \<Rightarrow> bool" where
  "gives_back X R B env r r' \<longleftrightarrow>
     r' = r
     \<or> (\<exists>e. acquire X (redis_lock R (acquire_at env)) (b_wallets B) r = (Inl e, r'))
     \<or> (\<exists>w r1. acquire X (redis_lock R (acquire_at env)) (b_wallets B) r = (Inr w, r1)
          \<and> r' = release X (redis_unlock R (release_at env)) w r1)"

lemma gives_back_same [simp]: "gives_back X R B env r r"
  by (simp add: gives_back_def)

lemma with_wallet_gives_back:
  assumes run: "with_wallet X R B env block st = (res, st')"
    and block: "\<And>w s r s'. block w s = (r, s') \<Longrightarrow> locks s' = locks s \<and> r \<noteq> Inl Panicked"
  shows "gives_back X R B env (locks st) (locks st')"
proof -
  obtain a r where acq: "acquire X (redis_lock R (acquire_at env)) (b_wallets B) (locks st) = (a, r)"
    by fastforce
  show ?thesis
  proof (cases a)
    case (Inl e)
    then show ?thesis
      using run acq by (auto simp: with_wallet_def gives_back_def)
  next
    case (Inr w)
    obtain x s where b: "block w (st\<lparr>locks := r\<rparr>) = (x, s)" by fastforce
    then have "locks s = r" "x \<noteq> Inl Panicked"
      using block [OF b] by simp_all
    then show ?thesis
      using run acq Inr b by (auto simp: with_wallet_def gives_back_def)
  qed
qed

lemma prover_gives_back:
  assumes run: "broadcast_prover_message X T R B env blob st = (res, st')"
  shows "gives_back X R B env (locks st) (locks st')"
proof -
  have "gives_back X R B env (locks st) (locks st')"
    if "with_wallet X R B env (\<lambda>w. send_and_report X T (b_gas_estimator B) (attempts env) i c w [act]) st = (res, st')"
    for i c act
    by (rule with_wallet_gives_back [OF that]) (use send_and_report_run in metis)
  then show ?thesis
    using run by (auto simp: broadcast_prover_message_def split: sum.splits prod.splits)
qed

lemma execute_gives_back:
  assumes run: "broadcast_execute_message X T R B env task st = (res, st')"
  shows "gives_back X R B env (locks st) (locks st')"
proof -
  have "gives_back X R B env (locks st) (locks st')"
    if "with_wallet X R B env (execute_block X T B env task a bytes) st = (res, st')" for a bytes
    by (rule with_wallet_gives_back [OF that]) (use execute_block_run in metis)
  then show ?thesis
    using run by (auto simp: broadcast_execute_message_def split: sum.splits prod.splits if_splits)
qed

lemma refund_gives_back:
  assumes run: "broadcast_refund_message X T R B env task st = (res, st')"
  shows "gives_back X R B env (locks st) (locks st')"
proof -
  have "gives_back X R B env (locks st) (locks st')"
    if "with_wallet X R B env (refund_block X T B env boc) st = (res, st')" for boc
    by (rule with_wallet_gives_back [OF that]) (use refund_block_run in metis)
  then show ?thesis
    using run by (auto simp: broadcast_refund_message_def split: sum.splits prod.splits)
qed

lemma released_not_held:
  assumes "redis_store R live" and "is_ok (fst (del_key R t (wallet_lock_key (address_to_string X (wallet_address w))) r))"
    and "t \<le> u"
  shows "redis_held live u (release X (redis_unlock R t) w r)
    = redis_held live u r - {address_to_string X (wallet_address w)}"
proof -
  obtain b r' where d: "del_key R t (wallet_lock_key (address_to_string X (wallet_address w))) r = (Inr b, r')"
    using assms(2) by (metis is_ok_iff prod.collapse)
  from redis_store.del_done [OF assms(1) d] assms(3) d show ?thesis
    by (auto simp: redis_held_def release_def redis_unlock_def)
qed

section \<open>Properties\<close>

text \<open>
  Claim C9: Whatever the three handlers return, the wallet they worked with is free again: a
  handler leaves the locks as they were, or as a refused \<open>acquire\<close> left them, or it had
  acquired a wallet and from the release on, if Redis answers the release, exactly the lock of
  that wallet is gone.\<close>

theorem broadcast_releases_wallet:
  assumes redis: "redis_store R live" and del: "\<forall>t k r. is_ok (fst (del_key R t k r))"
    and run: "st' = snd (broadcast_prover_message X T R B env blob st)
      \<or> st' = snd (broadcast_execute_message X T R B env task st)
      \<or> st' = snd (broadcast_refund_message X T R B env rtask st)"
  shows "locks st' = locks st
    \<or> (\<exists>e. acquire X (redis_lock R (acquire_at env)) (b_wallets B) (locks st) = (Inl e, locks st'))
    \<or> (\<exists>w r. acquire X (redis_lock R (acquire_at env)) (b_wallets B) (locks st) = (Inr w, r)
         \<and> (\<forall>u \<ge> release_at env. redis_held live u (locks st')
              = redis_held live u r - {address_to_string X (wallet_address w)}))"
proof -
  have "gives_back X R B env (locks st) (locks st')"
    using run
  proof (elim disjE)
    show "gives_back X R B env (locks st) (locks st')"
      if "st' = snd (broadcast_prover_message X T R B env blob st)"
      by (rule prover_gives_back [of X T R B env blob st "fst (broadcast_prover_message X T R B env blob st)"]) (simp add: that)
    show "gives_back X R B env (locks st) (locks st')"
      if "st' = snd (broadcast_execute_message X T R B env task st)"
      by (rule execute_gives_back [of X T R B env task st "fst (broadcast_execute_message X T R B env task st)"]) (simp add: that)
    show "gives_back X R B env (locks st) (locks st')"
      if "st' = snd (broadcast_refund_message X T R B env rtask st)"
      by (rule refund_gives_back [of X T R B env rtask st "fst (broadcast_refund_message X T R B env rtask st)"]) (simp add: that)
  qed
  moreover have "redis_held live u (release X (redis_unlock R (release_at env)) w r)
      = redis_held live u r - {address_to_string X (wallet_address w)}" if "u \<ge> release_at env" for u w r
    using released_not_held [OF redis _ that] del by blast
  ultimately show ?thesis
    unfolding gives_back_def by (elim disjE exE conjE) auto
qed

text \<open>
  Claim C10: Sending ends: a send of at most 254 actions posts at most twelve messages; it posts again only after the
  answer that the query id was already executed, and it reports success only with the
  response to its last post. The locks are not touched and nothing panics.\<close>

theorem send_to_chain_bounded:
  assumes "length actions \<le> 254" and "send_to_chain X T ge env wallet actions None st = (res, st')"
  shows "\<exists>bocs. posted st' = posted st @ bocs \<and> length bocs \<le> 12 \<and> locks st' = locks st \<and> \<not> panics res
    \<and> (\<forall>i. Suc i < length bocs \<longrightarrow>
         (\<exists>e. at_answer (env i) (bocs ! i) = Inl e \<and> str_contains e ''THROWIF 36''))
    \<and> (\<forall>resp. res = Inr resp \<longrightarrow> bocs \<noteq> [] \<and> at_answer (env (length bocs - 1)) (last bocs) = Inr resp)"
proof -
  obtain bocs where b: "posted st' = posted st @ bocs" "locks st' = locks st" "length bocs \<le> Suc (retry_budget None)"
      "res \<noteq> Inl Panicked" "\<forall>i < length bocs - 1. already_executed (at_answer (env i) (bocs ! i))"
      "\<forall>resp. res = Inr resp \<longrightarrow> bocs \<noteq> [] \<and> at_answer (env (length bocs - 1)) (last bocs) = Inr resp"
    using send_to_chain_run [OF assms] by blast
  have "\<exists>e. at_answer (env i) (bocs ! i) = Inl e \<and> str_contains e ''THROWIF 36''" if "Suc i < length bocs" for i
  proof -
    have "already_executed (at_answer (env i) (bocs ! i))" using that b(5) by simp
    then show ?thesis
      by (auto simp: already_executed_def HIGHLOAD_WALLET_ALREADY_EXECUTED_def split: sum.splits)
  qed
  then show ?thesis
    using b by (intro exI [of _ bocs]) (simp add: retry_budget_def panics_def)
qed

text \<open>
  A refund changes anything, takes a wallet or posts a message only for a native
  refund whose amount covers the refund's gas, and what is then encoded is the refund of the
  amount less that gas, to the recipient and under the transaction hash of the task.\<close>

theorem refund_pays_rest:
  assumes "broadcast_refund_message X T R B env task st = (res, st')" and "st' \<noteq> st"
  shows "\<exists>n m. rt_token_id task = None \<and> biguint_from_str X (rt_amount task) = Inr n
    \<and> unat (native_gas_refund_estimate (b_gas_estimator B)) \<le> n
    \<and> refund_message X B task = Inr m
    \<and> nr_amount m + unat (native_gas_refund_estimate (b_gas_estimator B)) = n
    \<and> address_from_hex_str X (rt_recipient task) = Inr (nr_address m)
    \<and> is_ok (native_refund_to_cell T m)"
proof -
  obtain m where m: "refund_message X B task = Inr m" "is_ok (native_refund_to_cell T m)"
    using assms
    by (auto simp: broadcast_refund_message_def is_ok_iff and_then_eq_Inr_iff map_err_eq_Inr_iff split: sum.splits)
  then show ?thesis
    by (auto simp: refund_message_def Let_def and_then_eq_Inr_iff map_err_eq_Inr_iff split: if_splits)
qed

text \<open>
  Claim C40: The refund handler hides the failure of its send: when every check passes and a
  wallet is acquired, an error of \<open>send_to_chain\<close> is answered with success and an empty
  transaction hash.\<close>

theorem refund_hides_send_error:
  assumes "refund_message X B task = Inr m" "native_refund_to_cell T m = Inr c" "to_boc_hex T c = Inr boc"
    and "acquire X (redis_lock R (acquire_at env)) (b_wallets B) (locks st) = (Inr w, r)"
    and "out_action T boc 10000000 (b_gas_service_address B) = Inr act"
    and "send_to_chain X T (b_gas_estimator B) (attempts env) w [act] None (st\<lparr>locks := r\<rparr>) = (Inl (Err e), st1)"
  shows "fst (broadcast_refund_message X T R B env task st) = Inr []"
  using assms
  by (simp add: broadcast_refund_message_def with_wallet_def refund_block_def REFUND_DUST_def)


section \<open>Witnesses\<close>

definition sample_gas_estimates :: gas_estimates where
  "sample_gas_estimates =
     \<lparr>native_gas_refund = 10, native_gas_refund_storage_slippage = 1, execute_send_min = 20, execute_base = 10,
      execute_payload = 1, execute_storage_slippage = 1, cfg_approve_send = 5, cfg_highload_wallet_send = 3,
      its_execute_minimum = 4\<rparr>"

definition sample_broadcaster :: ton_broadcaster where
  "sample_broadcaster =
     \<lparr>b_wallets = sample_entries, b_gateway_address = sample_std_address, b_gas_service_address = sample_std_address,
      b_chain_name = ''ton'', b_gas_estimator = sample_gas_estimates\<rparr>"

text \<open>An environment in which the database is down.\<close>

definition sample_outage :: broadcast_env where
  "sample_outage =
     \<lparr>acquire_at = 0, release_at = 1,
      attempts = (\<lambda>_. \<lparr>at_now = 0, at_unix = 0, at_read_ok = False, at_write_ok = False, at_answer = (\<lambda>_. Inl [])\<rparr>)\<rparr>"

definition sample_hex_tonlib :: "(rcell, rparser, rparser) tonlib" where
  "sample_hex_tonlib = (tree_tonlib (\<lambda>_. Inr (leaf [])))\<lparr>to_boc_hex := (\<lambda>_. Inr ''b5ee'')\<rparr>"

definition sample_broadcast_state :: "redis_mem broadcast_state" where
  "sample_broadcast_state = \<lparr>locks = Map.empty, query_ids = Map.empty, posted = []\<rparr>"

definition sample_execute_task :: execute_task where
  "sample_execute_task =
     \<lparr>et_message_id = ''0x1'', et_source_chain = ''axelar'', et_source_address = ''src'',
      et_destination_address = ''dst'', et_payload = ''payload'', et_available_gas = ''5''\<rparr>"

definition sample_refund_task :: refund_task where
  "sample_refund_task =
     \<lparr>rt_message_id = ''0xab'', rt_recipient = ''ab'', rt_token_id = None, rt_amount = ''100''\<rparr>"

lemmas broadcast_samples = sample_gas_estimates_def sample_broadcaster_def sample_outage_def sample_hex_tonlib_def
  sample_broadcast_state_def sample_execute_task_def sample_refund_task_def

lemma send_to_chain_bounded_witness:
  "length (posted (snd (send_to_chain sample_crates (tree_tonlib Inl) sample_gas_estimates
      (\<lambda>i. \<lparr>at_now = int i, at_unix = 1000, at_read_ok = True, at_write_ok = True, at_answer = (\<lambda>_. Inl ''THROWIF 36'')\<rparr>)
      (sample_wallet 65) [SendMsg 2 (leaf [])] None sample_broadcast_state))) \<le> 12"
proof -
  let ?env = "\<lambda>i. \<lparr>at_now = int i, at_unix = 1000, at_read_ok = True, at_write_ok = True,
    at_answer = (\<lambda>_. Inl ''THROWIF 36'')\<rparr>"
  obtain res st' where run: "send_to_chain sample_crates (tree_tonlib Inl) sample_gas_estimates ?env (sample_wallet 65)
      [SendMsg 2 (leaf [])] None sample_broadcast_state = (res, st')"
    by fastforce
  show ?thesis
    using send_to_chain_bounded [OF _ run] run by (auto simp: sample_broadcast_state_def)
qed

lemma broadcast_releases_wallet_witness:
  "let st = sample_broadcast_state;
       st' = snd (broadcast_refund_message sample_crates sample_hex_tonlib mem_redis sample_broadcaster sample_outage
               sample_refund_task st)
   in locks st' = locks st
      \<or> (\<exists>e. acquire sample_crates (redis_lock mem_redis 0) sample_entries (locks st) = (Inl e, locks st'))
      \<or> (\<exists>w r. acquire sample_crates (redis_lock mem_redis 0) sample_entries (locks st) = (Inr w, r)
           \<and> (\<forall>u \<ge> 1. redis_held mem_live u (locks st')
                = redis_held mem_live u r - {address_to_string sample_crates (wallet_address w)}))"
proof -
  have del: "\<forall>t k r. is_ok (fst (del_key mem_redis t k r))"
    by (simp add: mem_redis_def)
  show ?thesis
    using broadcast_releases_wallet [OF mem.redis_store_axioms del disjI2 [OF disjI2 [OF refl]],
        of sample_crates sample_hex_tonlib sample_broadcaster sample_outage sample_refund_task sample_broadcast_state]
    by (simp add: Let_def sample_outage_def sample_broadcaster_def)
qed

lemma sample_refund_message:
  "\<exists>m c. refund_message sample_crates sample_broadcaster sample_refund_task = Inr m \<and> nr_amount m = 89
     \<and> native_refund_to_cell sample_hex_tonlib m = Inr c"
proof -
  have "parse_nat ''100'' = Some 100"
    by (simp add: parse_nat_def digit_val_def)
  then have m: "refund_message sample_crates sample_broadcaster sample_refund_task
      = Inr \<lparr>nr_tx_hash = as_bytes ''ab'', nr_address = TonAddress 0 (as_bytes ''ab''), nr_amount = 89\<rparr>"
    by (simp add: refund_message_def broadcast_samples sample_crates_def strip_prefix_def native_gas_refund_estimate_def)
  show ?thesis
    by (intro exI conjI, rule m, simp)
      (simp add: native_refund_to_cell_def sample_hex_tonlib_def tree_tonlib_def rc_append_def rc_address_def rc_coins_def
        OP_NATIVE_REFUND_def as_bytes_def radix_digits.simps)
qed

lemma sample_acquire:
  "acquire sample_crates (redis_lock mem_redis 0) sample_entries Map.empty
     = (Inr (sample_wallet 65), [wallet_lock_key (sample_key 65) \<mapsto> LOCK_TTL])"
  by (simp add: sample_simps sample_key_def redis_lock_def mem_redis_def)

lemma sample_send_fails:
  "send_to_chain X T ge (attempts sample_outage) w acts None st
     = (Inl (Err (BroadcasterGenericError ''Query Id acquiring failed: DatabaseError'')), st)"
  by (simp add: send_to_chain.simps prepare_boc_def sample_outage_def wrapper_next_def get_query_id_def wrapper_error_debug_def)

lemma sample_out_action: "\<exists>act. out_action sample_hex_tonlib boc v a = Inr act"
  by (simp add: out_action_def sample_hex_tonlib_def tree_tonlib_def)

lemma refund_hides_send_error_witness:
  "fst (broadcast_refund_message sample_crates sample_hex_tonlib mem_redis sample_broadcaster sample_outage
      sample_refund_task sample_broadcast_state) = Inr []"
proof -
  obtain m c where m: "refund_message sample_crates sample_broadcaster sample_refund_task = Inr m"
      "native_refund_to_cell sample_hex_tonlib m = Inr c"
    using sample_refund_message by blast
  obtain act where act: "out_action sample_hex_tonlib ''b5ee'' 10000000 (b_gas_service_address sample_broadcaster) = Inr act"
    using sample_out_action by blast
  have acq: "acquire sample_crates (redis_lock mem_redis (acquire_at sample_outage)) (b_wallets sample_broadcaster)
      (locks sample_broadcast_state) = (Inr (sample_wallet 65), [wallet_lock_key (sample_key 65) \<mapsto> LOCK_TTL])"
    using sample_acquire by (simp add: broadcast_samples)
  show ?thesis
    by (rule refund_hides_send_error [OF m _ acq act sample_send_fails]) (simp add: sample_hex_tonlib_def)
qed

text \<open>A Redis that does not answer the release: the state after the handler is another one.\<close>

lemma refund_pays_rest_witness:
  "\<exists>n m. biguint_from_str sample_crates (rt_amount sample_refund_task) = Inr n \<and> n = 100
     \<and> refund_message sample_crates sample_broadcaster sample_refund_task = Inr m \<and> nr_amount m = 89"
proof -
  let ?R = "mem_redis\<lparr>del_key := \<lambda>t k r. (Inl ''down'', r)\<rparr>"
  obtain m c where m: "refund_message sample_crates sample_broadcaster sample_refund_task = Inr m"
      "native_refund_to_cell sample_hex_tonlib m = Inr c" "nr_amount m = 89"
    using sample_refund_message by blast
  obtain act where act: "out_action sample_hex_tonlib ''b5ee'' (unat REFUND_DUST) (b_gas_service_address sample_broadcaster)
      = Inr act"
    using sample_out_action by blast
  have acq: "acquire sample_crates (redis_lock ?R (acquire_at sample_outage)) (b_wallets sample_broadcaster)
      (locks sample_broadcast_state) = (Inr (sample_wallet 65), [wallet_lock_key (sample_key 65) \<mapsto> LOCK_TTL])"
  proof -
    have "redis_lock ?R = redis_lock mem_redis"
      by (simp add: redis_lock_def fun_eq_iff)
    then show ?thesis
      using sample_acquire by (simp add: broadcast_samples)
  qed
  have hex: "to_boc_hex sample_hex_tonlib c = Inr ''b5ee''"
    by (simp add: sample_hex_tonlib_def)
  obtain res st' where run: "broadcast_refund_message sample_crates sample_hex_tonlib ?R sample_broadcaster sample_outage
      sample_refund_task sample_broadcast_state = (res, st')"
    by fastforce
  have "locks st' = [wallet_lock_key (sample_key 65) \<mapsto> LOCK_TTL]"
    using run m(1, 2) hex act acq
    by (auto simp: broadcast_refund_message_def with_wallet_def refund_block_def sample_send_fails release_def redis_unlock_def)
  then have "locks st' (wallet_lock_key (sample_key 65)) \<noteq> locks sample_broadcast_state (wallet_lock_key (sample_key 65))"
    by (simp add: sample_broadcast_state_def)
  then have "st' \<noteq> sample_broadcast_state"
    by metis
  from refund_pays_rest [OF run this] m show ?thesis
    by (auto simp: sample_broadcaster_def sample_gas_estimates_def native_gas_refund_estimate_def)
qed

end
