(* ===== verification/Client.thy ===== *)
theory Client
  imports Broadcaster
begin

text \<open>
  The REST client of the TON indexer (\<open>src/src/client.rs\<close>) and the account check
  (\<open>src/src/check_accounts.rs\<close>). The HTTP exchange (\<open>reqwest\<close> with its retry middleware)
  and the JSON decoders derived by \<open>serde\<close> are fields of a parameter; the requests, the
  handling of the answers and the cleaning of the response text are the code's.
\<close>

section \<open>Cleaning of response text\<close>

text \<open>
  \<open>String::from_utf8_lossy\<close>: well-formed characters are kept and each maximal prefix of an
  ill-formed one becomes U+FFFD. \<open>utf8_step a r\<close> looks at a first byte \<open>a\<close> and the rest
  \<open>r\<close>: whether a character starts here, and how many bytes are taken. Past the end the
  bytes read as 0.
\<close>

definition byte_at :: "byte list \<Rightarrow> nat \<Rightarrow> byte" where
  "byte_at r i = (if i < length r then r ! i else 0)"

definition utf8_step :: "byte \<Rightarrow> byte list \<Rightarrow> bool \<times> nat" where
  "utf8_step a r =
     (let b = byte_at r 0; c = byte_at r 1; d = byte_at r 2 in
      if a < 0x80 then (True, 1)
      else if 0xC2 \<le> a \<and> a \<le> 0xDF then (if utf8_cont b then (True, 2) else (False, 1))
      else if 0xE0 \<le> a \<and> a \<le> 0xEF then
        (if \<not> utf8_lead3 a b then (False, 1) else if \<not> utf8_cont c then (False, 2) else (True, 3))
      else if 0xF0 \<le> a \<and> a \<le> 0xF4 then
        (if \<not> utf8_lead4 a b then (False, 1) else if \<not> utf8_cont c then (False, 2)
         else if \<not> utf8_cont d then (False, 3) else (True, 4))
      else (False, 1))"

definition REPLACEMENT :: "byte list" where
  "REPLACEMENT = [0xEF, 0xBF, 0xBD]"

lemma utf8_step_pos: "0 < snd (utf8_step a r)"
  by (simp add: utf8_step_def Let_def)

function lossy_chars :: "byte list \<Rightarrow> byte list list" where
  "lossy_chars [] = []"
| "lossy_chars (a # r) =
     (let (ok, n) = utf8_step a r
      in (if ok then take n (a # r) else REPLACEMENT) # lossy_chars (drop n (a # r)))"
  by pat_completeness auto
termination
proof (relation "measure length")
  fix a :: byte and r :: "byte list" and x :: "bool \<times> nat" and ok n
  assume "x = utf8_step a r" "(ok, n) = x"
  then have "0 < n" using utf8_step_pos [of a r] by (metis snd_conv)
  then show "(drop n (a # r), a # r) \<in> measure length" by simp
qed simp

text \<open>\<open>str::replace(pattern, "")\<close> on characters: from the left, without overlap.\<close>

function remove_all :: "'a list \<Rightarrow> 'a list \<Rightarrow> 'a list" where
  "remove_all pat xs =
     (case xs of [] \<Rightarrow> []
      | x # ys \<Rightarrow>
          if pat \<noteq> [] \<and> take (length pat) xs = pat then remove_all pat (drop (length pat) xs)
          else x # remove_all pat ys)"
  by pat_completeness auto
termination
  by (relation "measure (length \<circ> snd)") (auto simp: neq_Nil_conv)

declare remove_all.simps [simp del]

text \<open>\<open>char::is_control\<close>: the general category Cc, U+0000 to U+001F and U+007F to U+009F.\<close>

definition is_control :: "byte list \<Rightarrow> bool" where
  "is_control c =
     (case c of
        [b] \<Rightarrow> b < 0x20 \<or> b = 0x7F
      | [a, b] \<Rightarrow> a = 0xC2 \<and> 0x80 \<le> b \<and> b \<le> 0x9F
      | _ \<Rightarrow> False)"

definition readable :: "byte list \<Rightarrow> bool" where
  "readable c \<longleftrightarrow> \<not> is_control c \<or> c = [0x0A] \<or> c = [0x09]"

text \<open>The six characters of an escaped null in JSON: backslash, u and four zeros.\<close>

definition ESCAPED_NULL :: "byte list list" where
  "ESCAPED_NULL = map (\<lambda>b. [b]) [0x5C, 0x75, 0x30, 0x30, 0x30, 0x30]"

definition clean_json_string_full :: "byte list \<Rightarrow> string" where
  "clean_json_string_full input =
     str_of_bytes (concat (filter readable (remove_all ESCAPED_NULL (lossy_chars input))))"

section \<open>Requests and answers\<close>

datatype client_error = BadRequest string | BadResponse string | ConnectionFailed string

record http_request =
  rq_post :: bool
  rq_url :: string
  rq_api_key :: string
  rq_query :: "(string \<times> string) list"
  rq_boc :: "string option"

record http_response =
  rs_status :: nat
  rs_status_text :: string
  rs_body :: "string + byte list"

record web =
  http_send :: "http_request \<Rightarrow> string + http_response"
  body_text :: "byte list \<Rightarrow> string"
  parse_message_response :: "string \<Rightarrow> string + v3_message_response"
  parse_error_response :: "string \<Rightarrow> string + string"
  parse_traces_response :: "string \<Rightarrow> string + trace_rest list"
  parse_accounts_response :: "string \<Rightarrow> string + account_state list"

record ton_rpc_client =
  rpc_url :: string
  rpc_api_key :: string

definition trim_end_slashes :: "string \<Rightarrow> string" where
  "trim_end_slashes s = rev (dropWhile (\<lambda>c. c = CHR ''/'') (rev s))"

definition is_success :: "http_response \<Rightarrow> bool" where
  "is_success rs \<longleftrightarrow> 200 \<le> rs_status rs \<and> rs_status rs < 300"

definition handle_non_success_response :: "web \<Rightarrow> http_response \<Rightarrow> string \<Rightarrow> client_error" where
  "handle_non_success_response W rs text =
     (if rs_status rs = 400
      then (case parse_error_response W text of
              Inr err \<Rightarrow> BadRequest err
            | Inl err \<Rightarrow> BadResponse (''Invalid 400 body: '' @ err))
      else BadResponse (''Unexpected status '' @ rs_status_text rs @ '': '' @ text))"

definition post_v3_message :: "web \<Rightarrow> ton_rpc_client \<Rightarrow> string \<Rightarrow> client_error + v3_message_response" where
  "post_v3_message W cl boc =
     and_then (map_err ConnectionFailed (http_send W
       \<lparr>rq_post = True, rq_url = trim_end_slashes (rpc_url cl) @ ''/api/v3/message'', rq_api_key = rpc_api_key cl,
        rq_query = [], rq_boc = Some boc\<rparr>)) (\<lambda>response.
     and_then (map_err BadResponse (map_ok (body_text W) (rs_body response))) (\<lambda>text.
     if is_success response
     then map_err (\<lambda>e. BadResponse (''Failed to parse success response: '' @ e)) (parse_message_response W text)
     else Inl (handle_non_success_response W response text)))"

text \<open>The query of the traces: the cursor plus one, in wrapping arithmetic.\<close>

definition traces_query ::
    "crates \<Rightarrow> ton_address option \<Rightarrow> string list option \<Rightarrow> i64 option \<Rightarrow> (string \<times> string) list" where
  "traces_query X acc ids start =
     [(''limit'', ''100'')]
     @ (case acc of None \<Rightarrow> [] | Some a \<Rightarrow> [(''account'', address_to_string X a)])
     @ (case ids of None \<Rightarrow> [] | Some ts \<Rightarrow> map (\<lambda>t. (''trace_id'', t)) ts)
     @ (case start of None \<Rightarrow> [] | Some n \<Rightarrow> [(''start_lt'', i64_to_string (n + 1))])"

definition get_traces_for_account ::
    "crates \<Rightarrow> web \<Rightarrow> ton_rpc_client \<Rightarrow> ton_address option \<Rightarrow> string list option \<Rightarrow> i64 option
      \<Rightarrow> client_error + trace list" where
  "get_traces_for_account X W cl acc ids start =
     and_then (map_err ConnectionFailed (http_send W
       \<lparr>rq_post = False, rq_url = trim_end_slashes (rpc_url cl) @ ''/api/v3/traces'', rq_api_key = rpc_api_key cl,
        rq_query = traces_query X acc ids start, rq_boc = None\<rparr>)) (\<lambda>response.
     and_then (map_err BadResponse (rs_body response)) (\<lambda>raw_bytes.
     let clean_text = clean_json_string_full raw_bytes
     in if is_success response
        then map_err (\<lambda>e. BadResponse (''Failed to parse traces list: '' @ e))
               (map_ok traces_from_rest (parse_traces_response W clean_text))
        else Inl (handle_non_success_response W response clean_text)))"

definition get_account_states ::
    "crates \<Rightarrow> web \<Rightarrow> ton_rpc_client \<Rightarrow> ton_address list \<Rightarrow> client_error + account_state list" where
  "get_account_states X W cl addresses =
     and_then (map_err ConnectionFailed (http_send W
       \<lparr>rq_post = False, rq_url = trim_end_slashes (rpc_url cl) @ ''/api/v3/accountStates'', rq_api_key = rpc_api_key cl,
        rq_query = (''include_boc'', ''false'') # map (\<lambda>a. (''address'', address_to_string X a)) addresses,
        rq_boc = None\<rparr>)) (\<lambda>response.
     and_then (map_err BadResponse (map_ok (body_text W) (rs_body response))) (\<lambda>text.
     if is_success response
     then map_err (\<lambda>e. BadResponse (''Failed to parse account states: '' @ e)) (parse_accounts_response W text)
     else Inl (handle_non_success_response W response text)))"

section \<open>Account checks\<close>

datatype account_check_status = Valid | Inactive | InsufficientBalance u64 u64 | InvalidBalanceFormat

definition check_account_status :: "account_state \<Rightarrow> u64 \<Rightarrow> account_check_status" where
  "check_account_status acc min_balance =
     (case parse_u64 (balance acc) of
        None \<Rightarrow> InvalidBalanceFormat
      | Some b \<Rightarrow>
          if status acc \<noteq> ''active'' then Inactive
          else if b < min_balance then InsufficientBalance b min_balance
          else Valid)"

text \<open>One round of \<open>check_accounts\<close>: the verdicts it logs, or the error of the client.\<close>

definition check_accounts_round ::
    "(ton_address list \<Rightarrow> client_error + account_state list) \<Rightarrow> ton_address list \<Rightarrow> u64
      \<Rightarrow> client_error + (ton_address \<times> account_check_status) list" where
  "check_accounts_round client addresses min_balance =
     map_ok (map (\<lambda>acc. (state_address acc, check_account_status acc min_balance))) (client addresses)"

lemma check_account_status_valid:
  "check_account_status acc m = Valid \<longleftrightarrow>
     status acc = ''active'' \<and> (\<exists>b. parse_u64 (balance acc) = Some b \<and> m \<le> b)"
  by (auto simp: check_account_status_def split: option.splits)

section \<open>Characters\<close>

text \<open>The bytes of one well-formed character.\<close>

definition utf8_char :: "byte list \<Rightarrow> bool" where
  "utf8_char c \<longleftrightarrow> (case c of [] \<Rightarrow> False | a # r \<Rightarrow> utf8_step a r = (True, length c))"

lemma utf8_char_cases:
  assumes "utf8_char c"
  obtains a where "c = [a]" "a < 0x80"
  | a b where "c = [a, b]" "0xC2 \<le> a" "a \<le> 0xDF" "utf8_cont b"
  | a b d where "c = [a, b, d]" "0xE0 \<le> a" "a \<le> 0xEF" "utf8_lead3 a b" "utf8_cont d"
  | a b d e where "c = [a, b, d, e]" "0xF0 \<le> a" "a \<le> 0xF4" "utf8_lead4 a b" "utf8_cont d" "utf8_cont e"
proof (cases c)
  case Nil
  with assms show ?thesis by (simp add: utf8_char_def)
next
  case (Cons a r)
  show ?thesis
    using assms Cons that
    by (cases r; cases "tl r"; cases "tl (tl r)")
      (auto simp: utf8_char_def utf8_step_def byte_at_def Let_def not_le split: if_splits)
qed

lemma byte_ranges:
  fixes a :: byte
  shows "0xC2 \<le> a \<Longrightarrow> \<not> a < 0x80" "0xE0 \<le> a \<Longrightarrow> \<not> a < 0x80" "0xF0 \<le> a \<Longrightarrow> \<not> a < 0x80"
    "0xE0 \<le> a \<Longrightarrow> \<not> a \<le> 0xDF" "0xF0 \<le> a \<Longrightarrow> \<not> a \<le> 0xDF" "0xF0 \<le> a \<Longrightarrow> \<not> a \<le> 0xEF"
  by (simp_all add: word_le_nat_alt word_less_nat_alt)

lemma lead4_not_lead3: "0xF0 \<le> a \<Longrightarrow> \<not> utf8_lead3 a b"
  using byte_ranges(6) [of a] by (auto simp: utf8_lead3_def word_le_nat_alt word_less_nat_alt)

lemma utf8_valid_char: "utf8_char c \<Longrightarrow> utf8_valid (c @ r) = utf8_valid r"
  by (erule utf8_char_cases) (simp_all add: byte_ranges lead4_not_lead3)

lemma lossy_chars_char: "utf8_char c \<Longrightarrow> lossy_chars (c @ r) = c # lossy_chars r"
  by (erule utf8_char_cases) (simp_all add: utf8_step_def byte_at_def Let_def byte_ranges)

lemma utf8_char_taken:
  assumes "utf8_step a r = (True, n)"
  shows "utf8_char (take n (a # r))"
proof -
  have nul: "\<not> utf8_cont 0" "\<not> utf8_lead3 x 0" "\<not> utf8_lead4 x 0" for x
    by (simp_all add: utf8_cont_def utf8_lead3_def utf8_lead4_def)
  show ?thesis
    using assms
    by (cases r; cases "tl r"; cases "tl (tl r)")
      (auto simp: utf8_char_def utf8_step_def byte_at_def Let_def nul split: if_splits)
qed

lemma lossy_chars_valid: "list_all utf8_char (lossy_chars bs)"
proof (induction bs rule: lossy_chars.induct)
  case 1
  then show ?case by simp
next
  case (2 a r)
  obtain ok n where st: "utf8_step a r = (ok, n)" by fastforce
  have "utf8_char REPLACEMENT"
    by (simp add: REPLACEMENT_def utf8_char_def utf8_step_def byte_at_def utf8_lead3_def utf8_cont_def)
  then show ?case
    using 2 [OF refl st [symmetric]] st utf8_char_taken [of a r n] by auto
qed

lemma chars_of_concat: "list_all utf8_char cs \<Longrightarrow> lossy_chars (concat cs) = cs"
  by (induction cs) (auto simp: lossy_chars_char)

lemma concat_chars_valid: "list_all utf8_char cs \<Longrightarrow> utf8_valid (concat cs)"
  by (induction cs) (auto simp: utf8_valid_char)

lemma set_remove_all: "set (remove_all pat xs) \<subseteq> set xs"
proof (induction pat xs rule: remove_all.induct)
  case (1 pat xs)
  show ?case
  proof (cases xs)
    case Nil
    then show ?thesis by (simp add: remove_all.simps [of pat "[]"])
  next
    case (Cons x ys)
    show ?thesis
    proof (cases "pat \<noteq> [] \<and> take (length pat) xs = pat")
      case True
      then have "set (remove_all pat xs) \<subseteq> set (drop (length pat) xs)"
        using 1(1) [OF Cons True] Cons by (simp add: remove_all.simps [of pat "x # ys"])
      then show ?thesis using set_drop_subset by fast
    next
      case False
      then show ?thesis
        using 1(2) [OF Cons False] Cons by (auto simp: remove_all.simps [of pat "x # ys"])
    qed
  qed
qed

lemma lead_ranges:
  "utf8_lead3 a b \<Longrightarrow> 0xE0 \<le> a \<and> a \<le> 0xEF" "utf8_lead4 a b \<Longrightarrow> 0xF0 \<le> a \<and> a \<le> 0xF4"
  by (auto simp: utf8_lead3_def utf8_lead4_def word_le_nat_alt)

lemma utf8_valid_step:
  assumes valid: "utf8_valid (a # r)"
  shows "\<exists>n. utf8_step a r = (True, n) \<and> utf8_valid (drop n (a # r))"
proof (cases "a < 0x80")
  case True
  then show ?thesis using valid by (simp add: utf8_step_def)
next
  case high: False
  then obtain b r2 where r: "r = b # r2" using valid by (cases r) auto
  show ?thesis
  proof (cases "0xC2 \<le> a \<and> a \<le> 0xDF")
    case True
    then show ?thesis using valid high r by (simp add: utf8_step_def byte_at_def)
  next
    case two: False
    then obtain c r3 where r2: "r2 = c # r3" using valid high r by (cases r2) auto
    show ?thesis
    proof (cases "utf8_lead3 a b")
      case True
      then show ?thesis
        using valid high r r2 two lead_ranges(1) [OF True] by (auto simp: utf8_step_def byte_at_def)
    next
      case three: False
      then obtain d r4 where r3: "r3 = d # r4" using valid high r r2 two by (cases r3) auto
      then have four: "utf8_lead4 a b" "utf8_cont c" "utf8_cont d" "utf8_valid r4"
        using valid high r r2 two three by auto
      then show ?thesis
        using high r r2 r3 byte_ranges(5, 6) [of a] lead_ranges(2) [of a b] by (auto simp: utf8_step_def byte_at_def)
    qed
  qed
qed

lemma utf8_valid_chars: "utf8_valid bs \<Longrightarrow> concat (lossy_chars bs) = bs"
proof (induction bs rule: lossy_chars.induct)
  case 1
  then show ?case by simp
next
  case (2 a r)
  obtain n where st: "utf8_step a r = (True, n)" "utf8_valid (drop n (a # r))"
    using utf8_valid_step [OF 2(2)] by blast
  show ?case
    using 2(1) [OF refl st(1) [symmetric] st(2)] st by (simp add: append_take_drop_id del: take_Cons drop_Cons)
qed

text \<open>A pattern whose first character does not occur is not found.\<close>

lemma remove_all_absent: "p \<notin> set xs \<Longrightarrow> remove_all (p # ps) xs = xs"
proof (induction xs)
  case Nil
  then show ?case by (simp add: remove_all.simps [of _ "[]"])
next
  case (Cons x xs)
  then show ?case by (auto simp: remove_all.simps [of _ "x # xs"])
qed

section \<open>Properties\<close>

text \<open>
  Claim C32: Whatever bytes the indexer answers with, the cleaned text is well-formed UTF-8 whose
  characters contain no control character but newline and tab; and text that is well-formed,
  has no other control character and no backslash is passed on unchanged.\<close>

theorem clean_json_sound:
  "utf8_valid (as_bytes (clean_json_string_full input))
   \<and> list_all readable (lossy_chars (as_bytes (clean_json_string_full input)))
   \<and> (utf8_valid input \<and> list_all readable (lossy_chars input) \<and> [0x5C] \<notin> set (lossy_chars input)
        \<longrightarrow> as_bytes (clean_json_string_full input) = input)"
proof -
  let ?cs = "filter readable (remove_all ESCAPED_NULL (lossy_chars input))"
  have out: "as_bytes (clean_json_string_full input) = concat ?cs"
    by (simp add: clean_json_string_full_def)
  have chars: "list_all utf8_char ?cs"
    using lossy_chars_valid [of input] set_remove_all [of ESCAPED_NULL "lossy_chars input"]
    by (auto simp: list_all_iff)
  have "list_all readable ?cs"
    by (simp add: list_all_iff)
  moreover have "concat ?cs = input"
    if "utf8_valid input" "list_all readable (lossy_chars input)" "[0x5C] \<notin> set (lossy_chars input)"
  proof -
    have "remove_all ESCAPED_NULL (lossy_chars input) = lossy_chars input"
      using remove_all_absent [OF that(3)] by (simp add: ESCAPED_NULL_def)
    then have "?cs = lossy_chars input"
      using that(2) by (simp add: list_all_iff filter_id_conv)
    then show ?thesis
      using utf8_valid_chars [OF that(1)] by simp
  qed
  ultimately show ?thesis
    using out chars chars_of_concat [OF chars] concat_chars_valid [OF chars] by metis
qed

lemma clean_json_sound_witness:
  "as_bytes (clean_json_string_full [0x41, 0x42]) = [0x41, 0x42]
   \<and> utf8_valid (as_bytes (clean_json_string_full [0xFF, 0x01]))"
proof -
  have "lossy_chars [0x41, 0x42] = [[0x41], [0x42]]"
    by (simp add: utf8_step_def)
  then show ?thesis
    using clean_json_sound [of "[0x41, 0x42]"] clean_json_sound [of "[0xFF, 0x01]"]
    by (simp add: readable_def is_control_def)
qed

end
