(* ===== verification/Includer.thy ===== *)
theory Includer
  imports Client
begin

text \<open>
  The assembly of the broadcasting side: \<open>TONIncluder::new\<close>
  (\<open>src/src/includer.rs\<close>) with the part of \<open>TONConfig\<close> it reads (\<open>src/src/config.rs\<close>)
  and the refund manager (\<open>src/src/refund_manager.rs\<close>), which manages nothing: refunds go
  through the broadcaster. The worker that \<open>relayer_core\<close> builds around them is not part of
  the repository.
\<close>

section \<open>Configuration\<close>

record ton_config =
  cfg_chain_name :: string
  cfg_wallets :: "wallet_config list"
  ton_gateway :: string
  ton_gas_service :: string
  ton_its :: string
  ton_rpc :: string
  ton_api_key :: string
  cfg_gas_estimates :: gas_estimates

section \<open>Refund manager\<close>

datatype refund_manager_error = RefundManagerGenericError string

definition refund_manager_new :: "refund_manager_error + unit" where
  "refund_manager_new = Inr ()"

definition is_refund_manager_managed :: bool where
  "is_refund_manager_managed = False"

definition build_refund_tx ::
    "string \<Rightarrow> string \<Rightarrow> string \<Rightarrow> unit \<Rightarrow> refund_manager_error + (string \<times> string \<times> string) option" where
  "build_refund_tx recipient amount refund_id wallet = Inr None"

definition is_refund_processed :: "refund_task \<Rightarrow> string \<Rightarrow> refund_manager_error + bool" where
  "is_refund_processed refund_task refund_id = Inr False"

definition get_wallet_lock :: "refund_manager_error + unit" where
  "get_wallet_lock = Inr ()"

definition release_wallet_lock :: "unit \<Rightarrow> refund_manager_error + unit" where
  "release_wallet_lock wallet = Inr ()"

section \<open>Includer\<close>

text \<open>
  \<open>entries\<close> is the order in which the hash map of wallets yields its entries, and
  \<open>client_ok\<close> the outcome of building the HTTP client.
\<close>

definition includer_new ::
    "crates \<Rightarrow> (wallet_map \<Rightarrow> (ton_address \<times> ton_wallet_high_load_v3) list) \<Rightarrow> string + unit \<Rightarrow> ton_config
      \<Rightarrow> broadcaster_error exn + ton_broadcaster \<times> ton_rpc_client" where
  "includer_new X entries client_ok config =
     and_then (map_err (\<lambda>_. Panicked) (wallet_manager_new X (cfg_wallets config))) (\<lambda>wallets.
     and_then (map_err (\<lambda>e. Err (BroadcasterGenericError e)) client_ok) (\<lambda>_.
     and_then (map_err (\<lambda>e. Err (BroadcasterGenericError e)) (address_from_base64_url X (ton_gateway config)))
       (\<lambda>gateway_address.
     and_then (map_err (\<lambda>e. Err (BroadcasterGenericError e)) (address_from_base64_url X (ton_gas_service config)))
       (\<lambda>gas_service_address.
     Inr (\<lparr>b_wallets = entries wallets, b_gateway_address = gateway_address,
           b_gas_service_address = gas_service_address, b_chain_name = cfg_chain_name config,
           b_gas_estimator = cfg_gas_estimates config\<rparr>,
          \<lparr>rpc_url = ton_rpc config, rpc_api_key = ton_api_key config\<rparr>)))))"

text \<open>
  The wallets of an assembled broadcaster are those of the configuration, each under its own
  address, as the theorems on \<open>acquire\<close> require.
\<close>

lemma includer_wallets_keyed:
  assumes "includer_new X entries client_ok config = Inr (B, cl)"
    and "\<And>m. wallet_manager_new X (cfg_wallets config) = Inr m \<Longrightarrow> iterates (entries m) m"
  shows "distinct (map fst (b_wallets B)) \<and> (\<forall>(a, w) \<in> set (b_wallets B). wallet_address w = a)"
proof -
  obtain wallets where w: "wallet_manager_new X (cfg_wallets config) = Inr wallets" "b_wallets B = entries wallets"
    using assms(1) by (auto simp: includer_new_def and_then_eq_Inr_iff map_err_eq_Inr_iff)
  have "iterates (b_wallets B) wallets"
    using assms(2) w by simp
  then show ?thesis
    using iterates_keyed wallet_manager_new_keyed [OF w(1)] by (auto simp: iterates_def)
qed

lemma includer_new_panics_iff:
  "panics (includer_new X entries client_ok config) \<longleftrightarrow> \<not> is_ok (wallet_manager_new X (cfg_wallets config))"
  by (cases "wallet_manager_new X (cfg_wallets config)") (auto simp: includer_new_def)

end
