(* ===== verification/Tx_Parsers.thy ===== *)
theory Tx_Parsers
  imports Chain_Types Boc_Messages
begin

text \<open>
  The parsers of single transactions: \<open>src/src/transaction_parser/common.rs\<close> and the fourteen
  \<open>parser_*.rs\<close>. Each parser keeps the decoded log, the transaction, the only account it
  accepts and, for logs that may stand anywhere among the outgoing messages, the position of
  the log. \<open>check_match\<close> and \<open>parse\<close> update the parser, so they return it; \<open>key\<close>,
  \<open>event\<close> and \<open>message_id\<close> only read it. The event types of \<open>relayer_core\<close> appear with the
  fields the code fills in. The locale \<open>tx_parser\<close> is the contract of the trait \<open>Parser\<close>;
  the thirteen parsers of a single transaction are instances.
\<close>

section \<open>Events\<close>

record event_metadata =
  em_tx_id :: "string option"
  em_from_address :: "string option"
  em_finalized :: "bool option"
  em_source_context :: "(string \<times> string) list option"
  em_timestamp :: string

record 'm common_event_fields =
  ev_type :: string
  ev_event_id :: string
  ev_meta :: "'m option"

record amount =
  amt_token_id :: "string option"
  amt_amount :: string

record gateway_v2_message =
  gm_message_id :: string
  gm_source_chain :: string
  gm_source_address :: string
  gm_destination_address :: string
  gm_payload_hash :: string

record message_approved_metadata =
  mam_common_meta :: event_metadata
  mam_command_id :: "string option"

record message_executed_metadata =
  mem_common_meta :: event_metadata
  mem_command_id :: "string option"
  mem_child_message_ids :: "string list option"
  mem_revert_reason :: "string option"

record signers_rotated_metadata =
  srm_common_meta :: event_metadata
  srm_signers_hash :: "string option"
  srm_epoch :: "u64 option"

record interchain_token_definition =
  itd_id :: string
  itd_name :: string
  itd_symbol :: string
  itd_decimals :: u8

datatype message_execution_status = SUCCESSFUL | REVERTED

datatype cannot_execute_message_reason = InsufficientGas | ExecError

datatype event =
    Call "event_metadata common_event_fields" gateway_v2_message string string
  | MessageApproved "message_approved_metadata common_event_fields" gateway_v2_message amount
  | MessageExecuted "message_executed_metadata common_event_fields" string string message_execution_status amount
  | GasCredit "event_metadata common_event_fields" string string amount
  | GasRefunded "event_metadata common_event_fields" string string amount amount
  | CannotExecuteMessageV2 "event_metadata common_event_fields" string string cannot_execute_message_reason string
  | ITSInterchainTransfer "event_metadata common_event_fields" string string amount string string string
  | ITSInterchainTokenDeploymentStarted "event_metadata common_event_fields" string string interchain_token_definition
  | ITSLinkTokenStarted "event_metadata common_event_fields" string string string string string token_manager_type
  | ITSTokenMetadataRegistered "event_metadata common_event_fields" string string u8
  | SignersRotated "signers_rotated_metadata common_event_fields" string

section \<open>Errors\<close>

datatype transaction_parsing_error =
  BocParsing string | Message string | GasErr string | ITSWithoutPair string | Generic string

datatype ton_rpc_error = DataError string

definition ton_rpc_error_to_string :: "ton_rpc_error \<Rightarrow> string" where
  "ton_rpc_error_to_string e = (case e of DataError s \<Rightarrow> ''DataError: '' @ s)"

type_synonym 'a parsed = "transaction_parsing_error exn + 'a"

section \<open>common.rs\<close>

definition is_log_emmitted_in_opcode :: "transaction \<Rightarrow> u32 \<Rightarrow> nat \<Rightarrow> bool parsed" where
  "is_log_emmitted_in_opcode tx op_code out_msg_log_index =
     Inr (case in_msg tx of
            None \<Rightarrow> False
          | Some m \<Rightarrow>
              (if opcode m = Some op_code
               then (case get_opt (out_msgs tx) out_msg_log_index of
                       None \<Rightarrow> False
                     | Some msg \<Rightarrow> destination msg = None)
               else False))"

fun log_index :: "u32 \<Rightarrow> nat \<Rightarrow> transaction_message list \<Rightarrow> int" where
  "log_index op_code i [] = -1"
| "log_index op_code i (msg # msgs) =
     (if destination msg = None \<and> opcode msg = Some op_code then int i else log_index op_code (Suc i) msgs)"

definition is_log_emitted :: "transaction \<Rightarrow> u32 \<Rightarrow> int parsed" where
  "is_log_emitted tx op_code = Inr (log_index op_code 0 (out_msgs tx))"

text \<open>\<open>to_lowercase\<close> of a string of hexadecimal digits\<close>

definition to_lowercase :: "string \<Rightarrow> string" where
  "to_lowercase s =
     map (\<lambda>c. if 65 \<le> (of_char c :: nat) \<and> (of_char c :: nat) \<le> 90 then char_of (of_char c + 32 :: nat) else c) s"

definition hash_to_message_id :: "crates \<Rightarrow> string \<Rightarrow> ton_rpc_error + string" where
  "hash_to_message_id X hash =
     and_then (map_err DataError (base64_decode X hash)) (\<lambda>bytes.
     Inr (''0x'' @ to_lowercase (hex_encode X bytes)))"

section \<open>The shape of a parser\<close>

record message_matching_key =
  key_destination_chain :: string
  key_destination_address :: string
  key_payload_hash :: "byte list"

record 'm log_parser =
  lp_log :: "'m option"
  lp_tx :: transaction
  lp_allowed :: ton_address

record 'm named_parser = "'m log_parser" +
  lp_chain_name :: string

record 'm pos_parser = "'m log_parser" +
  lp_position :: int

definition new_log_parser :: "transaction \<Rightarrow> ton_address \<Rightarrow> 'm log_parser" where
  "new_log_parser tx allowed = \<lparr>lp_log = None, lp_tx = tx, lp_allowed = allowed\<rparr>"

definition new_pos_parser :: "transaction \<Rightarrow> ton_address \<Rightarrow> 'm pos_parser" where
  "new_pos_parser tx allowed = \<lparr>lp_log = None, lp_tx = tx, lp_allowed = allowed, lp_position = -1\<rparr>"

text \<open>
  The recurring bodies: decode the body of a message into the log unless that is done already,
  take the log, check the account, look for a log at any position.
\<close>

definition parse_log ::
    "(string \<Rightarrow> boc_error + 'm) \<Rightarrow> transaction_message parsed \<Rightarrow> ('m, 'z) log_parser_scheme
      \<Rightarrow> bool parsed \<times> ('m, 'z) log_parser_scheme" where
  "parse_log decode msg p =
     (case lp_log p of
        Some _ \<Rightarrow> (Inr True, p)
      | None \<Rightarrow>
          (case and_then msg (\<lambda>m. map_err (\<lambda>e. Err (BocParsing (boc_error_to_string e)))
                  (decode (body (msg_content m)))) of
             Inl e \<Rightarrow> (Inl e, p)
           | Inr l \<Rightarrow> (Inr True, p\<lparr>lp_log := Some l\<rparr>)))"

definition parse_out_msg ::
    "(string \<Rightarrow> boc_error + 'm) \<Rightarrow> nat \<Rightarrow> ('m, 'z) log_parser_scheme \<Rightarrow> bool parsed \<times> ('m, 'z) log_parser_scheme" where
  "parse_out_msg decode i p = parse_log decode (index_or_panic (out_msgs (lp_tx p)) i) p"

text \<open>
  Parsers with a position answer \<open>false\<close> when no log was found; two of them compare the
  position with \<open>-1\<close> and would index out of range on any other negative position.
\<close>

definition parse_unless_minus_one ::
    "(string \<Rightarrow> boc_error + 'm) \<Rightarrow> 'm pos_parser \<Rightarrow> bool parsed \<times> 'm pos_parser" where
  "parse_unless_minus_one decode p =
     (if lp_position p = -1 then (Inr False, p)
      else parse_log decode
             (if lp_position p < 0 then Inl Panicked
              else index_or_panic (out_msgs (lp_tx p)) (nat (lp_position p))) p)"

definition parse_at_position ::
    "(string \<Rightarrow> boc_error + 'm) \<Rightarrow> 'm pos_parser \<Rightarrow> bool parsed \<times> 'm pos_parser" where
  "parse_at_position decode p =
     (if lp_position p < 0 then (Inr False, p) else parse_out_msg decode (nat (lp_position p)) p)"

definition take_log :: "('m, 'z) log_parser_scheme \<Rightarrow> 'm parsed" where
  "take_log p = ok_or (Err (Message ''Missing log'')) (lp_log p)"

definition check_in_opcode :: "u32 \<Rightarrow> nat \<Rightarrow> ('m, 'z) log_parser_scheme \<Rightarrow> bool parsed \<times> ('m, 'z) log_parser_scheme" where
  "check_in_opcode op i p =
     (if account (lp_tx p) \<noteq> lp_allowed p then (Inr False, p)
      else (is_log_emmitted_in_opcode (lp_tx p) op i, p))"

definition check_position :: "u32 \<Rightarrow> 'm pos_parser \<Rightarrow> bool parsed \<times> 'm pos_parser" where
  "check_position op p =
     (if account (lp_tx p) \<noteq> lp_allowed p then (Inr False, p)
      else (case is_log_emitted (lp_tx p) op of
              Inl e \<Rightarrow> (Inl e, p)
            | Inr pos \<Rightarrow> if 0 \<le> pos then (Inr True, p\<lparr>lp_position := pos\<rparr>) else (Inr False, p)))"

definition given_message_id :: "string option \<Rightarrow> string parsed" where
  "given_message_id mid = ok_or (Err (Message ''Missing message_id'')) mid"

definition own_message_id :: "string option parsed \<Rightarrow> string parsed" where
  "own_message_id mid = and_then mid (\<lambda>m. ok_or (Err (Message ''Missing message id'')) m)"

definition hash_message_id :: "crates \<Rightarrow> transaction \<Rightarrow> string option parsed" where
  "hash_message_id X tx =
     map_ok Some (map_err (\<lambda>e. Err (Message (ton_rpc_error_to_string e))) (hash_to_message_id X (tx_hash tx)))"

definition tx_meta :: "string \<Rightarrow> transaction \<Rightarrow> (string \<times> string) list option \<Rightarrow> event_metadata" where
  "tx_meta ts tx ctx =
     \<lparr>em_tx_id = Some (tx_hash tx), em_from_address = None, em_finalized = None, em_source_context = ctx,
      em_timestamp = ts\<rparr>"

definition native_amount :: "string \<Rightarrow> amount" where
  "native_amount a = \<lparr>amt_token_id = None, amt_amount = a\<rparr>"

section \<open>Gateway parsers\<close>

subsection \<open>parser\_call\_contract.rs\<close>

type_synonym parser_call_contract = "call_contract_message named_parser"

definition call_contract_new :: "transaction \<Rightarrow> ton_address \<Rightarrow> string \<Rightarrow> parser_call_contract" where
  "call_contract_new tx allowed chain_name =
     \<lparr>lp_log = None, lp_tx = tx, lp_allowed = allowed, lp_chain_name = chain_name\<rparr>"

definition call_contract_parse ::
    "crates \<Rightarrow> ('c, 'p, 'b) tonlib \<Rightarrow> parser_call_contract \<Rightarrow> bool parsed \<times> parser_call_contract" where
  "call_contract_parse X T = parse_out_msg (call_contract_from_boc_b64 X T) 0"

definition call_contract_check_match :: "parser_call_contract \<Rightarrow> bool parsed \<times> parser_call_contract" where
  "call_contract_check_match = check_in_opcode OP_CALL_CONTRACT 0"

definition call_contract_key :: "parser_call_contract \<Rightarrow> message_matching_key parsed" where
  "call_contract_key p =
     and_then (take_log p) (\<lambda>log.
     Inr \<lparr>key_destination_chain = ccm_destination_chain log,
          key_destination_address = ccm_destination_address log,
          key_payload_hash = ccm_payload_hash log\<rparr>)"

definition call_contract_message_id :: "crates \<Rightarrow> parser_call_contract \<Rightarrow> string option parsed" where
  "call_contract_message_id X p = hash_message_id X (lp_tx p)"

definition call_contract_event :: "crates \<Rightarrow> string \<Rightarrow> parser_call_contract \<Rightarrow> event parsed" where
  "call_contract_event X ts p =
     and_then (take_log p) (\<lambda>log.
     and_then (own_message_id (call_contract_message_id X p)) (\<lambda>message_id.
     let source_context =
       [(''source_address'', address_to_hex X (ccm_source_address log)),
        (''destination_address'', ccm_destination_address log),
        (''destination_chain'', ccm_destination_chain log)] in
     and_then (map_err (\<lambda>e. Err (BocParsing (''Failed to decode payload: '' @ e))) (hex_decode X (ccm_payload log)))
       (\<lambda>payload_bytes.
     Inr (Call \<lparr>ev_type = ''CALL'', ev_event_id = tx_hash (lp_tx p),
                ev_meta = Some (tx_meta ts (lp_tx p) (Some source_context))\<rparr>
               \<lparr>gm_message_id = message_id, gm_source_chain = lp_chain_name p,
                gm_source_address = address_to_hex X (ccm_source_address log),
                gm_destination_address = ccm_destination_address log,
                gm_payload_hash = base64_encode X (ccm_payload_hash log)\<rparr>
               (ccm_destination_chain log) (base64_encode X payload_bytes)))))"

subsection \<open>parser\_message\_approved.rs\<close>

type_synonym parser_message_approved = "ton_cc_message log_parser"

definition message_approved_parse ::
    "crates \<Rightarrow> ('c, 'p, 'b) tonlib \<Rightarrow> parser_message_approved \<Rightarrow> bool parsed \<times> parser_message_approved" where
  "message_approved_parse X T = parse_out_msg (cc_message_from_boc_b64 X T) 0"

definition message_approved_check_match :: "parser_message_approved \<Rightarrow> bool parsed \<times> parser_message_approved" where
  "message_approved_check_match = check_in_opcode OP_MESSAGE_APPROVED 0"

definition message_approved_key :: "parser_message_approved \<Rightarrow> message_matching_key parsed" where
  "message_approved_key p =
     and_then (take_log p) (\<lambda>log.
     Inr \<lparr>key_destination_chain = cc_destination_chain log,
          key_destination_address = cc_destination_address log,
          key_payload_hash = cc_payload_hash log\<rparr>)"

definition message_approved_event :: "crates \<Rightarrow> string \<Rightarrow> parser_message_approved \<Rightarrow> event parsed" where
  "message_approved_event X ts p =
     and_then (take_log p) (\<lambda>log.
     Inr (MessageApproved
            \<lparr>ev_type = ''MESSAGE_APPROVED'', ev_event_id = tx_hash (lp_tx p),
             ev_meta = Some \<lparr>mam_common_meta = tx_meta ts (lp_tx p) None, mam_command_id = None\<rparr>\<rparr>
            \<lparr>gm_message_id = cc_message_id log, gm_source_chain = cc_source_chain log,
             gm_source_address = cc_source_address log, gm_destination_address = cc_destination_address log,
             gm_payload_hash = hex_encode X (cc_payload_hash log)\<rparr>
            (native_amount ''0'')))"

subsection \<open>parser\_message\_executed.rs\<close>

type_synonym parser_message_executed = "nullified_message log_parser"

definition message_executed_parse ::
    "crates \<Rightarrow> ('c, 'p, 'b) tonlib \<Rightarrow> parser_message_executed \<Rightarrow> bool parsed \<times> parser_message_executed" where
  "message_executed_parse X T p =
     parse_log (nullified_from_boc_b64 X T)
       (ok_or (Err (Message ''Transaction has no in_msg'')) (in_msg (lp_tx p))) p"

definition message_executed_check_match :: "parser_message_executed \<Rightarrow> bool parsed \<times> parser_message_executed" where
  "message_executed_check_match p =
     (if account (lp_tx p) \<noteq> lp_allowed p then (Inr False, p)
      else
        (and_then (is_log_emmitted_in_opcode (lp_tx p) OP_NULLIFIED_SUCCESSFULLY 0) (\<lambda>first_log.
         and_then (if first_log then Inr (False, 1)
                   else and_then (is_log_emmitted_in_opcode (lp_tx p) OP_NULLIFIED_SUCCESSFULLY 1) (\<lambda>b. Inr (b, 0)))
           (\<lambda>(second_log, msg_idx).
         if \<not> second_log \<and> \<not> first_log then Inr False
         else Inr (case get_opt (out_msgs (lp_tx p)) msg_idx of
                     None \<Rightarrow> False
                   | Some out_msg \<Rightarrow> (case opcode out_msg of None \<Rightarrow> False | Some op \<Rightarrow> op = OP_GATEWAY_EXECUTE)))), p))"

definition message_executed_event :: "string \<Rightarrow> parser_message_executed \<Rightarrow> event parsed" where
  "message_executed_event ts p =
     and_then (take_log p) (\<lambda>log.
     Inr (MessageExecuted
            \<lparr>ev_type = ''MESSAGE_EXECUTED'', ev_event_id = tx_hash (lp_tx p),
             ev_meta = Some \<lparr>mem_common_meta = tx_meta ts (lp_tx p) None, mem_command_id = None,
               mem_child_message_ids = None, mem_revert_reason = None\<rparr>\<rparr>
            (nm_message_id log) (nm_source_chain log) SUCCESSFUL (native_amount ''0'')))"

subsection \<open>parser\_signers\_rotated.rs\<close>

type_synonym parser_signers_rotated = "log_signers_rotated_message pos_parser"

definition signers_rotated_parse ::
    "crates \<Rightarrow> ('c, 'p, 'b) tonlib \<Rightarrow> parser_signers_rotated \<Rightarrow> bool parsed \<times> parser_signers_rotated" where
  "signers_rotated_parse X T = parse_unless_minus_one (signers_rotated_from_boc_b64 X T)"

definition signers_rotated_check_match :: "parser_signers_rotated \<Rightarrow> bool parsed \<times> parser_signers_rotated" where
  "signers_rotated_check_match = check_position OP_SIGNERS_ROTATED_LOG"

definition signers_rotated_message_id :: "crates \<Rightarrow> parser_signers_rotated \<Rightarrow> string option parsed" where
  "signers_rotated_message_id X p = hash_message_id X (lp_tx p)"

definition signers_rotated_event :: "crates \<Rightarrow> string \<Rightarrow> parser_signers_rotated \<Rightarrow> event parsed" where
  "signers_rotated_event X ts p =
     and_then (own_message_id (signers_rotated_message_id X p)) (\<lambda>message_id.
     and_then (take_log p) (\<lambda>log.
     Inr (SignersRotated
            \<lparr>ev_type = ''SIGNERS_ROTATED'', ev_event_id = tx_hash (lp_tx p) @ ''-signers-rotated'',
             ev_meta = Some \<lparr>srm_common_meta = tx_meta ts (lp_tx p) None,
               srm_signers_hash = Some (sr_signers_hash log), srm_epoch = Some (sr_epoch log)\<rparr>\<rparr>
            message_id)))"

subsection \<open>parser\_execute\_insufficient\_gas.rs\<close>

text \<open>The only parser of a whole trace.\<close>

record parser_execute_insufficient_gas =
  eig_log :: "relayer_execute_wrapped_message option"
  eig_trace :: trace
  eig_allowed :: ton_address
  eig_chain_name :: string

definition insufficient_gas_new :: "trace \<Rightarrow> ton_address \<Rightarrow> string \<Rightarrow> parser_execute_insufficient_gas" where
  "insufficient_gas_new tr allowed chain_name =
     \<lparr>eig_log = None, eig_trace = tr, eig_allowed = allowed, eig_chain_name = chain_name\<rparr>"

definition insufficient_gas_parse ::
    "('c, 'p, 'b) tonlib \<Rightarrow> parser_execute_insufficient_gas \<Rightarrow> bool parsed \<times> parser_execute_insufficient_gas" where
  "insufficient_gas_parse T p =
     (case eig_log p of
        Some _ \<Rightarrow> (Inr True, p)
      | None \<Rightarrow>
          (case and_then (index_or_panic (transactions (eig_trace p)) 0) (\<lambda>tx.
                and_then (index_or_panic (out_msgs tx) 0) (\<lambda>m.
                map_err (\<lambda>e. Err (BocParsing (boc_error_to_string e)))
                  (relayer_execute_wrapped_from_boc_b64 T (body (msg_content m))))) of
             Inl e \<Rightarrow> (Inl e, p)
           | Inr l \<Rightarrow> (Inr True, p\<lparr>eig_log := Some l\<rparr>)))"

definition execute_failed_for_gas :: "ton_address \<Rightarrow> transaction list \<Rightarrow> bool" where
  "execute_failed_for_gas allowed txs \<longleftrightarrow>
     (case (get_opt txs 1, get_opt txs 2) of
        (Some tx1, Some tx2) \<Rightarrow>
          account tx2 = allowed
          \<and> length (out_msgs tx1) = 1
          \<and> (case get_opt (out_msgs tx1) 0 of
               None \<Rightarrow> 0
             | Some msg \<Rightarrow> (case opcode msg of None \<Rightarrow> 0 | Some op \<Rightarrow> op)) = OP_RELAYER_EXECUTE
          \<and> (case compute_ph (description tx2) of
               None \<Rightarrow> 0
             | Some ph \<Rightarrow> (case exit_code ph of None \<Rightarrow> 0 | Some c \<Rightarrow> c)) = EXIT_CODE_INSUFFICIENT_GAS
      | _ \<Rightarrow> False)"

definition nullified_without_funds :: "transaction list \<Rightarrow> bool" where
  "nullified_without_funds txs \<longleftrightarrow>
     (case (get_opt txs 3, get_opt txs 4) of
        (Some tx3, Some tx4) \<Rightarrow>
          length txs = 5 \<and> in_msg tx3 \<noteq> None
          \<and> (case in_msg tx4 of
               None \<Rightarrow> False
             | Some in_msg4 \<Rightarrow>
                 opcode in_msg4 = Some OP_NULLIFIED_SUCCESSFULLY
                 \<and> (case action (description tx4) of None \<Rightarrow> False | Some a \<Rightarrow> result_code a = 37))
      | _ \<Rightarrow> False)"

definition insufficient_gas_check_match ::
    "parser_execute_insufficient_gas \<Rightarrow> bool parsed \<times> parser_execute_insufficient_gas" where
  "insufficient_gas_check_match p =
     (let txs = transactions (eig_trace p) in
      (Inr (if execute_failed_for_gas (eig_allowed p) txs then True
            else if nullified_without_funds txs then True
            else False), p))"

definition insufficient_gas_event :: "parser_execute_insufficient_gas \<Rightarrow> event parsed" where
  "insufficient_gas_event p =
     and_then (ok_or (Err (Message ''Missing log'')) (eig_log p)) (\<lambda>log.
     Inr (CannotExecuteMessageV2
            \<lparr>ev_type = ''CANNOT_EXECUTE_MESSAGE/V2'',
             ev_event_id = ''cannot-execute-task-v2-'' @ i64_to_string (end_lt (eig_trace p)), ev_meta = None\<rparr>
            (rew_message_id log) (rew_source_chain log) InsufficientGas (trace_id (eig_trace p))))"


section \<open>Gas service parsers\<close>

definition gas_credit :: "crates \<Rightarrow> string \<Rightarrow> transaction \<Rightarrow> string \<Rightarrow> ton_address \<Rightarrow> amount \<Rightarrow> event" where
  "gas_credit X ts tx message_id refund_address payment =
     GasCredit \<lparr>ev_type = ''GAS_CREDIT'', ev_event_id = tx_hash tx @ ''-gas'', ev_meta = Some (tx_meta ts tx None)\<rparr>
       message_id (address_to_hex X refund_address) payment"

subsection \<open>parser\_native\_gas\_paid.rs\<close>

type_synonym parser_native_gas_paid = "native_gas_paid_message log_parser"

definition native_gas_paid_parse ::
    "('c, 'p, 'b) tonlib \<Rightarrow> parser_native_gas_paid \<Rightarrow> bool parsed \<times> parser_native_gas_paid" where
  "native_gas_paid_parse T = parse_out_msg (native_gas_paid_from_boc_b64 T) 0"

definition native_gas_paid_check_match :: "parser_native_gas_paid \<Rightarrow> bool parsed \<times> parser_native_gas_paid" where
  "native_gas_paid_check_match p =
     (if account (lp_tx p) \<noteq> lp_allowed p then (Inr False, p)
      else
        (and_then (is_log_emmitted_in_opcode (lp_tx p) OP_PAY_NATIVE_GAS_FOR_CONTRACT_CALL 0) (\<lambda>b.
         if b then Inr True else is_log_emmitted_in_opcode (lp_tx p) OP_PAY_GAS 0), p))"

definition native_gas_paid_key :: "parser_native_gas_paid \<Rightarrow> message_matching_key parsed" where
  "native_gas_paid_key p =
     and_then (take_log p) (\<lambda>log.
     Inr \<lparr>key_destination_chain = ngp_destination_chain log,
          key_destination_address = ngp_destination_address log,
          key_payload_hash = ngp_payload_hash log\<rparr>)"

definition native_gas_paid_event ::
    "crates \<Rightarrow> string \<Rightarrow> string option \<Rightarrow> parser_native_gas_paid \<Rightarrow> event parsed" where
  "native_gas_paid_event X ts mid p =
     and_then (given_message_id mid) (\<lambda>message_id.
     and_then (take_log p) (\<lambda>log.
     Inr (gas_credit X ts (lp_tx p) message_id (ngp_refund_address log)
            (native_amount (nat_to_string (ngp_msg_value log))))))"

subsection \<open>parser\_native\_gas\_added.rs\<close>

type_synonym parser_native_gas_added = "native_gas_added_message log_parser"

definition native_gas_added_parse ::
    "('c, 'p, 'b) tonlib \<Rightarrow> parser_native_gas_added \<Rightarrow> bool parsed \<times> parser_native_gas_added" where
  "native_gas_added_parse T = parse_out_msg (native_gas_added_from_boc_b64 T) 0"

definition native_gas_added_check_match :: "parser_native_gas_added \<Rightarrow> bool parsed \<times> parser_native_gas_added" where
  "native_gas_added_check_match = check_in_opcode OP_ADD_NATIVE_GAS 0"

definition native_gas_added_message_id :: "crates \<Rightarrow> parser_native_gas_added \<Rightarrow> string option parsed" where
  "native_gas_added_message_id X p =
     and_then (take_log p) (\<lambda>log. Inr (Some (''0x'' @ tonhash_to_string X (nga_tx_hash log))))"

definition native_gas_added_event :: "crates \<Rightarrow> string \<Rightarrow> parser_native_gas_added \<Rightarrow> event parsed" where
  "native_gas_added_event X ts p =
     and_then (take_log p) (\<lambda>log.
     and_then (own_message_id (native_gas_added_message_id X p)) (\<lambda>message_id.
     Inr (gas_credit X ts (lp_tx p) message_id (nga_refund_address log)
            (native_amount (nat_to_string (nga_msg_value log))))))"

subsection \<open>parser\_jetton\_gas\_paid.rs\<close>

type_synonym parser_jetton_gas_paid = "jetton_gas_paid_message log_parser"

text \<open>The check of both jetton parsers also decodes the log.\<close>

definition check_jetton ::
    "(string \<Rightarrow> boc_error + 'm) \<Rightarrow> 'm log_parser \<Rightarrow> bool parsed \<times> 'm log_parser" where
  "check_jetton decode p =
     (if account (lp_tx p) \<noteq> lp_allowed p then (Inr False, p)
      else
        (and_then (is_log_emmitted_in_opcode (lp_tx p) OP_TRANSFER_NOTIFICATION 0) (\<lambda>candidate.
         if \<not> candidate then Inr False
         else and_then (index_or_panic (out_msgs (lp_tx p)) 0) (\<lambda>m.
              Inr (is_ok (decode (body (msg_content m)))))), p))"

definition jetton_gas_paid_parse ::
    "('c, 'p, 'b) tonlib \<Rightarrow> parser_jetton_gas_paid \<Rightarrow> bool parsed \<times> parser_jetton_gas_paid" where
  "jetton_gas_paid_parse T = parse_out_msg (jetton_gas_paid_from_boc_b64 T) 0"

definition jetton_gas_paid_check_match ::
    "('c, 'p, 'b) tonlib \<Rightarrow> parser_jetton_gas_paid \<Rightarrow> bool parsed \<times> parser_jetton_gas_paid" where
  "jetton_gas_paid_check_match T = check_jetton (jetton_gas_paid_from_boc_b64 T)"

definition jetton_gas_paid_key :: "parser_jetton_gas_paid \<Rightarrow> message_matching_key parsed" where
  "jetton_gas_paid_key p =
     and_then (take_log p) (\<lambda>log.
     Inr \<lparr>key_destination_chain = jgp_destination_chain log,
          key_destination_address = jgp_destination_address log,
          key_payload_hash = jgp_payload_hash log\<rparr>)"

definition jetton_gas_paid_event ::
    "crates \<Rightarrow> string \<Rightarrow> string option \<Rightarrow> parser_jetton_gas_paid \<Rightarrow> event parsed" where
  "jetton_gas_paid_event X ts mid p =
     and_then (given_message_id mid) (\<lambda>message_id.
     and_then (take_log p) (\<lambda>log.
     Inr (gas_credit X ts (lp_tx p) message_id (jgp_refund_address log)
            \<lparr>amt_token_id = Some (address_to_hex X (jgp_minter log)), amt_amount = nat_to_string (jgp_amount log)\<rparr>)))"

subsection \<open>parser\_jetton\_gas\_added.rs\<close>

type_synonym parser_jetton_gas_added = "jetton_gas_added_message log_parser"

definition jetton_gas_added_parse ::
    "('c, 'p, 'b) tonlib \<Rightarrow> parser_jetton_gas_added \<Rightarrow> bool parsed \<times> parser_jetton_gas_added" where
  "jetton_gas_added_parse T = parse_out_msg (jetton_gas_added_from_boc_b64 T) 0"

definition jetton_gas_added_check_match ::
    "('c, 'p, 'b) tonlib \<Rightarrow> parser_jetton_gas_added \<Rightarrow> bool parsed \<times> parser_jetton_gas_added" where
  "jetton_gas_added_check_match T = check_jetton (jetton_gas_added_from_boc_b64 T)"

definition jetton_gas_added_message_id :: "crates \<Rightarrow> parser_jetton_gas_added \<Rightarrow> string option parsed" where
  "jetton_gas_added_message_id X p =
     and_then (take_log p) (\<lambda>log. Inr (Some (''0x'' @ tonhash_to_string X (jga_tx_hash log))))"

definition jetton_gas_added_event :: "crates \<Rightarrow> string \<Rightarrow> parser_jetton_gas_added \<Rightarrow> event parsed" where
  "jetton_gas_added_event X ts p =
     and_then (take_log p) (\<lambda>log.
     and_then (own_message_id (jetton_gas_added_message_id X p)) (\<lambda>message_id.
     Inr (gas_credit X ts (lp_tx p) message_id (jga_refund_address log)
            \<lparr>amt_token_id = Some (address_to_hex X (jga_minter log)), amt_amount = nat_to_string (jga_amount log)\<rparr>)))"

subsection \<open>parser\_native\_gas\_refunded.rs\<close>

type_synonym parser_native_gas_refunded = "native_gas_refunded_message log_parser"

definition native_gas_refunded_parse ::
    "('c, 'p, 'b) tonlib \<Rightarrow> parser_native_gas_refunded \<Rightarrow> bool parsed \<times> parser_native_gas_refunded" where
  "native_gas_refunded_parse T = parse_out_msg (native_gas_refunded_from_boc_b64 T) 1"

definition native_gas_refunded_check_match ::
    "parser_native_gas_refunded \<Rightarrow> bool parsed \<times> parser_native_gas_refunded" where
  "native_gas_refunded_check_match = check_in_opcode OP_NATIVE_REFUND 1"

definition native_gas_refunded_message_id :: "crates \<Rightarrow> parser_native_gas_refunded \<Rightarrow> string option parsed" where
  "native_gas_refunded_message_id X p =
     Inr (case lp_log p of
            Some log \<Rightarrow> Some (''0x'' @ tonhash_to_string X (ngr_tx_hash log))
          | None \<Rightarrow> None)"

definition native_gas_refunded_event :: "crates \<Rightarrow> parser_native_gas_refunded \<Rightarrow> event parsed" where
  "native_gas_refunded_event X p =
     and_then (take_log p) (\<lambda>log.
     and_then (own_message_id (native_gas_refunded_message_id X p)) (\<lambda>message_id.
     Inr (GasRefunded \<lparr>ev_type = ''GAS_REFUNDED'', ev_event_id = tx_hash (lp_tx p), ev_meta = None\<rparr>
            message_id (address_to_hex X (ngr_address log))
            (native_amount (nat_to_string (ngr_amount log))) (native_amount ''0''))))"

section \<open>Token service parsers\<close>

text \<open>An address as hexadecimal, with the prefix of the base work chain replaced by \<open>0x\<close>.\<close>

definition hex_without_workchain :: "crates \<Rightarrow> ton_address \<Rightarrow> string" where
  "hex_without_workchain X a =
     (case strip_prefix ''0:'' (address_to_hex X a) of
        Some rest \<Rightarrow> ''0x'' @ rest
      | None \<Rightarrow> address_to_hex X a)"

definition its_common :: "string \<Rightarrow> string \<Rightarrow> string \<Rightarrow> transaction \<Rightarrow> event_metadata common_event_fields" where
  "its_common ts typ suffix tx =
     \<lparr>ev_type = typ, ev_event_id = tx_hash tx @ suffix, ev_meta = Some (tx_meta ts tx None)\<rparr>"

subsection \<open>parser\_its\_token\_metadata\_registered.rs\<close>

type_synonym parser_its_token_metadata_registered = "token_metadata_registered_message log_parser"

definition its_metadata_parse ::
    "crates \<Rightarrow> ('c, 'p, 'b) tonlib \<Rightarrow> parser_its_token_metadata_registered
      \<Rightarrow> bool parsed \<times> parser_its_token_metadata_registered" where
  "its_metadata_parse X T = parse_out_msg (token_metadata_registered_from_boc_b64 X T) 0"

definition its_metadata_check_match ::
    "parser_its_token_metadata_registered \<Rightarrow> bool parsed \<times> parser_its_token_metadata_registered" where
  "its_metadata_check_match = check_in_opcode OP_REGISTER_TOKEN_METADATA 0"

definition its_metadata_event ::
    "crates \<Rightarrow> string \<Rightarrow> string option \<Rightarrow> parser_its_token_metadata_registered \<Rightarrow> event parsed" where
  "its_metadata_event X ts mid p =
     and_then (given_message_id mid) (\<lambda>message_id.
     and_then (take_log p) (\<lambda>log.
     Inr (ITSTokenMetadataRegistered (its_common ts ''ITS/TOKEN_METADATA_REGISTERED'' ''-its-metadata'' (lp_tx p))
            message_id (hex_without_workchain X (tm_address log)) (tm_decimals log))))"

subsection \<open>parser\_its\_interchain\_token\_deployment\_started.rs\<close>

type_synonym parser_its_deployment_started = "its_deployment_started_message pos_parser"

definition its_deployment_parse ::
    "crates \<Rightarrow> ('c, 'p, 'b) tonlib \<Rightarrow> parser_its_deployment_started \<Rightarrow> bool parsed \<times> parser_its_deployment_started" where
  "its_deployment_parse X T = parse_unless_minus_one (its_deployment_started_from_boc_b64 X T)"

definition its_deployment_check_match ::
    "parser_its_deployment_started \<Rightarrow> bool parsed \<times> parser_its_deployment_started" where
  "its_deployment_check_match = check_position OP_INTERCHAIN_TOKEN_DEPLOYMENT_STARTED_LOG"

definition its_deployment_event :: "string \<Rightarrow> string option \<Rightarrow> parser_its_deployment_started \<Rightarrow> event parsed" where
  "its_deployment_event ts mid p =
     and_then (given_message_id mid) (\<lambda>message_id.
     and_then (take_log p) (\<lambda>log.
     Inr (ITSInterchainTokenDeploymentStarted
            (its_common ts ''ITS/INTERCHAIN_TOKEN_DEPLOYMENT_STARTED'' ''-its-interchain-token-deployment-started'' (lp_tx p))
            message_id (ds_destination_chain log)
            \<lparr>itd_id = ''0x'' @ to_str_radix 16 (ds_token_id log), itd_name = ds_token_name log,
             itd_symbol = ds_token_symbol log, itd_decimals = ds_decimals log\<rparr>)))"

subsection \<open>parser\_its\_interchain\_transfer.rs\<close>

type_synonym parser_its_interchain_transfer = "its_interchain_transfer_message pos_parser"

definition its_transfer_parse ::
    "crates \<Rightarrow> ('c, 'p, 'b) tonlib \<Rightarrow> parser_its_interchain_transfer \<Rightarrow> bool parsed \<times> parser_its_interchain_transfer" where
  "its_transfer_parse X T = parse_at_position (its_interchain_transfer_from_boc_b64 X T)"

definition its_transfer_check_match ::
    "parser_its_interchain_transfer \<Rightarrow> bool parsed \<times> parser_its_interchain_transfer" where
  "its_transfer_check_match = check_position OP_INTERCHAIN_TRANSFER_LOG"

definition its_transfer_event ::
    "crates \<Rightarrow> string \<Rightarrow> string option \<Rightarrow> parser_its_interchain_transfer \<Rightarrow> event parsed" where
  "its_transfer_event X ts mid p =
     and_then (given_message_id mid) (\<lambda>message_id.
     and_then (take_log p) (\<lambda>log.
     Inr (ITSInterchainTransfer
            (its_common ts ''ITS/INTERCHAIN_TRANSFER'' ''-its-interchain-transfer'' (lp_tx p))
            message_id (it_destination_chain log)
            \<lparr>amt_token_id = Some (''0x'' @ to_str_radix 16 (it_token_id log)),
             amt_amount = nat_to_string (it_jetton_amount log)\<rparr>
            (address_to_hex X (it_sender_address log)) (it_destination_address log)
            (if it_data log = [] then replicate 32 (CHR ''0'') else nat_to_string (payload_hash X (it_data log))))))"

subsection \<open>parser\_its\_link\_token\_started.rs\<close>

type_synonym parser_its_link_token_started = "its_link_token_started_message pos_parser"

definition its_link_parse ::
    "crates \<Rightarrow> ('c, 'p, 'b) tonlib \<Rightarrow> parser_its_link_token_started \<Rightarrow> bool parsed \<times> parser_its_link_token_started" where
  "its_link_parse X T = parse_at_position (its_link_token_started_from_boc_b64 X T)"

definition its_link_check_match ::
    "parser_its_link_token_started \<Rightarrow> bool parsed \<times> parser_its_link_token_started" where
  "its_link_check_match = check_position OP_LINK_TOKEN_STARTED_LOG"

definition its_link_event ::
    "crates \<Rightarrow> string \<Rightarrow> string option \<Rightarrow> parser_its_link_token_started \<Rightarrow> event parsed" where
  "its_link_event X ts mid p =
     and_then (given_message_id mid) (\<lambda>message_id.
     and_then (take_log p) (\<lambda>log.
     Inr (ITSLinkTokenStarted
            (its_common ts ''ITS/LINK_TOKEN_STARTED'' ''-its-link-token-started'' (lp_tx p))
            message_id (''0x'' @ to_str_radix 16 (lt_token_id log)) (lt_destination_chain log)
            (hex_without_workchain X (lt_source_token_address log)) (lt_destination_token_address log)
            (lt_token_manager_type log))))"


section \<open>Running a parser\<close>

text \<open>
  The block \<open>if parser.check_match().await? { parser.parse().await?; \<dots> }\<close> that
  \<open>create_parsers\<close> repeats: the parser after a match, or nothing.
\<close>

definition try_parser :: "('s \<Rightarrow> bool parsed \<times> 's) \<Rightarrow> ('s \<Rightarrow> bool parsed \<times> 's) \<Rightarrow> 's \<Rightarrow> 's option parsed" where
  "try_parser check_match parse p =
     (case check_match p of
        (Inl e, _) \<Rightarrow> Inl e
      | (Inr matched, q) \<Rightarrow>
          if matched then (case parse q of (Inl e, _) \<Rightarrow> Inl e | (Inr _, r) \<Rightarrow> Inr (Some r)) else Inr None)"

text \<open>
  The contract of the trait \<open>Parser\<close>. A parser accepts some transactions of one account;
  \<open>source\<close> is the message that carries the log of an accepted transaction. The check answers
  for every transaction, and parsing after a match decodes that message and nothing else.
\<close>

locale tx_parser =
  fixes fresh :: "transaction \<Rightarrow> ('m, 'z) log_parser_scheme"
    and check_match parse :: "('m, 'z) log_parser_scheme \<Rightarrow> bool parsed \<times> ('m, 'z) log_parser_scheme"
    and decode :: "string \<Rightarrow> boc_error + 'm"
    and allowed :: ton_address
    and source :: "transaction \<Rightarrow> transaction_message option"
  assumes fresh_spec: "lp_log (fresh tx) = None" "lp_tx (fresh tx) = tx"
    and check_spec: "fst (check_match (fresh tx)) = Inr (source tx \<noteq> None)"
    and check_keeps: "lp_log (snd (check_match (fresh tx))) = None" "lp_tx (snd (check_match (fresh tx))) = tx"
    and parse_spec: "source tx = Some m \<Longrightarrow>
          parse (snd (check_match (fresh tx))) = parse_log decode (Inr m) (snd (check_match (fresh tx)))"
    and source_account: "source tx = Some m \<Longrightarrow> account tx = allowed"
    and source_message: "source tx = Some m \<Longrightarrow> m \<in> set (out_msgs tx) \<or> in_msg tx = Some m"
begin

lemma run_no_match: "source tx = None \<Longrightarrow> try_parser check_match parse (fresh tx) = Inr None"
  using check_spec [of tx] by (cases "check_match (fresh tx)") (simp add: try_parser_def)

lemma run_match:
  assumes "source tx = Some m"
  shows "try_parser check_match parse (fresh tx) =
    (case decode (body (msg_content m)) of
       Inl e \<Rightarrow> Inl (Err (BocParsing (boc_error_to_string e)))
     | Inr l \<Rightarrow> Inr (Some ((snd (check_match (fresh tx)))\<lparr>lp_log := Some l\<rparr>)))"
proof -
  obtain q where q: "check_match (fresh tx) = (Inr True, q)"
    using check_spec [of tx] assms by (cases "check_match (fresh tx)") auto
  then show ?thesis
    using parse_spec [OF assms] check_keeps [of tx]
    by (simp add: try_parser_def parse_log_def split: sum.splits)
qed

lemma run_never_panics: "\<not> panics (try_parser check_match parse (fresh tx))"
  by (cases "source tx") (simp_all add: run_no_match run_match split: sum.splits)

lemma run_result:
  assumes "try_parser check_match parse (fresh tx) = Inr (Some p)"
  shows "\<exists>m l. source tx = Some m \<and> decode (body (msg_content m)) = Inr l \<and> lp_log p = Some l \<and> lp_tx p = tx
    \<and> account tx = allowed"
proof (cases "source tx")
  case None
  with assms show ?thesis by (simp add: run_no_match)
next
  case (Some m)
  with assms show ?thesis
    using check_keeps [of tx] source_account [OF Some] by (auto simp: run_match split: sum.splits)
qed

end

text \<open>The transactions the three kinds of check accept, with the message that holds the log.\<close>

definition in_opcode_source :: "u32 set \<Rightarrow> nat \<Rightarrow> ton_address \<Rightarrow> transaction \<Rightarrow> transaction_message option" where
  "in_opcode_source ops i allowed tx =
     (if account tx = allowed \<and> (\<exists>m op. in_msg tx = Some m \<and> opcode m = Some op \<and> op \<in> ops)
      then (case get_opt (out_msgs tx) i of
              Some msg \<Rightarrow> if destination msg = None then Some msg else None
            | None \<Rightarrow> None)
      else None)"

definition position_source :: "u32 \<Rightarrow> ton_address \<Rightarrow> transaction \<Rightarrow> transaction_message option" where
  "position_source op allowed tx =
     (if account tx = allowed then find (\<lambda>m. destination m = None \<and> opcode m = Some op) (out_msgs tx) else None)"

definition jetton_source :: "(string \<Rightarrow> boc_error + 'm) \<Rightarrow> ton_address \<Rightarrow> transaction \<Rightarrow> transaction_message option" where
  "jetton_source decode allowed tx =
     (case in_opcode_source {OP_TRANSFER_NOTIFICATION} 0 allowed tx of
        Some m \<Rightarrow> if is_ok (decode (body (msg_content m))) then Some m else None
      | None \<Rightarrow> None)"

definition executed_source :: "ton_address \<Rightarrow> transaction \<Rightarrow> transaction_message option" where
  "executed_source allowed tx =
     (case in_msg tx of
        None \<Rightarrow> None
      | Some m \<Rightarrow>
          if account tx = allowed \<and> opcode m = Some OP_NULLIFIED_SUCCESSFULLY
             \<and> (case out_msgs tx of
                  a # b # _ \<Rightarrow> (destination a = None \<and> opcode b = Some OP_GATEWAY_EXECUTE)
                               \<or> (destination a \<noteq> None \<and> destination b = None \<and> opcode a = Some OP_GATEWAY_EXECUTE)
                | _ \<Rightarrow> False)
          then Some m else None)"

lemma log_index_find:
  "(find (\<lambda>m. destination m = None \<and> opcode m = Some op) msgs = None \<longrightarrow> log_index op i msgs = -1)
   \<and> (\<forall>m. find (\<lambda>m. destination m = None \<and> opcode m = Some op) msgs = Some m \<longrightarrow>
        int i \<le> log_index op i msgs \<and> nat (log_index op i msgs) - i < length msgs
        \<and> msgs ! (nat (log_index op i msgs) - i) = m)"
proof (induction msgs arbitrary: i)
  case (Cons a msgs)
  show ?case
  proof (cases "destination a = None \<and> opcode a = Some op")
    case False
    have "nat (log_index op (Suc i) msgs) - i = Suc (nat (log_index op (Suc i) msgs) - Suc i)"
      if "int (Suc i) \<le> log_index op (Suc i) msgs" using that by linarith
    with False Cons [of "Suc i"] show ?thesis by auto
  qed auto
qed simp

lemma check_position_fresh:
  "check_position op (new_pos_parser tx allowed) =
     (case position_source op allowed tx of
        None \<Rightarrow> (Inr False, new_pos_parser tx allowed)
      | Some m \<Rightarrow> (Inr True, (new_pos_parser tx allowed)\<lparr>lp_position := log_index op 0 (out_msgs tx)\<rparr>))"
  using log_index_find [of op "out_msgs tx" 0]
  by (auto simp: check_position_def position_source_def new_pos_parser_def is_log_emitted_def split: option.splits)

lemma position_source_index:
  assumes "position_source op allowed tx = Some m"
  shows "index_or_panic (out_msgs tx) (nat (log_index op 0 (out_msgs tx))) = (Inr m :: transaction_message parsed)" "0 \<le> log_index op 0 (out_msgs tx)"
  using assms log_index_find [of op "out_msgs tx" 0]
  by (auto simp: position_source_def index_or_panic_def split: if_splits)

lemma check_in_opcode_fresh:
  "check_in_opcode op i (new_log_parser tx allowed) =
     (Inr (in_opcode_source {op} i allowed tx \<noteq> None), new_log_parser tx allowed)"
  by (auto simp: check_in_opcode_def in_opcode_source_def new_log_parser_def is_log_emmitted_in_opcode_def
      split: option.splits)

lemma in_opcode_source_index:
  "in_opcode_source ops i allowed tx = Some m \<Longrightarrow> index_or_panic (out_msgs tx) i = (Inr m :: transaction_message parsed)
     \<and> m \<in> set (out_msgs tx) \<and> account tx = allowed"
  by (auto simp: in_opcode_source_def index_or_panic_def get_opt_eq_Some_iff split: option.splits if_splits)


lemma new_log_parser_sel [simp]:
  "lp_log (new_log_parser tx a) = None" "lp_tx (new_log_parser tx a) = tx" "lp_allowed (new_log_parser tx a) = a"
  by (simp_all add: new_log_parser_def)

lemma new_pos_parser_sel [simp]:
  "lp_log (new_pos_parser tx a) = None" "lp_tx (new_pos_parser tx a) = tx" "lp_allowed (new_pos_parser tx a) = a"
  by (simp_all add: new_pos_parser_def)

text \<open>A parser whose check leaves it as it was, and that reads one outgoing message.\<close>

lemma plain_tx_parser:
  assumes fresh: "\<And>tx. lp_log (fresh tx) = None" "\<And>tx. lp_tx (fresh tx) = tx"
    and check: "\<And>tx. check_match (fresh tx) = (Inr (source tx \<noteq> None), fresh tx)"
    and src: "\<And>tx m. source tx = Some m \<Longrightarrow>
      index_or_panic (out_msgs tx) i = (Inr m :: transaction_message parsed)
      \<and> m \<in> set (out_msgs tx) \<and> account tx = allowed"
  shows "tx_parser fresh check_match (parse_out_msg decode i) decode allowed source"
proof
  fix tx m
  assume s: "source tx = Some m"
  note i = src [OF s]
  then show "parse_out_msg decode i (snd (check_match (fresh tx))) = parse_log decode (Inr m) (snd (check_match (fresh tx)))"
    by (simp add: parse_out_msg_def check fresh)
  from i show "account tx = allowed" and "m \<in> set (out_msgs tx) \<or> in_msg tx = Some m" by simp_all
qed (simp_all add: fresh check)

lemma in_opcode_tx_parser:
  assumes "\<And>tx. lp_log (fresh tx) = None" "\<And>tx. lp_tx (fresh tx) = tx" "\<And>tx. lp_allowed (fresh tx) = allowed"
  shows "tx_parser fresh (check_in_opcode op i) (parse_out_msg decode i) decode allowed (in_opcode_source {op} i allowed)"
proof (rule plain_tx_parser)
  show "check_in_opcode op i (fresh tx) = (Inr (in_opcode_source {op} i allowed tx \<noteq> None), fresh tx)" for tx
    using assms
    by (auto simp: check_in_opcode_def in_opcode_source_def is_log_emmitted_in_opcode_def split: option.splits)
qed (use assms in_opcode_source_index in auto)

lemma position_source_message:
  "position_source op allowed tx = Some m \<Longrightarrow> m \<in> set (out_msgs tx) \<and> account tx = allowed"
  by (auto simp: position_source_def find_Some_iff split: if_splits)

lemma parse_found_position:
  assumes "position_source op allowed tx = Some m"
  defines "p \<equiv> (new_pos_parser tx allowed)\<lparr>lp_position := log_index op 0 (out_msgs tx)\<rparr>"
  shows "parse_at_position decode p = parse_log decode (Inr m) p"
    and "parse_unless_minus_one decode p = parse_log decode (Inr m) p"
  using position_source_index [OF assms(1)]
  by (simp_all add: p_def parse_at_position_def parse_unless_minus_one_def parse_out_msg_def new_pos_parser_def)

lemma position_tx_parser:
  assumes "\<And>tx m. position_source op allowed tx = Some m \<Longrightarrow>
    parse ((new_pos_parser tx allowed)\<lparr>lp_position := log_index op 0 (out_msgs tx)\<rparr>)
      = parse_log decode (Inr m) ((new_pos_parser tx allowed)\<lparr>lp_position := log_index op 0 (out_msgs tx)\<rparr>)"
  shows "tx_parser (\<lambda>tx. new_pos_parser tx allowed) (check_position op) parse decode allowed
     (position_source op allowed)"
proof
  fix tx m
  assume s: "position_source op allowed tx = Some m"
  show "parse (snd (check_position op (new_pos_parser tx allowed)))
      = parse_log decode (Inr m) (snd (check_position op (new_pos_parser tx allowed)))"
    by (simp add: check_position_fresh s assms [OF s])
  from position_source_message [OF s]
  show "account tx = allowed" and "m \<in> set (out_msgs tx) \<or> in_msg tx = Some m" by simp_all
qed (simp_all add: check_position_fresh split: option.splits)

lemma jetton_tx_parser:
  "tx_parser (\<lambda>tx. new_log_parser tx allowed) (check_jetton decode) (parse_out_msg decode 0) decode allowed
     (jetton_source decode allowed)"
proof (rule plain_tx_parser)
  show "index_or_panic (out_msgs tx) 0 = (Inr m :: transaction_message parsed) \<and> m \<in> set (out_msgs tx) \<and> account tx = allowed"
    if "jetton_source decode allowed tx = Some m" for tx m
    using that in_opcode_source_index by (auto simp: jetton_source_def split: option.splits if_splits)
  show "check_jetton decode (new_log_parser tx allowed)
      = (Inr (jetton_source decode allowed tx \<noteq> None), new_log_parser tx allowed)" for tx
    by (auto simp: check_jetton_def jetton_source_def in_opcode_source_def index_or_panic_def
        is_log_emmitted_in_opcode_def get_opt_def split: option.splits)
qed simp_all

section \<open>The parsers fulfil the contract\<close>

interpretation call_contract: tx_parser "\<lambda>tx. call_contract_new tx allowed chain_name"
    call_contract_check_match "call_contract_parse X T" "call_contract_from_boc_b64 X T" allowed
    "in_opcode_source {OP_CALL_CONTRACT} 0 allowed" for allowed chain_name X T
  unfolding call_contract_check_match_def call_contract_parse_def
  by (rule in_opcode_tx_parser) (simp_all add: call_contract_new_def)

interpretation message_approved: tx_parser "\<lambda>tx. new_log_parser tx allowed"
    message_approved_check_match "message_approved_parse X T" "cc_message_from_boc_b64 X T" allowed
    "in_opcode_source {OP_MESSAGE_APPROVED} 0 allowed" for allowed X T
  unfolding message_approved_check_match_def message_approved_parse_def
  by (rule in_opcode_tx_parser) simp_all

interpretation native_gas_added: tx_parser "\<lambda>tx. new_log_parser tx allowed"
    native_gas_added_check_match "native_gas_added_parse T" "native_gas_added_from_boc_b64 T" allowed
    "in_opcode_source {OP_ADD_NATIVE_GAS} 0 allowed" for allowed T
  unfolding native_gas_added_check_match_def native_gas_added_parse_def
  by (rule in_opcode_tx_parser) simp_all

interpretation native_gas_refunded: tx_parser "\<lambda>tx. new_log_parser tx allowed"
    native_gas_refunded_check_match "native_gas_refunded_parse T" "native_gas_refunded_from_boc_b64 T" allowed
    "in_opcode_source {OP_NATIVE_REFUND} 1 allowed" for allowed T
  unfolding native_gas_refunded_check_match_def native_gas_refunded_parse_def
  by (rule in_opcode_tx_parser) simp_all

interpretation its_metadata: tx_parser "\<lambda>tx. new_log_parser tx allowed"
    its_metadata_check_match "its_metadata_parse X T" "token_metadata_registered_from_boc_b64 X T" allowed
    "in_opcode_source {OP_REGISTER_TOKEN_METADATA} 0 allowed" for allowed X T
  unfolding its_metadata_check_match_def its_metadata_parse_def
  by (rule in_opcode_tx_parser) simp_all

interpretation jetton_gas_paid: tx_parser "\<lambda>tx. new_log_parser tx allowed"
    "jetton_gas_paid_check_match T" "jetton_gas_paid_parse T" "jetton_gas_paid_from_boc_b64 T" allowed
    "jetton_source (jetton_gas_paid_from_boc_b64 T) allowed" for allowed T
  unfolding jetton_gas_paid_check_match_def jetton_gas_paid_parse_def by (rule jetton_tx_parser)

interpretation jetton_gas_added: tx_parser "\<lambda>tx. new_log_parser tx allowed"
    "jetton_gas_added_check_match T" "jetton_gas_added_parse T" "jetton_gas_added_from_boc_b64 T" allowed
    "jetton_source (jetton_gas_added_from_boc_b64 T) allowed" for allowed T
  unfolding jetton_gas_added_check_match_def jetton_gas_added_parse_def by (rule jetton_tx_parser)

interpretation signers_rotated: tx_parser "\<lambda>tx. new_pos_parser tx allowed"
    signers_rotated_check_match "signers_rotated_parse X T" "signers_rotated_from_boc_b64 X T" allowed
    "position_source OP_SIGNERS_ROTATED_LOG allowed" for allowed X T
  unfolding signers_rotated_check_match_def signers_rotated_parse_def 
  by (rule position_tx_parser, erule parse_found_position)

interpretation its_deployment: tx_parser "\<lambda>tx. new_pos_parser tx allowed"
    its_deployment_check_match "its_deployment_parse X T" "its_deployment_started_from_boc_b64 X T" allowed
    "position_source OP_INTERCHAIN_TOKEN_DEPLOYMENT_STARTED_LOG allowed" for allowed X T
  unfolding its_deployment_check_match_def its_deployment_parse_def 
  by (rule position_tx_parser, erule parse_found_position)

interpretation its_transfer: tx_parser "\<lambda>tx. new_pos_parser tx allowed"
    its_transfer_check_match "its_transfer_parse X T" "its_interchain_transfer_from_boc_b64 X T" allowed
    "position_source OP_INTERCHAIN_TRANSFER_LOG allowed" for allowed X T
  unfolding its_transfer_check_match_def its_transfer_parse_def 
  by (rule position_tx_parser, erule parse_found_position)

interpretation its_link: tx_parser "\<lambda>tx. new_pos_parser tx allowed"
    its_link_check_match "its_link_parse X T" "its_link_token_started_from_boc_b64 X T" allowed
    "position_source OP_LINK_TOKEN_STARTED_LOG allowed" for allowed X T
  unfolding its_link_check_match_def its_link_parse_def 
  by (rule position_tx_parser, erule parse_found_position)

lemma native_gas_paid_check_fresh:
  "native_gas_paid_check_match (new_log_parser tx allowed) =
     (Inr (in_opcode_source {OP_PAY_NATIVE_GAS_FOR_CONTRACT_CALL, OP_PAY_GAS} 0 allowed tx \<noteq> None), new_log_parser tx allowed)"
  by (auto simp: native_gas_paid_check_match_def in_opcode_source_def new_log_parser_def is_log_emmitted_in_opcode_def
      split: option.splits)

interpretation native_gas_paid: tx_parser "\<lambda>tx. new_log_parser tx allowed"
    native_gas_paid_check_match "native_gas_paid_parse T" "native_gas_paid_from_boc_b64 T" allowed
    "in_opcode_source {OP_PAY_NATIVE_GAS_FOR_CONTRACT_CALL, OP_PAY_GAS} 0 allowed" for allowed T
  unfolding native_gas_paid_parse_def
  by (rule plain_tx_parser) (simp_all add: native_gas_paid_check_fresh in_opcode_source_index)

lemma message_executed_check_fresh:
  "message_executed_check_match (new_log_parser tx allowed) =
     (Inr (executed_source allowed tx \<noteq> None), new_log_parser tx allowed)"
  by (auto simp: message_executed_check_match_def executed_source_def new_log_parser_def get_opt_def
      is_log_emmitted_in_opcode_def nth_Cons' split: option.splits list.splits)

lemma executed_source_message:
  "executed_source allowed tx = Some m \<Longrightarrow> in_msg tx = Some m \<and> account tx = allowed"
  by (auto simp: executed_source_def split: option.splits if_splits)

interpretation message_executed: tx_parser "\<lambda>tx. new_log_parser tx allowed"
    message_executed_check_match "message_executed_parse X T" "nullified_from_boc_b64 X T" allowed
    "executed_source allowed" for allowed X T
  by unfold_locales
    (simp_all add: message_executed_check_fresh message_executed_parse_def executed_source_message)

end
