(* ===== verification/Trace_Parser.thy ===== *)
theory Trace_Parser
  imports Tx_Parsers Gas
begin

text \<open>
  From a trace to the events of the GMP API: \<open>src/src/transaction_parser/parser.rs\<close> and the
  price conversion of \<open>common.rs\<close>. \<open>create_parsers\<close> runs the parsers on every transaction
  in a fixed order, first match wins; \<open>parse_trace\<close> pairs contract calls with their gas
  payments and with the logs of the token service, and fills in the gas costs. The price feed
  and decimal arithmetic are parameters. Timestamps of one run are one argument.
\<close>

section \<open>Prices\<close>

text \<open>
  \<open>PriceViewTrait::get_price\<close> and the operations of \<open>rust_decimal\<close>; \<open>*\<close> and \<open>/\<close>
  panic on overflow and on a zero divisor, which is \<open>None\<close>.
\<close>

record 'd prices =
  get_price :: "string \<Rightarrow> string + 'd"
  decimal_from_str :: "string \<Rightarrow> string + 'd"
  decimal_mul :: "'d \<Rightarrow> 'd \<Rightarrow> 'd option"
  decimal_div :: "'d \<Rightarrow> 'd \<Rightarrow> 'd option"
  decimal_round :: "'d \<Rightarrow> 'd"
  decimal_to_string :: "'d \<Rightarrow> string"

definition or_panic :: "'a option \<Rightarrow> 'e exn + 'a" where
  "or_panic x = ok_or Panicked x"

definition gas_error_to_string :: "gas_error \<Rightarrow> string" where
  "gas_error_to_string e =
     (case e of ConversionError s \<Rightarrow> ''ConversionError: '' @ s | GasCalculationError s \<Rightarrow> ''GasCalculationError: '' @ s)"

definition convert_jetton_to_native :: "crates \<Rightarrow> 'd prices \<Rightarrow> string \<Rightarrow> nat \<Rightarrow> gas_error exn + nat" where
  "convert_jetton_to_native X D minter amount =
     and_then (map_err (\<lambda>e. Err (ConversionError e)) (get_price D (minter @ ''/USD''))) (\<lambda>coin_to_usd.
     and_then (map_err (\<lambda>e. Err (ConversionError e)) (get_price D ''TON/USD'')) (\<lambda>ton_to_usd.
     and_then (map_err (\<lambda>e. Err (ConversionError (''Invalid amount: '' @ e))) (decimal_from_str D (nat_to_string amount)))
       (\<lambda>amount.
     and_then (or_panic (decimal_mul D amount coin_to_usd)) (\<lambda>product.
     and_then (or_panic (decimal_div D product ton_to_usd)) (\<lambda>result.
     map_err (\<lambda>e. Err (ConversionError e)) (biguint_from_str X (decimal_to_string D (decimal_round D result))))))))"

section \<open>Parser objects\<close>

text \<open>\<open>Box<dyn Parser>\<close>: one constructor per implementation of the trait.\<close>

datatype dyn_parser =
    PExecuteInsufficientGas parser_execute_insufficient_gas
  | PCallContract parser_call_contract
  | PMessageExecuted parser_message_executed
  | PMessageApproved parser_message_approved
  | PNativeGasPaid parser_native_gas_paid
  | PNativeGasAdded parser_native_gas_added
  | PJettonGasAdded parser_jetton_gas_added
  | PJettonGasPaid parser_jetton_gas_paid
  | PNativeGasRefunded parser_native_gas_refunded
  | PITSTokenMetadataRegistered parser_its_token_metadata_registered
  | PITSInterchainTokenDeploymentStarted parser_its_deployment_started
  | PITSInterchainTransfer parser_its_interchain_transfer
  | PITSLinkTokenStarted parser_its_link_token_started
  | PSignersRotated parser_signers_rotated

text \<open>The methods of the trait; \<open>unimplemented!()\<close> panics.\<close>

fun parser_key :: "dyn_parser \<Rightarrow> message_matching_key parsed" where
  "parser_key (PCallContract p) = call_contract_key p"
| "parser_key (PMessageApproved p) = message_approved_key p"
| "parser_key (PNativeGasPaid p) = native_gas_paid_key p"
| "parser_key (PJettonGasPaid p) = jetton_gas_paid_key p"
| "parser_key _ = Inl Panicked"

fun parser_event :: "crates \<Rightarrow> string \<Rightarrow> string option \<Rightarrow> dyn_parser \<Rightarrow> event parsed" where
  "parser_event X ts mid (PExecuteInsufficientGas p) = insufficient_gas_event p"
| "parser_event X ts mid (PCallContract p) = call_contract_event X ts p"
| "parser_event X ts mid (PMessageExecuted p) = message_executed_event ts p"
| "parser_event X ts mid (PMessageApproved p) = message_approved_event X ts p"
| "parser_event X ts mid (PNativeGasPaid p) = native_gas_paid_event X ts mid p"
| "parser_event X ts mid (PNativeGasAdded p) = native_gas_added_event X ts p"
| "parser_event X ts mid (PJettonGasAdded p) = jetton_gas_added_event X ts p"
| "parser_event X ts mid (PJettonGasPaid p) = jetton_gas_paid_event X ts mid p"
| "parser_event X ts mid (PNativeGasRefunded p) = native_gas_refunded_event X p"
| "parser_event X ts mid (PITSTokenMetadataRegistered p) = its_metadata_event X ts mid p"
| "parser_event X ts mid (PITSInterchainTokenDeploymentStarted p) = its_deployment_event ts mid p"
| "parser_event X ts mid (PITSInterchainTransfer p) = its_transfer_event X ts mid p"
| "parser_event X ts mid (PITSLinkTokenStarted p) = its_link_event X ts mid p"
| "parser_event X ts mid (PSignersRotated p) = signers_rotated_event X ts p"

fun parser_message_id :: "crates \<Rightarrow> dyn_parser \<Rightarrow> string option parsed" where
  "parser_message_id X (PExecuteInsufficientGas p) = Inl Panicked"
| "parser_message_id X (PCallContract p) = call_contract_message_id X p"
| "parser_message_id X (PNativeGasAdded p) = native_gas_added_message_id X p"
| "parser_message_id X (PJettonGasAdded p) = jetton_gas_added_message_id X p"
| "parser_message_id X (PNativeGasRefunded p) = native_gas_refunded_message_id X p"
| "parser_message_id X (PSignersRotated p) = signers_rotated_message_id X p"
| "parser_message_id X _ = Inr None"

section \<open>create\_parsers\<close>

record trace_parser =
  tp_gateway_address :: ton_address
  tp_gas_service_address :: ton_address
  tp_its_address :: ton_address
  tp_our_addresses :: "ton_address list"
  tp_chain_name :: string

text \<open>The collections that \<open>create_parsers\<close> fills.\<close>

record parser_lists =
  pl_parsers :: "dyn_parser list"
  pl_call_contract :: "dyn_parser list"
  pl_gas_credit_map :: "message_matching_key \<rightharpoonup> dyn_parser"
  pl_its :: "dyn_parser list"
  pl_message_approved_count :: u64

definition no_parsers :: parser_lists where
  "no_parsers =
     \<lparr>pl_parsers = [], pl_call_contract = [], pl_gas_credit_map = Map.empty, pl_its = [],
      pl_message_approved_count = 0\<rparr>"

definition push_parser :: "dyn_parser \<Rightarrow> parser_lists \<Rightarrow> parser_lists" where
  "push_parser p ls = ls\<lparr>pl_parsers := pl_parsers ls @ [p]\<rparr>"

definition push_its :: "dyn_parser \<Rightarrow> parser_lists \<Rightarrow> parser_lists" where
  "push_its p ls = ls\<lparr>pl_its := pl_its ls @ [p]\<rparr>"

definition insert_gas_credit :: "dyn_parser \<Rightarrow> parser_lists \<Rightarrow> parser_lists parsed" where
  "insert_gas_credit p ls =
     and_then (parser_key p) (\<lambda>key. Inr (ls\<lparr>pl_gas_credit_map := (pl_gas_credit_map ls)(key \<mapsto> p)\<rparr>))"

text \<open>One parser of the chain: on a match the lists are updated and the loop continues.\<close>

definition or_else :: "'s option parsed \<Rightarrow> ('s \<Rightarrow> parser_lists parsed) \<Rightarrow> parser_lists parsed \<Rightarrow> parser_lists parsed" where
  "or_else attempt on_match rest = and_then attempt (\<lambda>r. case r of Some p \<Rightarrow> on_match p | None \<Rightarrow> rest)"

definition create_parsers_tx ::
    "crates \<Rightarrow> ('c, 'p, 'b) tonlib \<Rightarrow> trace_parser \<Rightarrow> transaction \<Rightarrow> parser_lists \<Rightarrow> parser_lists parsed" where
  "create_parsers_tx X T E tx ls =
     (let gateway = tp_gateway_address E; gas_service = tp_gas_service_address E; its = tp_its_address E in
      or_else (try_parser call_contract_check_match (call_contract_parse X T) (call_contract_new tx gateway (tp_chain_name E)))
        (\<lambda>p. Inr (ls\<lparr>pl_call_contract := pl_call_contract ls @ [PCallContract p]\<rparr>))
     (or_else (try_parser message_executed_check_match (message_executed_parse X T) (new_log_parser tx gateway))
        (\<lambda>p. Inr (push_parser (PMessageExecuted p) ls))
     (or_else (try_parser message_approved_check_match (message_approved_parse X T) (new_log_parser tx gateway))
        (\<lambda>p. Inr ((push_parser (PMessageApproved p) ls)
                   \<lparr>pl_message_approved_count := pl_message_approved_count ls + 1\<rparr>))
     (or_else (try_parser native_gas_paid_check_match (native_gas_paid_parse T) (new_log_parser tx gas_service))
        (\<lambda>p. insert_gas_credit (PNativeGasPaid p) ls)
     (or_else (try_parser native_gas_added_check_match (native_gas_added_parse T) (new_log_parser tx gas_service))
        (\<lambda>p. Inr (push_parser (PNativeGasAdded p) ls))
     (or_else (try_parser (jetton_gas_added_check_match T) (jetton_gas_added_parse T) (new_log_parser tx gas_service))
        (\<lambda>p. Inr (push_parser (PJettonGasAdded p) ls))
     (or_else (try_parser (jetton_gas_paid_check_match T) (jetton_gas_paid_parse T) (new_log_parser tx gas_service))
        (\<lambda>p. insert_gas_credit (PJettonGasPaid p) ls)
     (or_else (try_parser native_gas_refunded_check_match (native_gas_refunded_parse T) (new_log_parser tx gas_service))
        (\<lambda>p. Inr (push_parser (PNativeGasRefunded p) ls))
     (or_else (try_parser its_metadata_check_match (its_metadata_parse X T) (new_log_parser tx its))
        (\<lambda>p. Inr (push_its (PITSTokenMetadataRegistered p) ls))
     (or_else (try_parser its_deployment_check_match (its_deployment_parse X T) (new_pos_parser tx its))
        (\<lambda>p. Inr (push_its (PITSInterchainTokenDeploymentStarted p) ls))
     (or_else (try_parser its_transfer_check_match (its_transfer_parse X T) (new_pos_parser tx its))
        (\<lambda>p. Inr (push_its (PITSInterchainTransfer p) ls))
     (or_else (try_parser its_link_check_match (its_link_parse X T) (new_pos_parser tx its))
        (\<lambda>p. Inr (push_its (PITSLinkTokenStarted p) ls))
     (or_else (try_parser signers_rotated_check_match (signers_rotated_parse X T) (new_pos_parser tx gateway))
        (\<lambda>p. Inr (push_parser (PSignersRotated p) ls))
     (Inr ls))))))))))))))"

fun create_parsers_txs ::
    "crates \<Rightarrow> ('c, 'p, 'b) tonlib \<Rightarrow> trace_parser \<Rightarrow> transaction list \<Rightarrow> parser_lists \<Rightarrow> parser_lists parsed" where
  "create_parsers_txs X T E [] ls = Inr ls"
| "create_parsers_txs X T E (tx # txs) ls = and_then (create_parsers_tx X T E tx ls) (create_parsers_txs X T E txs)"

definition create_parsers ::
    "crates \<Rightarrow> ('c, 'p, 'b) tonlib \<Rightarrow> trace_parser \<Rightarrow> trace \<Rightarrow> parser_lists parsed" where
  "create_parsers X T E tr =
     and_then
       (try_parser insufficient_gas_check_match (insufficient_gas_parse T)
          (insufficient_gas_new tr (tp_gateway_address E) (tp_chain_name E))) (\<lambda>r.
     create_parsers_txs X T E (transactions tr)
       (case r of Some p \<Rightarrow> push_parser (PExecuteInsufficientGas p) no_parsers | None \<Rightarrow> no_parsers))"

section \<open>parse\_trace\<close>

definition gas_used :: "trace_parser \<Rightarrow> trace \<Rightarrow> (u64 \<times> u64) parsed" where
  "gas_used E tr =
     and_then (map_err (\<lambda>e. Err (GasErr (gas_error_to_string e)))
       (calc_message_gas (tp_our_addresses E) (transactions tr))) (\<lambda>total_gas_used.
     and_then (map_err (\<lambda>e. Err (GasErr (gas_error_to_string e)))
       (calc_message_gas_native_gas_refunded (tp_our_addresses E) (transactions tr))) (\<lambda>refund_gas_used.
     Inr (total_gas_used, refund_gas_used)))"

text \<open>The loop over the contract calls: each call, then its gas payment, taken from the map.\<close>

fun call_events ::
    "crates \<Rightarrow> string \<Rightarrow> dyn_parser list \<Rightarrow> (message_matching_key \<rightharpoonup> dyn_parser) \<Rightarrow> event list parsed" where
  "call_events X ts [] gas_credit_map = Inr []"
| "call_events X ts (cc # ccs) gas_credit_map =
     and_then (parser_key cc) (\<lambda>cc_key.
     and_then (parser_event X ts None cc) (\<lambda>call.
     case gas_credit_map cc_key of
       None \<Rightarrow> and_then (call_events X ts ccs gas_credit_map) (\<lambda>es. Inr (call # es))
     | Some parser \<Rightarrow>
         and_then (parser_message_id X cc) (\<lambda>mid.
         and_then (ok_or (Err (Message ''Missing message_id'')) mid) (\<lambda>message_id.
         and_then (parser_event X ts (Some message_id) parser) (\<lambda>credit.
         and_then (call_events X ts ccs (gas_credit_map(cc_key := None))) (\<lambda>es. Inr (call # credit # es)))))))"

text \<open>The loop over the token service logs, paired with the calls by index.\<close>

fun its_events :: "crates \<Rightarrow> string \<Rightarrow> dyn_parser list \<Rightarrow> nat \<Rightarrow> dyn_parser list \<Rightarrow> event list parsed" where
  "its_events X ts call_contract i [] = Inr []"
| "its_events X ts call_contract i (its_parser # rest) =
     (case get_opt call_contract i of
        Some contract_parser \<Rightarrow>
          and_then (parser_message_id X contract_parser) (\<lambda>message_id.
          and_then (parser_event X ts message_id its_parser) (\<lambda>e.
          and_then (its_events X ts call_contract (Suc i) rest) (\<lambda>es. Inr (e # es))))
      | None \<Rightarrow>
          Inl (Err (ITSWithoutPair (''No matching call_contract for ITS index '' @ nat_to_string i))))"

text \<open>One step of \<open>add_gas_used_and_convert\<close>.\<close>

definition convert_event :: "crates \<Rightarrow> 'd prices \<Rightarrow> u64 \<Rightarrow> u64 \<Rightarrow> u64 \<Rightarrow> event \<Rightarrow> event parsed" where
  "convert_event X D total_gas_used refund_gas_used message_approved_count e =
     (case e of
        GasCredit common mid refund payment \<Rightarrow>
          (case amt_token_id payment of
             None \<Rightarrow> Inr e
           | Some token_id \<Rightarrow>
               and_then (map_err (\<lambda>e. Err (Generic e)) (biguint_from_str X (amt_amount payment))) (\<lambda>amount.
               and_then
                 (case convert_jetton_to_native X D token_id amount of
                    Inl Panicked \<Rightarrow> Inl Panicked
                  | Inl (Err e) \<Rightarrow> Inl (Err (Generic (gas_error_to_string e)))
                  | Inr v \<Rightarrow> Inr v) (\<lambda>native.
               Inr (GasCredit common mid refund (native_amount (nat_to_string native))))))
      | MessageApproved common m c \<Rightarrow>
          Inr (MessageApproved common m (c\<lparr>amt_amount :=
            u64_to_string (if message_approved_count = 0 then 0 else total_gas_used div message_approved_count)\<rparr>))
      | MessageExecuted common mid chain st c \<Rightarrow>
          Inr (MessageExecuted common mid chain st (c\<lparr>amt_amount := u64_to_string total_gas_used\<rparr>))
      | GasRefunded common mid rcpt amount c \<Rightarrow>
          Inr (GasRefunded common mid rcpt amount (c\<lparr>amt_amount := u64_to_string refund_gas_used\<rparr>))
      | _ \<Rightarrow> Inr e)"

definition add_gas_used_and_convert ::
    "crates \<Rightarrow> 'd prices \<Rightarrow> u64 \<Rightarrow> u64 \<Rightarrow> u64 \<Rightarrow> event list \<Rightarrow> event list parsed" where
  "add_gas_used_and_convert X D total_gas_used refund_gas_used message_approved_count events =
     try_map (convert_event X D total_gas_used refund_gas_used message_approved_count) events"

definition parse_trace ::
    "crates \<Rightarrow> ('c, 'p, 'b) tonlib \<Rightarrow> 'd prices \<Rightarrow> trace_parser \<Rightarrow> string \<Rightarrow> trace \<Rightarrow> event list parsed" where
  "parse_trace X T D E ts tr =
     and_then (gas_used E tr) (\<lambda>(total_gas_used, refund_gas_used).
     and_then (create_parsers X T E tr) (\<lambda>ls.
     and_then (call_events X ts (pl_call_contract ls) (pl_gas_credit_map ls)) (\<lambda>calls.
     and_then (its_events X ts (pl_call_contract ls) 0 (pl_its ls)) (\<lambda>its.
     and_then (try_map (parser_event X ts None) (pl_parsers ls)) (\<lambda>others.
     add_gas_used_and_convert X D total_gas_used refund_gas_used (pl_message_approved_count ls)
       (calls @ its @ others))))))"


section \<open>What the parser lists hold\<close>

text \<open>
  A parser that matched has its log, and its transaction is one of the trace and of the account
  that the kind of parser is for.
\<close>

definition parsed_from :: "ton_address \<Rightarrow> transaction list \<Rightarrow> ('m, 'z) log_parser_scheme \<Rightarrow> bool" where
  "parsed_from a txs p \<longleftrightarrow> lp_log p \<noteq> None \<and> lp_tx p \<in> set txs \<and> account (lp_tx p) = a"

fun call_parser_ok :: "trace_parser \<Rightarrow> transaction list \<Rightarrow> dyn_parser \<Rightarrow> bool" where
  "call_parser_ok E txs (PCallContract p) = parsed_from (tp_gateway_address E) txs p"
| "call_parser_ok E txs _ = False"

fun credit_parser_ok :: "trace_parser \<Rightarrow> transaction list \<Rightarrow> dyn_parser \<Rightarrow> bool" where
  "credit_parser_ok E txs (PNativeGasPaid p) = parsed_from (tp_gas_service_address E) txs p"
| "credit_parser_ok E txs (PJettonGasPaid p) = parsed_from (tp_gas_service_address E) txs p"
| "credit_parser_ok E txs _ = False"

fun its_parser_ok :: "trace_parser \<Rightarrow> transaction list \<Rightarrow> dyn_parser \<Rightarrow> bool" where
  "its_parser_ok E txs (PITSTokenMetadataRegistered p) = parsed_from (tp_its_address E) txs p"
| "its_parser_ok E txs (PITSInterchainTokenDeploymentStarted p) = parsed_from (tp_its_address E) txs p"
| "its_parser_ok E txs (PITSInterchainTransfer p) = parsed_from (tp_its_address E) txs p"
| "its_parser_ok E txs (PITSLinkTokenStarted p) = parsed_from (tp_its_address E) txs p"
| "its_parser_ok E txs _ = False"

fun other_parser_ok :: "trace_parser \<Rightarrow> transaction list \<Rightarrow> dyn_parser \<Rightarrow> bool" where
  "other_parser_ok E txs (PExecuteInsufficientGas p) =
     (execute_failed_for_gas (tp_gateway_address E) txs \<or> nullified_without_funds txs)"
| "other_parser_ok E txs (PMessageExecuted p) = parsed_from (tp_gateway_address E) txs p"
| "other_parser_ok E txs (PMessageApproved p) = parsed_from (tp_gateway_address E) txs p"
| "other_parser_ok E txs (PSignersRotated p) = parsed_from (tp_gateway_address E) txs p"
| "other_parser_ok E txs (PNativeGasAdded p) = parsed_from (tp_gas_service_address E) txs p"
| "other_parser_ok E txs (PJettonGasAdded p) = parsed_from (tp_gas_service_address E) txs p"
| "other_parser_ok E txs (PNativeGasRefunded p) = parsed_from (tp_gas_service_address E) txs p"
| "other_parser_ok E txs _ = False"

fun is_approval :: "dyn_parser \<Rightarrow> bool" where
  "is_approval (PMessageApproved p) = True"
| "is_approval _ = False"

definition lists_ok :: "trace_parser \<Rightarrow> transaction list \<Rightarrow> parser_lists \<Rightarrow> bool" where
  "lists_ok E txs ls \<longleftrightarrow>
     (\<forall>p \<in> set (pl_call_contract ls). call_parser_ok E txs p)
     \<and> (\<forall>k p. pl_gas_credit_map ls k = Some p \<longrightarrow> credit_parser_ok E txs p \<and> parser_key p = Inr k)
     \<and> (\<forall>p \<in> set (pl_its ls). its_parser_ok E txs p)
     \<and> (\<forall>p \<in> set (pl_parsers ls). other_parser_ok E txs p)
     \<and> pl_message_approved_count ls = word_of_nat (length (filter is_approval (pl_parsers ls)))"

lemma or_elseE:
  assumes "or_else a f r = Inr ls"
  obtains p where "a = Inr (Some p)" "f p = Inr ls" | "a = Inr None" "r = Inr ls"
  using assms by (cases a; cases "projr a") (auto simp: or_else_def)

lemma or_else_panics:
  "\<not> panics a \<Longrightarrow> (\<And>p. \<not> panics (f p)) \<Longrightarrow> \<not> panics r \<Longrightarrow> \<not> panics (or_else a f r)"
  by (auto simp: or_else_def split: option.splits)

lemmas run_results = call_contract.run_result message_executed.run_result message_approved.run_result
  native_gas_paid.run_result native_gas_added.run_result jetton_gas_added.run_result jetton_gas_paid.run_result
  native_gas_refunded.run_result its_metadata.run_result its_deployment.run_result its_transfer.run_result
  its_link.run_result signers_rotated.run_result

lemmas runs_never_panic = call_contract.run_never_panics message_executed.run_never_panics
  message_approved.run_never_panics native_gas_paid.run_never_panics native_gas_added.run_never_panics
  jetton_gas_added.run_never_panics jetton_gas_paid.run_never_panics native_gas_refunded.run_never_panics
  its_metadata.run_never_panics its_deployment.run_never_panics its_transfer.run_never_panics
  its_link.run_never_panics signers_rotated.run_never_panics

lemma push_parser_ok:
  "lists_ok E txs ls \<Longrightarrow> other_parser_ok E txs p \<Longrightarrow> \<not> is_approval p \<Longrightarrow> lists_ok E txs (push_parser p ls)"
  by (auto simp: lists_ok_def push_parser_def)

lemma push_approval_ok:
  "lists_ok E txs ls \<Longrightarrow> other_parser_ok E txs p \<Longrightarrow> is_approval p \<Longrightarrow>
     lists_ok E txs ((push_parser p ls)\<lparr>pl_message_approved_count := pl_message_approved_count ls + 1\<rparr>)"
  by (auto simp: lists_ok_def push_parser_def)

lemma push_its_ok: "lists_ok E txs ls \<Longrightarrow> its_parser_ok E txs p \<Longrightarrow> lists_ok E txs (push_its p ls)"
  by (auto simp: lists_ok_def push_its_def)

lemma push_call_ok:
  "lists_ok E txs ls \<Longrightarrow> call_parser_ok E txs p \<Longrightarrow> lists_ok E txs (ls\<lparr>pl_call_contract := pl_call_contract ls @ [p]\<rparr>)"
  by (auto simp: lists_ok_def)

lemma insert_gas_credit_ok:
  "insert_gas_credit p ls = Inr ls' \<Longrightarrow> lists_ok E txs ls \<Longrightarrow> credit_parser_ok E txs p \<Longrightarrow> lists_ok E txs ls'"
  by (auto simp: lists_ok_def insert_gas_credit_def and_then_eq_Inr_iff split: if_splits)

lemma create_parsers_tx_ok:
  "create_parsers_tx X T E tx ls = Inr ls' \<Longrightarrow> lists_ok E txs ls \<Longrightarrow> tx \<in> set txs \<Longrightarrow> lists_ok E txs ls'"
  unfolding create_parsers_tx_def Let_def
  by (elim or_elseE; (drule run_results)?)
    (auto simp: parsed_from_def elim!: insert_gas_credit_ok
       intro!: push_parser_ok push_approval_ok push_its_ok push_call_ok)

lemma create_parsers_txs_ok:
  "create_parsers_txs X T E txs ls = Inr ls' \<Longrightarrow> lists_ok E all ls \<Longrightarrow> set txs \<subseteq> set all \<Longrightarrow> lists_ok E all ls'"
  by (induction txs arbitrary: ls) (auto simp: and_then_eq_Inr_iff dest: create_parsers_tx_ok)

lemma no_parsers_ok: "lists_ok E txs no_parsers"
  by (simp add: lists_ok_def no_parsers_def)

lemma insufficient_gas_run:
  assumes "try_parser insufficient_gas_check_match (insufficient_gas_parse T) (insufficient_gas_new tr a c) = Inr (Some p)"
  shows "execute_failed_for_gas a (transactions tr) \<or> nullified_without_funds (transactions tr)"
  using assms
  by (auto simp: try_parser_def insufficient_gas_check_match_def insufficient_gas_parse_def insufficient_gas_new_def
      Let_def split: sum.splits option.splits if_splits prod.splits)

lemma create_parsers_ok:
  assumes "create_parsers X T E tr = Inr ls"
  shows "lists_ok E (transactions tr) ls"
proof -
  obtain r where r: "try_parser insufficient_gas_check_match (insufficient_gas_parse T)
        (insufficient_gas_new tr (tp_gateway_address E) (tp_chain_name E)) = Inr r"
      and c: "create_parsers_txs X T E (transactions tr)
        (case r of Some p \<Rightarrow> push_parser (PExecuteInsufficientGas p) no_parsers | None \<Rightarrow> no_parsers) = Inr ls"
    using assms by (auto simp: create_parsers_def and_then_eq_Inr_iff)
  have "lists_ok E (transactions tr) (case r of Some p \<Rightarrow> push_parser (PExecuteInsufficientGas p) no_parsers | None \<Rightarrow> no_parsers)"
    using r by (auto intro!: push_parser_ok no_parsers_ok split: option.splits dest: insufficient_gas_run)
  with create_parsers_txs_ok [OF c] show ?thesis by simp
qed

section \<open>Panics\<close>

lemma take_log_no_panic [simp]: "\<not> panics (take_log p)"
  by (simp add: take_log_def)

lemma given_message_id_no_panic [simp]: "\<not> panics (given_message_id mid)"
  by (simp add: given_message_id_def)

lemma hash_message_id_no_panic [simp]: "\<not> panics (hash_message_id X tx)"
  by (cases "hash_to_message_id X (tx_hash tx)") (simp_all add: hash_message_id_def)

lemma own_message_id_no_panic [simp]: "\<not> panics mid \<Longrightarrow> \<not> panics (own_message_id mid)"
  by (simp add: own_message_id_def)

lemmas event_defs = call_contract_event_def message_executed_event_def message_approved_event_def
  native_gas_paid_event_def native_gas_added_event_def jetton_gas_added_event_def jetton_gas_paid_event_def
  native_gas_refunded_event_def its_metadata_event_def its_deployment_event_def its_transfer_event_def
  its_link_event_def signers_rotated_event_def insufficient_gas_event_def

lemmas message_id_defs = call_contract_message_id_def native_gas_added_message_id_def jetton_gas_added_message_id_def
  native_gas_refunded_message_id_def signers_rotated_message_id_def

lemma parser_event_no_panic [simp]: "\<not> panics (parser_event X ts mid p)"
  by (cases p) (simp_all add: event_defs message_id_defs Let_def)

lemma call_parser_no_panic:
  "call_parser_ok E txs p \<Longrightarrow> \<not> panics (parser_key p) \<and> \<not> panics (parser_message_id X p)"
  by (cases p) (simp_all add: call_contract_key_def message_id_defs)

lemma insert_gas_credit_no_panic:
  "\<not> panics (insert_gas_credit (PNativeGasPaid p) ls)" "\<not> panics (insert_gas_credit (PJettonGasPaid q) ls)"
  by (simp_all add: insert_gas_credit_def native_gas_paid_key_def jetton_gas_paid_key_def)

lemma create_parsers_tx_no_panic: "\<not> panics (create_parsers_tx X T E tx ls)"
  unfolding create_parsers_tx_def Let_def
  by (intro or_else_panics runs_never_panic insert_gas_credit_no_panic) simp_all

lemma create_parsers_txs_no_panic: "\<not> panics (create_parsers_txs X T E txs ls)"
  by (induction txs arbitrary: ls) (simp_all add: create_parsers_tx_no_panic)

lemma call_events_no_panic: "\<forall>p \<in> set ccs. call_parser_ok E txs p \<Longrightarrow> \<not> panics (call_events X ts ccs m)"
  by (induction ccs arbitrary: m) (auto simp: call_parser_no_panic split: option.splits)

lemma its_events_no_panic: "\<forall>p \<in> set ccs. call_parser_ok E txs p \<Longrightarrow> \<not> panics (its_events X ts ccs i ps)"
  by (induction ps arbitrary: i)
    (auto simp: get_opt_eq_Some_iff split: option.splits dest!: call_parser_no_panic [OF bspec [OF _ nth_mem]])

lemma try_map_no_panic: "(\<And>x. x \<in> set xs \<Longrightarrow> \<not> panics (f x)) \<Longrightarrow> \<not> panics (try_map f xs)"
  by (induction xs) simp_all

text \<open>The conversion of a jetton amount panics where the decimal arithmetic does.\<close>

definition conversion_panics :: "'d prices \<Rightarrow> string \<Rightarrow> nat \<Rightarrow> bool" where
  "conversion_panics D minter n \<longleftrightarrow>
     (\<exists>coin_to_usd ton_to_usd a.
        get_price D (minter @ ''/USD'') = Inr coin_to_usd \<and> get_price D ''TON/USD'' = Inr ton_to_usd
        \<and> decimal_from_str D (nat_to_string n) = Inr a
        \<and> (decimal_mul D a coin_to_usd = None
            \<or> (\<exists>product. decimal_mul D a coin_to_usd = Some product \<and> decimal_div D product ton_to_usd = None)))"

lemma or_panic_simps [simp]: "panics (or_panic x) \<longleftrightarrow> x = None" "or_panic x = Inr a \<longleftrightarrow> x = Some a"
  by (cases x; simp add: or_panic_def)+

lemma convert_jetton_panics: "panics (convert_jetton_to_native X D minter n) \<longleftrightarrow> conversion_panics D minter n"
  by (auto simp: convert_jetton_to_native_def conversion_panics_def map_err_eq_Inr_iff)

lemma convert_event_panics:
  assumes "panics (convert_event X D g r n e)"
  obtains c mid refund payment tok m where "e = GasCredit c mid refund payment" "amt_token_id payment = Some tok"
    "biguint_from_str X (amt_amount payment) = Inr m" "conversion_panics D tok m"
proof (cases e)
  case (GasCredit c mid refund payment)
  with assms obtain tok m where tok: "amt_token_id payment = Some tok" "biguint_from_str X (amt_amount payment) = Inr m"
      "panics (case convert_jetton_to_native X D tok m of Inl Panicked \<Rightarrow> Inl Panicked
         | Inl (Err e) \<Rightarrow> Inl (Err (Generic (gas_error_to_string e))) | Inr v \<Rightarrow> Inr v)"
    by (auto simp: convert_event_def map_err_eq_Inr_iff split: option.splits)
  from this(3) have "panics (convert_jetton_to_native X D tok m)"
    by (auto simp: panics_def split: sum.splits exn.splits)
  with that GasCredit tok show thesis by (simp add: convert_jetton_panics)
qed (use assms in \<open>simp_all add: convert_event_def\<close>)


lemma gas_used_ok: "\<exists>total refund. gas_used E tr = Inr (total, refund)
    \<and> calc_message_gas (tp_our_addresses E) (transactions tr) = Inr total
    \<and> calc_message_gas_native_gas_refunded (tp_our_addresses E) (transactions tr) = Inr refund"
  by (simp add: gas_used_def calc_message_gas_def calc_message_gas_native_gas_refunded_def cost_def Let_def
      split: option.splits)

text \<open>When the parser of failed executions accepts a trace.\<close>

definition insufficient_gas_matches :: "trace_parser \<Rightarrow> trace \<Rightarrow> bool" where
  "insufficient_gas_matches E tr \<longleftrightarrow>
     execute_failed_for_gas (tp_gateway_address E) (transactions tr) \<or> nullified_without_funds (transactions tr)"

lemma insufficient_gas_matches_nonempty: "insufficient_gas_matches E tr \<Longrightarrow> transactions tr \<noteq> []"
  by (auto simp: insufficient_gas_matches_def execute_failed_for_gas_def nullified_without_funds_def)

lemma insufficient_gas_panics:
  "panics (try_parser insufficient_gas_check_match (insufficient_gas_parse T)
       (insufficient_gas_new tr (tp_gateway_address E) c))
     \<longleftrightarrow> insufficient_gas_matches E tr \<and> out_msgs (hd (transactions tr)) = []"
proof (cases "insufficient_gas_matches E tr")
  case True
  then obtain tx txs where t: "transactions tr = tx # txs"
    using insufficient_gas_matches_nonempty by (meson list.exhaust)
  with True show ?thesis
    by (cases "out_msgs tx")
      (auto simp: try_parser_def insufficient_gas_check_match_def insufficient_gas_new_def Let_def
        insufficient_gas_matches_def insufficient_gas_parse_def index_or_panic_def map_err_eq_Inl_iff split: sum.splits)
next
  case False
  then show ?thesis
    by (simp add: try_parser_def insufficient_gas_check_match_def insufficient_gas_new_def Let_def
        insufficient_gas_matches_def)
qed

section \<open>The events of a trace\<close>

text \<open>Shape of the events: message ids of calls and of token service events.\<close>

fun call_id :: "event \<Rightarrow> string option" where
  "call_id (Call c m chain payload) = Some (gm_message_id m)"
| "call_id _ = None"

fun its_id :: "event \<Rightarrow> string option" where
  "its_id (ITSInterchainTransfer c mid ch a s d h) = Some mid"
| "its_id (ITSInterchainTokenDeploymentStarted c mid ch t) = Some mid"
| "its_id (ITSLinkTokenStarted c mid t ch s d ty) = Some mid"
| "its_id (ITSTokenMetadataRegistered c mid a d) = Some mid"
| "its_id _ = None"

fun approved_event :: "event \<Rightarrow> bool" where
  "approved_event (MessageApproved c m a) = True"
| "approved_event _ = False"

lemma map_filter_append: "List.map_filter f (xs @ ys) = List.map_filter f xs @ List.map_filter f ys"
  by (simp add: List.map_filter_def)

lemma convert_event_shape:
  assumes "convert_event X D g r n e = Inr e'"
  shows "call_id e' = call_id e" "its_id e' = its_id e" "approved_event e' = approved_event e"
  using assms by (auto simp: convert_event_def and_then_eq_Inr_iff split: event.splits option.splits)

lemma convert_events_shape:
  assumes "add_gas_used_and_convert X D g r n es = Inr es'"
  shows "List.map_filter call_id es' = List.map_filter call_id es"
    "List.map_filter its_id es' = List.map_filter its_id es"
    "length (filter approved_event es') = length (filter approved_event es)"
proof -
  from assms have "list_all2 (\<lambda>e e'. convert_event X D g r n e = Inr e') es es'"
    by (simp add: add_gas_used_and_convert_def try_map_eq_Inr_iff)
  then have "List.map_filter call_id es' = List.map_filter call_id es
    \<and> List.map_filter its_id es' = List.map_filter its_id es
    \<and> length (filter approved_event es') = length (filter approved_event es)"
    by (induction rule: list_all2_induct) (auto simp: convert_event_shape map_filter_simps split: option.splits)
  then show "List.map_filter call_id es' = List.map_filter call_id es"
    "List.map_filter its_id es' = List.map_filter its_id es"
    "length (filter approved_event es') = length (filter approved_event es)"
    by simp_all
qed

lemma call_parser_event:
  assumes "call_parser_ok E txs p" "parser_event X ts mid p = Inr e"
  shows "\<exists>id. call_id e = Some id \<and> parser_message_id X p = Inr (Some id) \<and> its_id e = None \<and> \<not> approved_event e"
  using assms
  by (cases p) (auto simp: event_defs own_message_id_def and_then_eq_Inr_iff ok_or_eq_Inr_iff Let_def)

lemma credit_parser_event:
  assumes "credit_parser_ok E txs p" "parser_event X ts mid p = Inr e"
  shows "call_id e = None \<and> its_id e = None \<and> \<not> approved_event e
    \<and> (\<exists>c rf a. e = GasCredit c (the mid) rf a \<and> mid \<noteq> None)"
  using assms
  by (cases p) (auto simp: event_defs given_message_id_def and_then_eq_Inr_iff ok_or_eq_Inr_iff gas_credit_def)

lemma its_parser_event:
  assumes "its_parser_ok E txs p" "parser_event X ts mid p = Inr e"
  shows "call_id e = None \<and> its_id e = mid \<and> mid \<noteq> None \<and> \<not> approved_event e"
  using assms
  by (cases p) (auto simp: event_defs given_message_id_def and_then_eq_Inr_iff ok_or_eq_Inr_iff)

lemma other_parser_event:
  assumes "other_parser_ok E txs p" "parser_event X ts mid p = Inr e"
  shows "call_id e = None \<and> its_id e = None \<and> approved_event e = is_approval p"
  using assms
  by (cases p) (auto simp: event_defs and_then_eq_Inr_iff gas_credit_def)


text \<open>
  A list of calls in which a gas credit follows only the call it pays for, with the same
  message id.
\<close>

inductive paired :: "event list \<Rightarrow> bool" where
  paired_Nil: "paired []"
| paired_call: "call_id call = Some mid \<Longrightarrow> paired es \<Longrightarrow> paired (call # es)"
| paired_credit: "call_id call = Some mid \<Longrightarrow> paired es \<Longrightarrow> paired (call # GasCredit c mid refund payment # es)"

lemma call_events_spec:
  assumes "\<forall>p \<in> set ccs. call_parser_ok E txs p" "\<forall>k p. m k = Some p \<longrightarrow> credit_parser_ok E txs p"
    "call_events X ts ccs m = Inr es"
  shows "paired es \<and> map (parser_message_id X) ccs = map (\<lambda>i. Inr (Some i)) (List.map_filter call_id es)
    \<and> List.map_filter its_id es = [] \<and> filter approved_event es = []"
  using assms
proof (induction ccs arbitrary: m es)
  case Nil
  then show ?case by (simp add: paired_Nil map_filter_simps)
next
  case (Cons cc ccs)
  from Cons.prems obtain k call where k: "parser_key cc = Inr k" "parser_event X ts None cc = Inr call"
    by (auto simp: and_then_eq_Inr_iff)
  from call_parser_event [OF _ k(2)] Cons.prems(1) obtain i where
    i: "call_id call = Some i" "parser_message_id X cc = Inr (Some i)" "its_id call = None" "\<not> approved_event call"
    by (metis list.set_intros(1))
  show ?case
  proof (cases "m k")
    case None
    with Cons.prems k obtain es' where e: "call_events X ts ccs m = Inr es'" "es = call # es'"
      by (auto simp: and_then_eq_Inr_iff)
    with Cons.IH [OF _ Cons.prems(2) e(1)] Cons.prems(1) i show ?thesis
      by (auto simp: map_filter_simps intro: paired_call)
  next
    case (Some p)
    with Cons.prems k i obtain g es' where g: "parser_event X ts (Some i) p = Inr g"
        "call_events X ts ccs (m(k := None)) = Inr es'" "es = call # g # es'"
      by (auto simp: and_then_eq_Inr_iff)
    from Cons.prems(2) have m': "\<forall>k' p. (m(k := None)) k' = Some p \<longrightarrow> credit_parser_ok E txs p" by auto
    from credit_parser_event [OF _ g(1)] Cons.prems(2) Some obtain c rf a where
      c: "g = GasCredit c i rf a" by fastforce
    from Cons.IH [OF _ m' g(2)] Cons.prems(1) i g c show ?thesis
      by (auto simp: map_filter_simps intro: paired_credit)
  qed
qed

lemma its_events_spec:
  assumes "\<forall>p \<in> set ps. its_parser_ok E txs p" "its_events X ts ccs i ps = Inr es"
  shows "i + length ps \<le> length ccs \<or> ps = []"
    and "map (\<lambda>j. Inr (Some j)) (List.map_filter its_id es) = map (parser_message_id X) (take (length ps) (drop i ccs))"
    and "List.map_filter call_id es = []" and "filter approved_event es = []"
  using assms
proof (atomize (full), induction ps arbitrary: i es)
  case Nil
  then show ?case by (simp add: map_filter_simps)
next
  case (Cons p ps)
  from Cons.prems obtain cc mid e es' where e: "get_opt ccs i = Some cc" "parser_message_id X cc = Inr mid"
      "parser_event X ts mid p = Inr e" "its_events X ts ccs (Suc i) ps = Inr es'" "es = e # es'"
    by (auto simp: and_then_eq_Inr_iff split: option.splits)
  from its_parser_event [OF _ e(3)] Cons.prems have p: "call_id e = None" "its_id e = mid" "mid \<noteq> None" "\<not> approved_event e"
    by auto
  have i: "i < length ccs" "ccs ! i = cc" using e(1) by (simp_all add: get_opt_eq_Some_iff)
  then have "take (length (p # ps)) (drop i ccs) = cc # take (length ps) (drop (Suc i) ccs)"
    by (metis Cons_nth_drop_Suc length_Cons take_Suc_Cons)
  with Cons.IH [of "Suc i" es'] Cons.prems e p i show ?case
    by (auto simp: map_filter_simps)
qed

lemma other_events_spec:
  assumes "\<forall>p \<in> set ps. other_parser_ok E txs p" "try_map (parser_event X ts None) ps = Inr es"
  shows "List.map_filter call_id es = [] \<and> List.map_filter its_id es = []
    \<and> length (filter approved_event es) = length (filter is_approval ps)"
proof -
  from assms(2) have "list_all2 (\<lambda>p e. parser_event X ts None p = Inr e) ps es"
    by (simp add: try_map_eq_Inr_iff)
  then show ?thesis using assms(1)
    by (induction rule: list_all2_induct) (auto simp: map_filter_simps dest!: other_parser_event)
qed

text \<open>A successful run, taken apart.\<close>

lemma parse_trace_parts:
  assumes "parse_trace X T D E ts tr = Inr es"
  obtains total refund ls calls its others where
    "calc_message_gas (tp_our_addresses E) (transactions tr) = Inr total"
    "calc_message_gas_native_gas_refunded (tp_our_addresses E) (transactions tr) = Inr refund"
    "create_parsers X T E tr = Inr ls" "lists_ok E (transactions tr) ls"
    "call_events X ts (pl_call_contract ls) (pl_gas_credit_map ls) = Inr calls"
    "its_events X ts (pl_call_contract ls) 0 (pl_its ls) = Inr its"
    "try_map (parser_event X ts None) (pl_parsers ls) = Inr others"
    "add_gas_used_and_convert X D total refund (pl_message_approved_count ls) (calls @ its @ others) = Inr es"
proof -
  obtain total refund where g: "gas_used E tr = Inr (total, refund)"
      "calc_message_gas (tp_our_addresses E) (transactions tr) = Inr total"
      "calc_message_gas_native_gas_refunded (tp_our_addresses E) (transactions tr) = Inr refund"
    using gas_used_ok by blast
  then obtain ls calls its others where p: "create_parsers X T E tr = Inr ls"
      "call_events X ts (pl_call_contract ls) (pl_gas_credit_map ls) = Inr calls"
      "its_events X ts (pl_call_contract ls) 0 (pl_its ls) = Inr its"
      "try_map (parser_event X ts None) (pl_parsers ls) = Inr others"
      "add_gas_used_and_convert X D total refund (pl_message_approved_count ls) (calls @ its @ others) = Inr es"
    using assms by (auto simp: parse_trace_def and_then_eq_Inr_iff)
  show thesis by (rule that [OF g(2, 3) p(1) create_parsers_ok [OF p(1)] p(2-5)])
qed


text \<open>
  Where an event comes from: the account of the transaction it reports, and the event id that is
  made of the hash of that transaction. An event for a failed execution reports a whole trace,
  of one of the two shapes that count as such.
\<close>

definition reported_by :: "ton_address \<Rightarrow> transaction list \<Rightarrow> string \<Rightarrow> 'm common_event_fields \<Rightarrow> bool" where
  "reported_by a txs suffix c \<longleftrightarrow> (\<exists>tx \<in> set txs. account tx = a \<and> ev_event_id c = tx_hash tx @ suffix)"

fun authentic :: "trace_parser \<Rightarrow> transaction list \<Rightarrow> event \<Rightarrow> bool" where
  "authentic E txs (Call c m ch p) = reported_by (tp_gateway_address E) txs [] c"
| "authentic E txs (MessageApproved c m a) = reported_by (tp_gateway_address E) txs [] c"
| "authentic E txs (MessageExecuted c mid ch st a) = reported_by (tp_gateway_address E) txs [] c"
| "authentic E txs (SignersRotated c mid) = reported_by (tp_gateway_address E) txs ''-signers-rotated'' c"
| "authentic E txs (GasCredit c mid r a) = reported_by (tp_gas_service_address E) txs ''-gas'' c"
| "authentic E txs (GasRefunded c mid r a b) = reported_by (tp_gas_service_address E) txs [] c"
| "authentic E txs (ITSInterchainTransfer c mid ch a s d h) =
     reported_by (tp_its_address E) txs ''-its-interchain-transfer'' c"
| "authentic E txs (ITSInterchainTokenDeploymentStarted c mid ch t) =
     reported_by (tp_its_address E) txs ''-its-interchain-token-deployment-started'' c"
| "authentic E txs (ITSLinkTokenStarted c mid t ch s d ty) =
     reported_by (tp_its_address E) txs ''-its-link-token-started'' c"
| "authentic E txs (ITSTokenMetadataRegistered c mid a d) = reported_by (tp_its_address E) txs ''-its-metadata'' c"
| "authentic E txs (CannotExecuteMessageV2 c mid ch r d) =
     (execute_failed_for_gas (tp_gateway_address E) txs \<or> nullified_without_funds txs)"

lemma parser_event_authentic:
  assumes "parser_event X ts mid p = Inr e"
    and "call_parser_ok E txs p \<or> credit_parser_ok E txs p \<or> its_parser_ok E txs p \<or> other_parser_ok E txs p"
  shows "authentic E txs e"
  using assms
  by (cases p)
    (auto simp: event_defs and_then_eq_Inr_iff gas_credit_def its_common_def Let_def reported_by_def parsed_from_def)

text \<open>Every event of the three loops is the event of one of their parser objects.\<close>

lemma call_events_from:
  "call_events X ts ccs m = Inr es \<Longrightarrow> e \<in> set es \<Longrightarrow>
     \<exists>p mid. (p \<in> set ccs \<or> p \<in> ran m) \<and> parser_event X ts mid p = Inr e"
proof (induction ccs arbitrary: m es)
  case (Cons cc ccs)
  from Cons.prems(1) obtain k call where k: "parser_key cc = Inr k" "parser_event X ts None cc = Inr call"
    by (auto simp: and_then_eq_Inr_iff)
  show ?case
  proof (cases "m k")
    case None
    with Cons.prems k obtain es' where "call_events X ts ccs m = Inr es'" "es = call # es'"
      by (auto simp: and_then_eq_Inr_iff)
    with Cons.IH Cons.prems(2) k(2) show ?thesis by fastforce
  next
    case (Some p)
    with Cons.prems k obtain i g es' where g: "parser_event X ts (Some i) p = Inr g"
        "call_events X ts ccs (m(k := None)) = Inr es'" "es = call # g # es'"
      by (auto simp: and_then_eq_Inr_iff)
    have "p \<in> ran m" "ran (m(k := None)) \<subseteq> ran m" using Some by (auto simp: ran_def)
    with Cons.IH [OF g(2)] Cons.prems(2) k(2) g(1,3) show ?thesis by fastforce
  qed
qed simp

lemma its_events_from:
  "its_events X ts ccs i ps = Inr es \<Longrightarrow> e \<in> set es \<Longrightarrow> \<exists>p \<in> set ps. \<exists>mid. parser_event X ts mid p = Inr e"
proof (induction ps arbitrary: i es)
  case (Cons p ps)
  then obtain mid e' es' where "parser_event X ts mid p = Inr e'" "its_events X ts ccs (Suc i) ps = Inr es'" "es = e' # es'"
    by (auto simp: and_then_eq_Inr_iff split: option.splits)
  with Cons show ?case by auto
qed simp

lemma try_map_from:
  assumes "try_map f ps = Inr es" "e \<in> set es"
  shows "\<exists>p \<in> set ps. f p = Inr e"
proof -
  from assms(1) have "list_all2 (\<lambda>p e. f p = Inr e) ps es" by (simp add: try_map_eq_Inr_iff)
  then show ?thesis using assms(2) by (induction rule: list_all2_induct) auto
qed

lemma convert_event_authentic:
  "convert_event X D g r n e = Inr e' \<Longrightarrow> authentic E txs e \<Longrightarrow> authentic E txs e'"
  by (auto simp: convert_event_def and_then_eq_Inr_iff split: event.splits option.splits)

lemma convert_events_each:
  assumes "add_gas_used_and_convert X D g r n es = Inr es'" "e' \<in> set es'"
  obtains e where "e \<in> set es" "convert_event X D g r n e = Inr e'"
proof -
  have "\<exists>e \<in> set es. convert_event X D g r n e = Inr e'"
    using assms by (intro try_map_from) (simp_all add: add_gas_used_and_convert_def)
  with that show thesis by blast
qed

lemma convert_event_costs:
  "convert_event X D g r n e = Inr (MessageApproved c m a) \<Longrightarrow>
     amt_amount a = u64_to_string (if n = 0 then 0 else g div n)"
  "convert_event X D g r n e = Inr (MessageExecuted c' mid ch st a) \<Longrightarrow> amt_amount a = u64_to_string g"
  "convert_event X D g r n e = Inr (GasRefunded c'' mid rcp v a) \<Longrightarrow> amt_amount a = u64_to_string r"
  by (cases e; auto simp: convert_event_def and_then_eq_Inr_iff split: option.splits)+

lemma convert_paired:
  "paired es \<Longrightarrow> try_map (convert_event X D g r n) es = Inr es' \<Longrightarrow> paired es'"
proof (induction arbitrary: es' rule: paired.induct)
  case paired_Nil
  then show ?case by (simp add: paired.paired_Nil)
next
  case (paired_call call mid es)
  then show ?case by (auto simp: and_then_eq_Inr_iff convert_event_shape intro!: paired.paired_call)
next
  case (paired_credit call mid es c refund payment)
  then obtain call' credit es'' where c: "convert_event X D g r n call = Inr call'"
      "convert_event X D g r n (GasCredit c mid refund payment) = Inr credit" "paired es''"
      "es' = call' # credit # es''"
    by (auto simp: and_then_eq_Inr_iff)
  then obtain payment' where "credit = GasCredit c mid refund payment'"
    by (auto simp: convert_event_def and_then_eq_Inr_iff split: option.splits)
  with c paired_credit convert_event_shape(1) [OF c(1)] show ?case by (auto intro: paired.paired_credit)
qed

section \<open>Sample data\<close>

text \<open>
  A trace with one contract call, whose log is the sample cell of \<open>Boc_Messages\<close>, and a price
  feed over the natural numbers.
\<close>

definition sample_env :: trace_parser where
  "sample_env =
     \<lparr>tp_gateway_address = TonAddress 0 [1], tp_gas_service_address = TonAddress 0 [2],
      tp_its_address = TonAddress 0 [3], tp_our_addresses = [TonAddress 0 [1]], tp_chain_name = ''ton''\<rparr>"

definition sample_prices :: "nat prices" where
  "sample_prices =
     \<lparr>get_price = (\<lambda>_. Inr 1), decimal_from_str = (\<lambda>s. ok_or ''invalid'' (parse_nat s)),
      decimal_mul = (\<lambda>a b. Some (a * b)), decimal_div = (\<lambda>a b. if b = 0 then None else Some (a div b)), decimal_round = id,
      decimal_to_string = nat_to_string\<rparr>"

definition sample_call_tx :: transaction where
  "sample_call_tx =
     sample_transaction (TonAddress 0 [1]) 5 (Some (sample_message None (Some OP_CALL_CONTRACT) [] None))
       [sample_message None None ''call'' None]"

abbreviation sample_tonlib :: "(rcell, rparser, rparser) tonlib" where
  "sample_tonlib \<equiv> tree_tonlib (\<lambda>_. Inr sample_call_cell)"

definition sample_call_log :: call_contract_message where
  "sample_call_log =
     \<lparr>ccm_destination_chain = ''avalanche'', ccm_destination_address = ''0xd7'',
      ccm_payload = hex_encode sample_crates [1, 2, 3], ccm_source_address = sample_std_address,
      ccm_payload_hash = replicate 32 1\<rparr>"

lemma sample_call_decode: "call_contract_from_boc_b64 sample_crates sample_tonlib boc = Inr sample_call_log"
  unfolding sample_call_log_def
  by (rule call_contract_decode [OF tree.ton_cells_axioms sample_call_cell_view])
    (simp_all add: leaf_holds_string leaf_holds_bytes utf8_valid_avalanche)

lemma sample_call_run:
  "\<exists>p. try_parser call_contract_check_match (call_contract_parse sample_crates sample_tonlib)
       (call_contract_new sample_call_tx (TonAddress 0 [1]) ''ton'') = Inr (Some p)
     \<and> lp_log p = Some sample_call_log \<and> lp_tx p = sample_call_tx"
proof -
  have "in_opcode_source {OP_CALL_CONTRACT} 0 (TonAddress 0 [1]) sample_call_tx = Some (sample_message None None ''call'' None)"
    by (simp add: in_opcode_source_def sample_call_tx_def sample_transaction_def sample_message_def)
  from call_contract.run_match [OF this, of sample_crates sample_tonlib "''ton''"]
    call_contract.check_keeps [of sample_call_tx "TonAddress 0 [1]" "''ton''"]
  show ?thesis by (simp add: sample_call_decode)
qed

lemma sample_parse_trace:
  "\<exists>c m chain pay. parse_trace sample_crates sample_tonlib sample_prices sample_env ts (sample_trace [sample_call_tx])
     = Inr [Call c m chain pay]
   \<and> ev_event_id c = tx_hash sample_call_tx"
proof -
  obtain p where p: "try_parser call_contract_check_match (call_contract_parse sample_crates sample_tonlib)
       (call_contract_new sample_call_tx (TonAddress 0 [1]) ''ton'') = Inr (Some p)"
      "lp_log p = Some sample_call_log" "lp_tx p = sample_call_tx"
    using sample_call_run by blast
  have "create_parsers_tx sample_crates sample_tonlib sample_env sample_call_tx no_parsers
      = Inr (no_parsers\<lparr>pl_call_contract := [PCallContract p]\<rparr>)"
    by (simp add: create_parsers_tx_def or_else_def sample_env_def p no_parsers_def)
  then have c: "create_parsers sample_crates sample_tonlib sample_env (sample_trace [sample_call_tx])
      = Inr (no_parsers\<lparr>pl_call_contract := [PCallContract p]\<rparr>)"
    by (simp add: create_parsers_def sample_trace_def try_parser_def insufficient_gas_check_match_def
        insufficient_gas_new_def execute_failed_for_gas_def nullified_without_funds_def)
  obtain total refund where g: "gas_used sample_env (sample_trace [sample_call_tx]) = Inr (total, refund)"
    using gas_used_ok by blast
  show ?thesis
    by (simp add: parse_trace_def g c no_parsers_def call_contract_key_def call_contract_event_def take_log_def p
        own_message_id_def call_contract_message_id_def hash_message_id_def hash_to_message_id_def
        Let_def add_gas_used_and_convert_def convert_event_def)
qed


section \<open>Properties\<close>

text \<open>
  In the events of a trace, the token service events carry, in order, the message ids of
  the first contract calls: the i-th token service event is paired with the i-th call. A trace
  with more token service logs than calls is therefore never parsed.
\<close>

theorem its_events_pair_with_calls:
  assumes "parse_trace X T D E ts tr = Inr es"
  shows "List.map_filter its_id es
    = take (length (List.map_filter its_id es)) (List.map_filter call_id es)"
proof -
  from assms obtain total refund ls calls its others where p: "lists_ok E (transactions tr) ls"
      "call_events X ts (pl_call_contract ls) (pl_gas_credit_map ls) = Inr calls"
      "its_events X ts (pl_call_contract ls) 0 (pl_its ls) = Inr its"
      "try_map (parser_event X ts None) (pl_parsers ls) = Inr others"
      "add_gas_used_and_convert X D total refund (pl_message_approved_count ls) (calls @ its @ others) = Inr es"
    by (rule parse_trace_parts)
  note shape = convert_events_shape [OF p(5)]
  note cs = call_events_spec [OF _ _ p(2), of E "transactions tr"]
  note iz = its_events_spec [OF _ p(3), of E "transactions tr"]
  note os = other_events_spec [OF _ p(4), of E "transactions tr"]
  from p(1) cs iz os have ids: "List.map_filter call_id es = List.map_filter call_id calls"
      "List.map_filter its_id es = List.map_filter its_id its"
    by (simp_all add: shape lists_ok_def map_filter_append)
  have "map (\<lambda>j. Inr (Some j) :: string option parsed) (List.map_filter its_id its)
      = map (parser_message_id X) (take (length (pl_its ls)) (pl_call_contract ls))"
    using iz(2) p(1) by (simp add: lists_ok_def)
  also have "\<dots> = map (\<lambda>j. Inr (Some j)) (take (length (pl_its ls)) (List.map_filter call_id calls))"
    using cs p(1) by (simp add: lists_ok_def take_map [symmetric])
  finally have eq: "List.map_filter its_id its = take (length (pl_its ls)) (List.map_filter call_id calls)"
    by (simp add: inj_map_eq_map inj_def)
  then show ?thesis by (simp add: ids) (metis min.cobounded2 length_take min_def take_all_iff nle_le)
qed

lemma its_events_pair_with_calls_witness:
  "\<exists>es. parse_trace sample_crates sample_tonlib sample_prices sample_env [] (sample_trace [sample_call_tx]) = Inr es
     \<and> List.map_filter its_id es = take (length (List.map_filter its_id es)) (List.map_filter call_id es)"
  using its_events_pair_with_calls sample_parse_trace by blast


lemma parse_trace_events_authentic:
  assumes "parse_trace X T D E ts tr = Inr es"
  shows "\<forall>e \<in> set es. authentic E (transactions tr) e"
proof
  fix e'
  assume e': "e' \<in> set es"
  from assms obtain total refund ls calls its others where p: "lists_ok E (transactions tr) ls"
      "call_events X ts (pl_call_contract ls) (pl_gas_credit_map ls) = Inr calls"
      "its_events X ts (pl_call_contract ls) 0 (pl_its ls) = Inr its"
      "try_map (parser_event X ts None) (pl_parsers ls) = Inr others"
      "add_gas_used_and_convert X D total refund (pl_message_approved_count ls) (calls @ its @ others) = Inr es"
    by (rule parse_trace_parts)
  from convert_events_each [OF p(5) e'] obtain e where
    e: "e \<in> set (calls @ its @ others)"
      "convert_event X D total refund (pl_message_approved_count ls) e = Inr e'" by blast
  from e(1) consider "e \<in> set calls" | "e \<in> set its" | "e \<in> set others" by auto
  then have "authentic E (transactions tr) e"
  proof cases
    case 1
    from call_events_from [OF p(2) this] p(1) show ?thesis
      unfolding lists_ok_def ran_def using parser_event_authentic by blast
  next
    case 2
    from its_events_from [OF p(3) this] p(1) show ?thesis
      unfolding lists_ok_def using parser_event_authentic by blast
  next
    case 3
    from try_map_from [OF p(4) this] p(1) show ?thesis
      unfolding lists_ok_def using parser_event_authentic by blast
  qed
  with e(2) show "authentic E (transactions tr) e'" by (rule convert_event_authentic)
qed

text \<open>
  Every event of a parsed trace reports a transaction of that trace on the right
  contract: contract calls, approvals, executions and signer rotations on the gateway, gas
  credits and refunds on the gas service, token service events on the token service; its event
  id is made of the hash of that transaction. Events about failed executions report the whole
  trace, which has one of the two shapes of a failed execution.
\<close>

theorem parse_trace_authentic:
  assumes "parse_trace X T D E ts tr = Inr es"
  shows "\<forall>e \<in> set es. authentic E (transactions tr) e"
  using assms by (rule parse_trace_events_authentic)

lemma parse_trace_authentic_witness:
  "\<exists>c m ch pay. parse_trace sample_crates sample_tonlib sample_prices sample_env [] (sample_trace [sample_call_tx])
       = Inr [Call c m ch pay]
     \<and> reported_by (TonAddress 0 [1]) [sample_call_tx] [] c"
proof -
  obtain c m ch pay where p: "parse_trace sample_crates sample_tonlib sample_prices sample_env [] (sample_trace [sample_call_tx])
       = Inr [Call c m ch pay]"
    using sample_parse_trace by blast
  from parse_trace_authentic [OF p] p show ?thesis by (auto simp: sample_env_def sample_trace_def)
qed

text \<open>
  The events of a trace start with the contract calls, where a gas payment follows
  directly the call with the same message id; no call and no token service event precedes or
  interrupts a pair, and all other events come after.
\<close>

theorem calls_paired_with_gas:
  assumes "parse_trace X T D E ts tr = Inr es"
  shows "\<exists>calls rest. es = calls @ rest \<and> paired calls \<and> List.map_filter call_id rest = []"
proof -
  from assms obtain total refund ls calls its others where p: "lists_ok E (transactions tr) ls"
      "call_events X ts (pl_call_contract ls) (pl_gas_credit_map ls) = Inr calls"
      "its_events X ts (pl_call_contract ls) 0 (pl_its ls) = Inr its"
      "try_map (parser_event X ts None) (pl_parsers ls) = Inr others"
      "add_gas_used_and_convert X D total refund (pl_message_approved_count ls) (calls @ its @ others) = Inr es"
    by (rule parse_trace_parts)
  let ?cv = "add_gas_used_and_convert X D total refund (pl_message_approved_count ls)"
  from p(5) obtain calls' rest where c: "?cv calls = Inr calls'" "?cv (its @ others) = Inr rest" "es = calls' @ rest"
    by (auto simp: add_gas_used_and_convert_def try_map_eq_Inr_iff list_all2_append1)
  have "paired calls'"
    using convert_paired [OF _ c(1) [unfolded add_gas_used_and_convert_def]]
      call_events_spec [OF _ _ p(2), of E "transactions tr"] p(1) by (simp add: lists_ok_def)
  moreover have "List.map_filter call_id rest = []"
    using convert_events_shape(1) [OF c(2)] its_events_spec(3) [OF _ p(3), of E "transactions tr"]
      other_events_spec [OF _ p(4), of E "transactions tr"] p(1) by (simp add: lists_ok_def map_filter_append)
  ultimately show ?thesis using c(3) by blast
qed

lemma calls_paired_with_gas_witness:
  "\<exists>es calls rest. parse_trace sample_crates sample_tonlib sample_prices sample_env [] (sample_trace [sample_call_tx]) = Inr es
     \<and> es = calls @ rest \<and> paired calls \<and> es \<noteq> [] \<and> List.map_filter call_id rest = []"
proof -
  obtain c m ch pay where p: "parse_trace sample_crates sample_tonlib sample_prices sample_env [] (sample_trace [sample_call_tx])
       = Inr [Call c m ch pay]"
    using sample_parse_trace by blast
  from calls_paired_with_gas [OF p] p show ?thesis by blast
qed

text \<open>
  The gas used by a trace is charged as a whole to each execution, the gas of a refund to
  each refund, and the approvals of a trace share the gas evenly: each is charged the gas
  divided by their number, so that together they are never charged more than was used.
\<close>

theorem gas_costs_charged:
  assumes "parse_trace X T D E ts tr = Inr es" and "length (filter approved_event es) < 2 ^ 64"
  shows "\<exists>total refund. calc_message_gas (tp_our_addresses E) (transactions tr) = Inr total
    \<and> calc_message_gas_native_gas_refunded (tp_our_addresses E) (transactions tr) = Inr refund
    \<and> (\<forall>c m a. MessageApproved c m a \<in> set es \<longrightarrow>
         (\<exists>share. amt_amount a = u64_to_string share
            \<and> unat share = unat total div length (filter approved_event es)
            \<and> length (filter approved_event es) * unat share \<le> unat total))
    \<and> (\<forall>c mid ch st a. MessageExecuted c mid ch st a \<in> set es \<longrightarrow> amt_amount a = u64_to_string total)
    \<and> (\<forall>c mid r v a. GasRefunded c mid r v a \<in> set es \<longrightarrow> amt_amount a = u64_to_string refund)"
proof -
  from assms(1) obtain total refund ls calls its others where
      g: "calc_message_gas (tp_our_addresses E) (transactions tr) = Inr total"
      "calc_message_gas_native_gas_refunded (tp_our_addresses E) (transactions tr) = Inr refund"
      and p: "lists_ok E (transactions tr) ls"
      "call_events X ts (pl_call_contract ls) (pl_gas_credit_map ls) = Inr calls"
      "its_events X ts (pl_call_contract ls) 0 (pl_its ls) = Inr its"
      "try_map (parser_event X ts None) (pl_parsers ls) = Inr others"
      "add_gas_used_and_convert X D total refund (pl_message_approved_count ls) (calls @ its @ others) = Inr es"
    by (rule parse_trace_parts)
  let ?n = "length (filter approved_event es)"
  have "?n = length (filter is_approval (pl_parsers ls))"
    using convert_events_shape(3) [OF p(5)] call_events_spec [OF _ _ p(2), of E "transactions tr"]
      its_events_spec(4) [OF _ p(3), of E "transactions tr"] other_events_spec [OF _ p(4), of E "transactions tr"] p(1)
    by (simp add: lists_ok_def)
  with p(1) have n: "pl_message_approved_count ls = word_of_nat ?n" by (simp add: lists_ok_def)
  have un: "unat (word_of_nat ?n :: u64) = ?n" using assms(2) by (simp add: unat_of_nat)
  define share where "share = (if word_of_nat ?n = (0 :: u64) then 0 else total div word_of_nat ?n)"
  have sh: "unat share = unat total div ?n"
  proof (cases "?n = 0")
    case False
    then have "word_of_nat ?n \<noteq> (0 :: u64)" using un by (metis unat_0)
    then show ?thesis by (simp only: share_def if_False unat_div_distrib un)
  qed (simp add: share_def)
  have each: "\<exists>e. convert_event X D total refund (word_of_nat ?n) e = Inr e'" if "e' \<in> set es" for e'
    using convert_events_each [OF p(5) that] n by metis
  show ?thesis
  proof (intro exI conjI allI impI)
    show "amt_amount a = u64_to_string share" if "MessageApproved c m a \<in> set es" for c m a
      using each [OF that] convert_event_costs(1) unfolding share_def by blast
    show "amt_amount a = u64_to_string total" if "MessageExecuted c mid ch st a \<in> set es" for c mid ch st a
      using each [OF that] convert_event_costs(2) by blast
    show "amt_amount a = u64_to_string refund" if "GasRefunded c mid r v a \<in> set es" for c mid r v a
      using each [OF that] convert_event_costs(3) by blast
    show "?n * unat share \<le> unat total" by (simp add: sh)
  qed (simp_all add: g sh)
qed

lemma gas_costs_charged_witness:
  "\<exists>es. parse_trace sample_crates sample_tonlib sample_prices sample_env [] (sample_trace [sample_call_tx]) = Inr es
     \<and> (\<exists>total. calc_message_gas [TonAddress 0 [1]] [sample_call_tx] = Inr total)"
proof -
  obtain c m ch pay where p: "parse_trace sample_crates sample_tonlib sample_prices sample_env [] (sample_trace [sample_call_tx])
       = Inr [Call c m ch pay]"
    using sample_parse_trace by blast
  from gas_costs_charged [OF p] p show ?thesis by (auto simp: sample_env_def sample_trace_def)
qed

end
