(* ===== verification/Trace_Store.thy ===== *)
theory Trace_Store
  imports Chain_Types "HOL-Library.Option_ord"
begin

text \<open>
  The table of traces \<open>ton_traces\<close> (\<open>src/migrations/0006_ton_traces.sql\<close> and
  \<open>0008_ton_traces_events.sql\<close>) with the SQL statements of
  \<open>src/src/models/ton_trace.rs\<close>. The table is a map from the primary key to the row. A
  statement is run in a call environment: whether the database answers, and the time of
  \<open>NOW()\<close>; a statement that is not answered changes nothing. \<open>jsonb\<close> is the
  encoding of the transactions as a JSONB value, by which the database compares them.
  The traits \<open>AtomicUpsert\<close> and \<open>Retriable\<close>, which the subscribers are generic
  in, are the locale \<open>trace_model\<close>, interpreted by the statements of the code.
\<close>

section \<open>Rows\<close>

record event_summary =
  event_id :: string
  sum_message_id :: "string option"
  event_type :: string

record ton_trace =
  tt_trace_id :: string
  tt_is_incomplete :: bool
  tt_start_lt :: i64
  tt_end_lt :: i64
  tt_retries :: i32
  tt_transactions :: "transaction list"
  tt_events :: "event_summary list option"
  tt_created_at :: int
  tt_updated_at :: "int option"

text \<open>\<open>TONTrace::from\<close>, at the time \<open>utc\<close> of \<open>Utc::now()\<close>.\<close>

definition ton_trace_from :: "int \<Rightarrow> trace \<Rightarrow> ton_trace" where
  "ton_trace_from utc t =
     \<lparr>tt_trace_id = trace_id t, tt_is_incomplete = is_incomplete t, tt_start_lt = start_lt t,
      tt_end_lt = end_lt t, tt_retries = 5, tt_transactions = transactions t, tt_events = None,
      tt_created_at = utc, tt_updated_at = None\<rparr>"

type_synonym ton_traces = "string \<rightharpoonup> ton_trace"

section \<open>Statements\<close>

record sql_call =
  answered :: bool
  sql_now :: int

definition DEFAULT_RETRIES :: i32 where
  "DEFAULT_RETRIES = 10"

text \<open>The \<open>WHERE\<close> clause of the conflict branch.\<close>

definition is_distinct :: "(transaction list \<Rightarrow> 'j) \<Rightarrow> ton_trace \<Rightarrow> ton_trace \<Rightarrow> bool" where
  "is_distinct jsonb row tx \<longleftrightarrow>
     tt_is_incomplete row \<noteq> tt_is_incomplete tx \<or> tt_start_lt row \<noteq> tt_start_lt tx
     \<or> tt_end_lt row \<noteq> tt_end_lt tx \<or> jsonb (tt_transactions row) \<noteq> jsonb (tt_transactions tx)"

definition inserted_row :: "int \<Rightarrow> ton_trace \<Rightarrow> ton_trace" where
  "inserted_row now tx =
     tx\<lparr>tt_retries := DEFAULT_RETRIES, tt_events := None, tt_created_at := now, tt_updated_at := None\<rparr>"

definition updated_row :: "int \<Rightarrow> ton_trace \<Rightarrow> ton_trace \<Rightarrow> ton_trace" where
  "updated_row now row tx =
     row\<lparr>tt_is_incomplete := tt_is_incomplete tx, tt_start_lt := tt_start_lt tx,
         tt_end_lt := tt_end_lt tx, tt_transactions := tt_transactions tx, tt_updated_at := Some now\<rparr>"

definition upsert_and_return_if_changed ::
    "(transaction list \<Rightarrow> 'j) \<Rightarrow> sql_call \<Rightarrow> ton_trace \<Rightarrow> ton_traces
      \<Rightarrow> (string + ton_trace option) \<times> ton_traces" where
  "upsert_and_return_if_changed jsonb call tx tbl =
     (if \<not> answered call then (Inl ''database error'', tbl)
      else (case tbl (tt_trace_id tx) of
          None \<Rightarrow>
            (let row = inserted_row (sql_now call) tx
             in (Inr (Some row), tbl(tt_trace_id tx \<mapsto> row)))
        | Some row \<Rightarrow>
            if is_distinct jsonb row tx
            then (let row' = updated_row (sql_now call) row tx
                  in (Inr (Some row'), tbl(tt_trace_id tx \<mapsto> row')))
            else (Inr None, tbl)))"

text \<open>
  \<open>fetch_retry\<close>. \<open>scan\<close> lists the keys in the order the database reads the rows,
  which decides among rows with the same \<open>updated_at\<close>.
\<close>

definition wants_retry :: "ton_trace \<Rightarrow> bool" where
  "wants_retry row \<longleftrightarrow> sint (tt_retries row) > 0 \<and> tt_is_incomplete row"

definition fetch_retry :: "sql_call \<Rightarrow> string list \<Rightarrow> u32 \<Rightarrow> ton_traces \<Rightarrow> string + ton_trace list" where
  "fetch_retry call scan limit tbl =
     (if \<not> answered call then Inl ''database error''
      else Inr (take (unat limit)
             (sort_key tt_updated_at (filter wants_retry (List.map_filter tbl scan)))))"

text \<open>\<open>retries - 1\<close> is an SQL integer: below \<open>-2^31\<close> the statement fails.\<close>

definition decrease_retry :: "sql_call \<Rightarrow> ton_trace \<Rightarrow> ton_traces \<Rightarrow> (string + unit) \<times> ton_traces" where
  "decrease_retry call tx tbl =
     (if \<not> answered call then (Inl ''database error'', tbl)
      else (case tbl (tt_trace_id tx) of
          None \<Rightarrow> (Inr (), tbl)
        | Some row \<Rightarrow>
            if sint (tt_retries row) = - (2 ^ 31) then (Inl ''integer out of range'', tbl)
            else (Inr (), tbl(tt_trace_id tx \<mapsto> row\<lparr>tt_retries := tt_retries row - 1\<rparr>))))"

definition update_events ::
    "sql_call \<Rightarrow> string \<Rightarrow> event_summary list \<Rightarrow> ton_traces \<Rightarrow> (string + unit) \<times> ton_traces" where
  "update_events call i evs tbl =
     (if \<not> answered call then (Inl ''database error'', tbl)
      else (case tbl i of
          None \<Rightarrow> (Inr (), tbl)
        | Some row \<Rightarrow>
            (Inr (), tbl(i \<mapsto> row\<lparr>tt_events := Some evs, tt_updated_at := Some (sql_now call)\<rparr>))))"

definition upsert_trace ::
    "(transaction list \<Rightarrow> 'j) \<Rightarrow> sql_call \<Rightarrow> ton_trace \<Rightarrow> ton_traces \<Rightarrow> (string + unit) \<times> ton_traces" where
  "upsert_trace jsonb call tx tbl =
     (let (r, tbl') = upsert_and_return_if_changed jsonb call tx tbl in (map_ok (\<lambda>_. ()) r, tbl'))"

definition find_trace :: "sql_call \<Rightarrow> string \<Rightarrow> ton_traces \<Rightarrow> string + ton_trace option" where
  "find_trace call i tbl = (if \<not> answered call then Inl ''database error'' else Inr (tbl i))"

definition delete_trace :: "sql_call \<Rightarrow> ton_trace \<Rightarrow> ton_traces \<Rightarrow> (string + unit) \<times> ton_traces" where
  "delete_trace call tx tbl =
     (if \<not> answered call then (Inl ''database error'', tbl) else (Inr (), tbl(tt_trace_id tx := None)))"

section \<open>Invariant of the table\<close>

text \<open>Every row is stored under its own key.\<close>

definition keyed :: "ton_traces \<Rightarrow> bool" where
  "keyed tbl \<longleftrightarrow> (\<forall>i row. tbl i = Some row \<longrightarrow> tt_trace_id row = i)"

named_theorems row_simps \<open>unfolding of the row constructors\<close>

declare inserted_row_def [row_simps] updated_row_def [row_simps] ton_trace_from_def [row_simps]

lemma keyed_empty [simp]: "keyed Map.empty"
  by (simp add: keyed_def)

lemma keyed_upsert:
  "keyed tbl \<Longrightarrow> keyed (snd (upsert_and_return_if_changed jsonb call tx tbl))"
  by (auto simp: keyed_def upsert_and_return_if_changed_def Let_def row_simps split: option.splits)

lemma keyed_decrease: "keyed tbl \<Longrightarrow> keyed (snd (decrease_retry call tx tbl))"
  by (auto simp: keyed_def decrease_retry_def split: option.splits)

lemma keyed_update_events: "keyed tbl \<Longrightarrow> keyed (snd (update_events call i evs tbl))"
  by (auto simp: keyed_def update_events_def split: option.splits)

lemma keyed_delete: "keyed tbl \<Longrightarrow> keyed (snd (delete_trace call tx tbl))"
  by (auto simp: keyed_def delete_trace_def)

section \<open>What the subscribers rely on\<close>

text \<open>
  The traits \<open>AtomicUpsert\<close> and \<open>Retriable\<close>. \<open>stored s tx\<close> says that the store
  holds a row for the key of \<open>tx\<close> that agrees with it in every column the upsert writes;
  \<open>complete s i\<close> that the row under \<open>i\<close> is of a complete trace.
\<close>

locale trace_model =
  fixes upsert :: "'c \<Rightarrow> ton_trace \<Rightarrow> 's \<Rightarrow> (string + ton_trace option) \<times> 's"
    and decrease :: "'c \<Rightarrow> ton_trace \<Rightarrow> 's \<Rightarrow> (string + unit) \<times> 's"
    and stored :: "'s \<Rightarrow> ton_trace \<Rightarrow> bool"
    and complete :: "'s \<Rightarrow> string \<Rightarrow> bool"
  assumes upsert_error: "upsert c tx s = (Inl e, s') \<Longrightarrow> s' = s"
    and upsert_unchanged: "upsert c tx s = (Inr None, s') \<Longrightarrow> s' = s \<and> stored s tx"
    and upsert_changed: "upsert c tx s = (Inr (Some row), s') \<Longrightarrow> \<not> stored s tx \<and> stored s' tx"
    and upsert_other: "upsert c tx s = (r, s') \<Longrightarrow> tt_trace_id tx \<noteq> tt_trace_id ty
          \<Longrightarrow> stored s' ty = stored s ty"
    and upsert_complete: "upsert c tx s = (r, s') \<Longrightarrow> tt_trace_id tx \<noteq> i
          \<Longrightarrow> complete s' i = complete s i"
    and stored_clock: "stored s (ton_trace_from u t) = stored s (ton_trace_from v t)"
    and stored_complete: "stored s tx \<Longrightarrow> complete s (tt_trace_id tx) = (\<not> tt_is_incomplete tx)"
    and decrease_stored: "decrease c ty s = (d, s') \<Longrightarrow> stored s' tx = stored s tx"
    and decrease_complete: "decrease c ty s = (d, s') \<Longrightarrow> complete s' i = complete s i"

definition row_stored :: "(transaction list \<Rightarrow> 'j) \<Rightarrow> ton_traces \<Rightarrow> ton_trace \<Rightarrow> bool" where
  "row_stored jsonb tbl tx \<longleftrightarrow>
     (case tbl (tt_trace_id tx) of None \<Rightarrow> False | Some row \<Rightarrow> \<not> is_distinct jsonb row tx)"

definition row_complete :: "ton_traces \<Rightarrow> string \<Rightarrow> bool" where
  "row_complete tbl i \<longleftrightarrow> (case tbl i of None \<Rightarrow> False | Some row \<Rightarrow> \<not> tt_is_incomplete row)"

lemma row_stored_update_events:
  "update_events call i evs tbl = (r, tbl') \<Longrightarrow> row_stored jsonb tbl' tx = row_stored jsonb tbl tx"
  by (auto simp: update_events_def row_stored_def is_distinct_def split: option.splits if_splits)

lemma row_complete_update_events:
  "update_events call i evs tbl = (r, tbl') \<Longrightarrow> row_complete tbl' j = row_complete tbl j"
  by (auto simp: update_events_def row_complete_def split: option.splits if_splits)

interpretation pg: trace_model
  "upsert_and_return_if_changed jsonb" decrease_retry "row_stored jsonb" row_complete
  for jsonb :: "transaction list \<Rightarrow> 'j"
proof unfold_locales
  fix c :: sql_call and tx ty :: ton_trace and s s' :: ton_traces and i e row
    and r :: "string + ton_trace option" and r' :: "string + unit"
  show "upsert_and_return_if_changed jsonb c tx s = (Inl e, s') \<Longrightarrow> s' = s"
    by (simp add: upsert_and_return_if_changed_def Let_def split: option.splits if_splits)
  show "upsert_and_return_if_changed jsonb c tx s = (Inr None, s') \<Longrightarrow> s' = s \<and> row_stored jsonb s tx"
    by (simp add: upsert_and_return_if_changed_def row_stored_def Let_def split: option.splits if_splits)
  show "upsert_and_return_if_changed jsonb c tx s = (Inr (Some row), s')
      \<Longrightarrow> \<not> row_stored jsonb s tx \<and> row_stored jsonb s' tx"
    by (auto simp: upsert_and_return_if_changed_def row_stored_def is_distinct_def Let_def row_simps
        split: option.splits if_splits)
  show "upsert_and_return_if_changed jsonb c tx s = (r, s') \<Longrightarrow> tt_trace_id tx \<noteq> tt_trace_id ty
      \<Longrightarrow> row_stored jsonb s' ty = row_stored jsonb s ty"
    by (auto simp: upsert_and_return_if_changed_def row_stored_def Let_def split: option.splits if_splits)
  show "upsert_and_return_if_changed jsonb c tx s = (r, s') \<Longrightarrow> tt_trace_id tx \<noteq> i
      \<Longrightarrow> row_complete s' i = row_complete s i"
    by (auto simp: upsert_and_return_if_changed_def row_complete_def Let_def split: option.splits if_splits)
  show "row_stored jsonb s (ton_trace_from u t) = row_stored jsonb s (ton_trace_from v t)" for u v t
    by (simp add: row_stored_def is_distinct_def row_simps split: option.splits)
  show "row_stored jsonb s tx \<Longrightarrow> row_complete s (tt_trace_id tx) = (\<not> tt_is_incomplete tx)"
    by (auto simp: row_stored_def row_complete_def is_distinct_def split: option.splits)
  show "decrease_retry c ty s = (r', s') \<Longrightarrow> row_stored jsonb s' tx = row_stored jsonb s tx"
    by (auto simp: decrease_retry_def row_stored_def is_distinct_def split: option.splits if_splits)
  show "decrease_retry c ty s = (r', s') \<Longrightarrow> row_complete s' i = row_complete s i"
    by (auto simp: decrease_retry_def row_complete_def split: option.splits if_splits)
qed

section \<open>Properties\<close>

text \<open>
  The atomic upsert, when the database answers, reports a row exactly when the trace
  was absent or one of its four columns changed; the reported row is then the one the table
  holds, it carries the new columns, and a row that existed before keeps its retry count,
  its events and its creation time, while a new one starts with ten retries. Otherwise the
  table is unchanged, and every other key is untouched in both cases.\<close>

theorem upsert_reports_change:
  assumes "answered call"
  shows "\<exists>res tbl'. upsert_and_return_if_changed jsonb call tx tbl = (Inr res, tbl')
    \<and> (res = None \<longleftrightarrow> row_stored jsonb tbl tx)
    \<and> (res = None \<longrightarrow> tbl' = tbl)
    \<and> (\<forall>row. res = Some row \<longrightarrow>
         tbl' = tbl(tt_trace_id tx \<mapsto> row)
         \<and> tt_is_incomplete row = tt_is_incomplete tx \<and> tt_start_lt row = tt_start_lt tx
         \<and> tt_end_lt row = tt_end_lt tx \<and> tt_transactions row = tt_transactions tx
         \<and> (case tbl (tt_trace_id tx) of
              None \<Rightarrow> tt_retries row = 10 \<and> tt_events row = None \<and> tt_created_at row = sql_now call
            | Some old \<Rightarrow> tt_retries row = tt_retries old \<and> tt_events row = tt_events old
                \<and> tt_created_at row = tt_created_at old \<and> tt_updated_at row = Some (sql_now call)))"
  using assms
  by (simp add: upsert_and_return_if_changed_def row_stored_def row_simps DEFAULT_RETRIES_def Let_def
      split: option.splits)

lemma upsert_reports_change_witness:
  "\<exists>row. upsert_and_return_if_changed id \<lparr>answered = True, sql_now = 7\<rparr>
      (ton_trace_from 3 (sample_trace [])) Map.empty = (Inr (Some row), [trace_id (sample_trace []) \<mapsto> row])
      \<and> tt_retries row = 10"
proof -
  have "tt_trace_id (ton_trace_from 3 (sample_trace [])) = trace_id (sample_trace [])"
    by (simp add: row_simps)
  then show ?thesis
    using upsert_reports_change [of "\<lparr>answered = True, sql_now = 7\<rparr>" id "ton_trace_from 3 (sample_trace [])" Map.empty]
    by (auto simp: row_stored_def)
qed

end
