(* ===== verification/Subscribers.thy ===== *)
theory Subscribers
  imports Trace_Store External
begin

text \<open>
  The two pollers that feed the transaction queue: \<open>TONSubscriber\<close>
  (\<open>src/src/subscriber.rs\<close>) asks the indexer for the traces after a cursor, and
  \<open>RetryTONSubscriber\<close> (\<open>src/src/retry_subscriber.rs\<close>) asks again for the traces
  stored as incomplete. Both are generic in the trace store, as the code is: the store's
  operations are arguments. The client's answer, the cursor database of \<open>relayer_core\<close> and
  the call environment of each statement (by its position in the loop) are arguments too.
  The pollers running side by side are the subject of \<open>Feed_System\<close>.
\<close>

section \<open>The subscriber\<close>

text \<open>\<open>relayer_core::database::Database\<close>, the operations used here.\<close>

record 'd heights =
  get_latest_height :: "string \<Rightarrow> string \<Rightarrow> 'd \<Rightarrow> string + i64 option"
  store_latest_height_db :: "string \<Rightarrow> string \<Rightarrow> i64 \<Rightarrow> 'd \<Rightarrow> (string + unit) \<times> 'd"

datatype subscriber_error = SubscriberGenericError string

record ton_subscriber =
  latest_lt :: i64
  context_name :: string
  chain_name :: string

type_synonym rest_traces = "ton_address option \<Rightarrow> string list option \<Rightarrow> i64 option \<Rightarrow> string + trace list"

definition subscriber_new ::
    "'d heights \<Rightarrow> 'd \<Rightarrow> string \<Rightarrow> string \<Rightarrow> subscriber_error + ton_subscriber" where
  "subscriber_new D d ctx chain =
     and_then (map_err SubscriberGenericError (get_latest_height D chain ctx d)) (\<lambda>h.
     Inr \<lparr>latest_lt = (case h of None \<Rightarrow> - 1 | Some n \<Rightarrow> n), context_name = ctx, chain_name = chain\<rparr>)"

definition store_latest_height ::
    "'d heights \<Rightarrow> ton_subscriber \<Rightarrow> 'd \<Rightarrow> (subscriber_error + unit) \<times> 'd" where
  "store_latest_height D sub d =
     (let (r, d') = store_latest_height_db D (chain_name sub) (context_name sub) (latest_lt sub) d
      in (map_err SubscriberGenericError r, d'))"

definition poll_start_lt :: "ton_subscriber \<Rightarrow> i64 option" where
  "poll_start_lt sub = (if latest_lt sub = - 1 then None else Some (latest_lt sub))"

text \<open>\<open>traces.iter().map(|trace| trace.end_lt).max()\<close>, on signed numbers.\<close>

fun max_end_lt :: "trace list \<Rightarrow> i64 option" where
  "max_end_lt [] = None"
| "max_end_lt (t # ts) =
     (case max_end_lt ts of None \<Rightarrow> Some (end_lt t)
      | Some m \<Rightarrow> Some (if sint (end_lt t) > sint m then end_lt t else m))"

text \<open>The loop over the traces: the first error of the store ends the poll.\<close>

fun upsert_unseen ::
    "('c \<Rightarrow> ton_trace \<Rightarrow> 's \<Rightarrow> (string + ton_trace option) \<times> 's) \<Rightarrow> (nat \<Rightarrow> 'c) \<Rightarrow> (nat \<Rightarrow> int)
      \<Rightarrow> trace list \<Rightarrow> 's \<Rightarrow> (string + trace list) \<times> 's" where
  "upsert_unseen upsert call utc [] s = (Inr [], s)"
| "upsert_unseen upsert call utc (t # ts) s =
     (case upsert (call 0) (ton_trace_from (utc 0) t) s of
        (Inl e, s') \<Rightarrow> (Inl e, s')
      | (Inr res, s') \<Rightarrow>
          (let (rest, s'') = upsert_unseen upsert (call \<circ> Suc) (utc \<circ> Suc) ts s'
           in (map_ok (\<lambda>us. (if res \<noteq> None \<and> \<not> is_incomplete t then [t] else []) @ us) rest, s'')))"

text \<open>The cursor moves to the largest \<open>end_lt\<close>; a failure to store it is only logged.\<close>

definition advance_cursor ::
    "'d heights \<Rightarrow> ton_subscriber \<Rightarrow> 'd \<Rightarrow> trace list \<Rightarrow> ton_subscriber \<times> 'd" where
  "advance_cursor D sub d ts =
     (case max_end_lt ts of
        None \<Rightarrow> (sub, d)
      | Some m \<Rightarrow>
          (let sub' = sub\<lparr>latest_lt := m\<rparr>
           in (sub', snd (store_latest_height D sub' d))))"

definition poll_account ::
    "'d heights \<Rightarrow> ('c \<Rightarrow> ton_trace \<Rightarrow> 's \<Rightarrow> (string + ton_trace option) \<times> 's) \<Rightarrow> (nat \<Rightarrow> 'c) \<Rightarrow> (nat \<Rightarrow> int)
      \<Rightarrow> rest_traces \<Rightarrow> ton_address \<Rightarrow> ton_subscriber \<Rightarrow> 'd \<Rightarrow> 's
      \<Rightarrow> (string + trace list) \<times> ton_subscriber \<times> 'd \<times> 's" where
  "poll_account D upsert call utc client a sub d s =
     (case client (Some a) None (poll_start_lt sub) of
        Inl e \<Rightarrow> (Inl e, sub, d, s)
      | Inr ts \<Rightarrow>
          (let (sub', d') = advance_cursor D sub d ts;
             (res, s') = upsert_unseen upsert call utc ts s
           in (res, sub', d', s')))"

text \<open>The remaining methods of \<open>TransactionPoller\<close>, the same in both subscribers.\<close>

definition make_queue_item :: "(trace \<Rightarrow> string + string) \<Rightarrow> trace \<Rightarrow> string + string" where
  "make_queue_item to_string tx = to_string tx"

definition poller_transaction_id :: "trace \<Rightarrow> string option" where
  "poller_transaction_id tx = Some (trace_id tx)"

definition poller_account_id :: "crates \<Rightarrow> ton_address \<Rightarrow> string option" where
  "poller_account_id X a = Some (address_to_hex X a)"

definition poll_tx :: "string \<Rightarrow> string exn + trace" where
  "poll_tx hash = Inl Panicked"

section \<open>The retry subscriber\<close>

definition RETRY_LIMIT :: u32 where
  "RETRY_LIMIT = 100"

text \<open>
  One trace of the retry poll: an incomplete one costs a retry, a complete one is stored. The map
  of the fetched retry counts only chooses the log line and is left out.
\<close>

definition retry_one ::
    "('c \<Rightarrow> ton_trace \<Rightarrow> 's \<Rightarrow> (string + ton_trace option) \<times> 's)
      \<Rightarrow> ('c \<Rightarrow> ton_trace \<Rightarrow> 's \<Rightarrow> (string + unit) \<times> 's) \<Rightarrow> 'c \<Rightarrow> ton_trace \<Rightarrow> 's
      \<Rightarrow> (string + ton_trace option) \<times> 's" where
  "retry_one upsert decrease c tx s =
     (if tt_is_incomplete tx
      then (let (r, s') = decrease c tx s in (map_ok (\<lambda>_. None) r, s'))
      else upsert c tx s)"

fun retry_unseen ::
    "('c \<Rightarrow> ton_trace \<Rightarrow> 's \<Rightarrow> (string + ton_trace option) \<times> 's)
      \<Rightarrow> ('c \<Rightarrow> ton_trace \<Rightarrow> 's \<Rightarrow> (string + unit) \<times> 's) \<Rightarrow> (nat \<Rightarrow> 'c) \<Rightarrow> (nat \<Rightarrow> int)
      \<Rightarrow> trace list \<Rightarrow> 's \<Rightarrow> (string + trace list) \<times> 's" where
  "retry_unseen upsert decrease call utc [] s = (Inr [], s)"
| "retry_unseen upsert decrease call utc (t # ts) s =
     (case retry_one upsert decrease (call 0) (ton_trace_from (utc 0) t) s of
        (Inl e, s') \<Rightarrow> (Inl e, s')
      | (Inr res, s') \<Rightarrow>
          (let (rest, s'') = retry_unseen upsert decrease (call \<circ> Suc) (utc \<circ> Suc) ts s'
           in (map_ok (\<lambda>us. (if res \<noteq> None \<and> \<not> is_incomplete t then [t] else []) @ us) rest, s'')))"

definition retry_poll_account ::
    "('c \<Rightarrow> u32 \<Rightarrow> 's \<Rightarrow> string + ton_trace list) \<Rightarrow> ('c \<Rightarrow> ton_trace \<Rightarrow> 's \<Rightarrow> (string + ton_trace option) \<times> 's)
      \<Rightarrow> ('c \<Rightarrow> ton_trace \<Rightarrow> 's \<Rightarrow> (string + unit) \<times> 's) \<Rightarrow> (nat \<Rightarrow> 'c) \<Rightarrow> (nat \<Rightarrow> int)
      \<Rightarrow> rest_traces \<Rightarrow> 's \<Rightarrow> (string + trace list) \<times> 's" where
  "retry_poll_account fetch upsert decrease call utc client s =
     (case fetch (call 0) RETRY_LIMIT s of
        Inl e \<Rightarrow> (Inl e, s)
      | Inr rows \<Rightarrow>
          if rows = [] then (Inr [], s)
          else (case client None (Some (map tt_trace_id rows)) None of
              Inl e \<Rightarrow> (Inl e, s)
            | Inr ts \<Rightarrow> retry_unseen upsert decrease (call \<circ> Suc) utc ts s))"

section \<open>What one poll delivers\<close>

text \<open>
  The indexer is consistent with the finished traces \<open>F\<close>: a trace it calls complete is the
  finished one, and it never calls a finished trace incomplete.
\<close>

definition consistent :: "(string \<rightharpoonup> trace) \<Rightarrow> trace \<Rightarrow> bool" where
  "consistent F t \<longleftrightarrow> F (trace_id t) = (if is_incomplete t then None else Some t)"

text \<open>The change of a store from \<open>s\<close> to \<open>s'\<close> delivers the traces \<open>us\<close>.\<close>

definition delivers ::
    "('s \<Rightarrow> ton_trace \<Rightarrow> bool) \<Rightarrow> ('s \<Rightarrow> string \<Rightarrow> bool) \<Rightarrow> (string \<rightharpoonup> trace) \<Rightarrow> 's \<Rightarrow> trace list \<Rightarrow> 's \<Rightarrow> bool" where
  "delivers stored complete F s us s' \<longleftrightarrow>
     (\<forall>t. F (trace_id t) = Some t \<longrightarrow> stored s (ton_trace_from 0 t) \<longrightarrow> stored s' (ton_trace_from 0 t))
     \<and> distinct (map trace_id us)
     \<and> (\<forall>u \<in> set us. F (trace_id u) = Some u \<and> \<not> is_incomplete u
          \<and> \<not> stored s (ton_trace_from 0 u) \<and> stored s' (ton_trace_from 0 u))
     \<and> (\<forall>i. complete s' i \<longrightarrow> complete s i \<or> i \<in> trace_id ` set us)"

lemma delivers_refl: "delivers stored complete F s [] s"
  by (simp add: delivers_def)

lemma delivers_kept:
  "\<lbrakk>delivers stored complete F s us s'; F (trace_id t) = Some t; stored s (ton_trace_from 0 t)\<rbrakk>
    \<Longrightarrow> stored s' (ton_trace_from 0 t)"
  by (simp add: delivers_def)

lemma delivers_new:
  "\<lbrakk>delivers stored complete F s us s'; u \<in> set us\<rbrakk>
    \<Longrightarrow> F (trace_id u) = Some u \<and> \<not> is_incomplete u
        \<and> \<not> stored s (ton_trace_from 0 u) \<and> stored s' (ton_trace_from 0 u)"
  by (simp add: delivers_def)

lemma delivers_distinct: "delivers stored complete F s us s' \<Longrightarrow> distinct (map trace_id us)"
  by (simp add: delivers_def)

lemma delivers_complete:
  "\<lbrakk>delivers stored complete F s us s'; complete s' i\<rbrakk> \<Longrightarrow> complete s i \<or> i \<in> trace_id ` set us"
  by (simp add: delivers_def)

context trace_model
begin

lemma stored_now: "stored s (ton_trace_from u t) = stored s (ton_trace_from 0 t)"
  by (rule stored_clock)

lemma upsert_delivers:
  assumes ups: "upsert c (ton_trace_from u t) s = (Inr res, s')" and con: "consistent F t"
  shows "delivers stored complete F s (if res \<noteq> None \<and> \<not> is_incomplete t then [t] else []) s'"
proof (cases res)
  case None
  then show ?thesis
    using upsert_unchanged [of c "ton_trace_from u t" s s'] ups by (simp add: delivers_refl)
next
  case (Some row)
  let ?tx = "ton_trace_from u t"
  have id: "tt_trace_id ?tx = trace_id t" "tt_is_incomplete ?tx = is_incomplete t"
    by (simp_all add: row_simps)
  have new: "\<not> stored s ?tx" "stored s' ?tx"
    using upsert_changed ups Some by blast+
  have kept: "stored s' (ton_trace_from 0 x)" if "F (trace_id x) = Some x" "stored s (ton_trace_from 0 x)" for x
  proof (cases "trace_id x = trace_id t")
    case True
    then have "x = t"
      using con that(1) by (auto simp: consistent_def split: if_splits)
    then show ?thesis
      using that(2) new stored_now by metis
  next
    case False
    then have "tt_trace_id ?tx \<noteq> tt_trace_id (ton_trace_from 0 x)"
      by (simp add: row_simps)
    then show ?thesis
      using upsert_other [OF ups] that(2) by blast
  qed
  have compl: "complete s i \<or> (i = trace_id t \<and> \<not> is_incomplete t)" if "complete s' i" for i
    using upsert_complete [OF ups] stored_complete [OF new(2)] that id by metis
  show ?thesis
    using kept compl con new Some stored_now
    by (auto simp: delivers_def consistent_def split: if_splits)
qed

lemma upsert_failure_delivers: "upsert c tx s = (Inl e, s') \<Longrightarrow> delivers stored complete F s [] s'"
  using upsert_error delivers_refl by metis

lemma decrease_delivers: "decrease c tx s = (r, s') \<Longrightarrow> delivers stored complete F s [] s'"
  by (auto simp: delivers_def dest: decrease_stored decrease_complete)

lemma retry_one_delivers:
  assumes "retry_one upsert decrease c (ton_trace_from u t) s = (Inr res, s')" "consistent F t"
  shows "delivers stored complete F s (if res \<noteq> None \<and> \<not> is_incomplete t then [t] else []) s'"
proof (cases "is_incomplete t")
  case True
  then show ?thesis
    using assms(1) by (auto simp: retry_one_def row_simps dest: decrease_delivers split: prod.splits)
next
  case False
  then have "upsert c (ton_trace_from u t) s = (Inr res, s')"
    using assms(1) by (simp add: retry_one_def row_simps)
  then show ?thesis
    using upsert_delivers assms(2) by blast
qed

lemma retry_one_failure_delivers:
  "retry_one upsert decrease c tx s = (Inl e, s') \<Longrightarrow> delivers stored complete F s [] s'"
  by (auto simp: retry_one_def dest: decrease_delivers upsert_failure_delivers split: prod.splits if_splits)

lemma upsert_unseen_distinct:
  "\<lbrakk>distinct (map trace_id ts); \<And>i tx s. \<exists>res s'. upsert (call i) tx s = (Inr res, s')\<rbrakk>
    \<Longrightarrow> fst (upsert_unseen upsert call utc ts s)
        = Inr (filter (\<lambda>t. \<not> is_incomplete t \<and> \<not> stored s (ton_trace_from 0 t)) ts)"
proof (induction ts arbitrary: call utc s)
  case Nil
  then show ?case by simp
next
  case (Cons t ts)
  obtain res s1 where up: "upsert (call 0) (ton_trace_from (utc 0) t) s = (Inr res, s1)"
    using Cons.prems(2) by blast
  have same: "stored s1 (ton_trace_from 0 x) = stored s (ton_trace_from 0 x)" if "x \<in> set ts" for x
  proof (rule upsert_other [OF up])
    show "tt_trace_id (ton_trace_from (utc 0) t) \<noteq> tt_trace_id (ton_trace_from 0 x)"
      using that Cons.prems(1) by (auto simp: row_simps)
  qed
  have "fst (upsert_unseen upsert (call \<circ> Suc) (utc \<circ> Suc) ts s1)
      = Inr (filter (\<lambda>t. \<not> is_incomplete t \<and> \<not> stored s1 (ton_trace_from 0 t)) ts)"
    using Cons.prems by (intro Cons.IH) auto
  also have "\<dots> = Inr (filter (\<lambda>t. \<not> is_incomplete t \<and> \<not> stored s (ton_trace_from 0 t)) ts)"
    using same by (auto intro: filter_cong)
  finally have rest: "fst (upsert_unseen upsert (call \<circ> Suc) (utc \<circ> Suc) ts s1)
      = Inr (filter (\<lambda>t. \<not> is_incomplete t \<and> \<not> stored s (ton_trace_from 0 t)) ts)" .
  have "res = None \<longleftrightarrow> stored s (ton_trace_from 0 t)"
    using up upsert_unchanged upsert_changed stored_now by (metis not_Some_eq)
  then show ?case
    using up rest by (auto split: prod.splits)
qed

lemma upsert_unseen_subset: "upsert_unseen upsert call utc ts s = (Inr us, s') \<Longrightarrow> set us \<subseteq> set ts"
proof (induction ts arbitrary: call utc s us s')
  case (Cons x ts)
  obtain res s1 where up: "upsert (call 0) (ton_trace_from (utc 0) x) s = (Inr res, s1)"
    using Cons.prems by (auto split: sum.splits prod.splits)
  obtain r s2 where rest: "upsert_unseen upsert (call \<circ> Suc) (utc \<circ> Suc) ts s1 = (r, s2)" by fastforce
  with up Cons.prems obtain us' where "r = Inr us'" "us = (if res \<noteq> None \<and> \<not> is_incomplete x then [x] else []) @ us'"
    by (cases r) auto
  moreover from this rest have "set us' \<subseteq> set ts" using Cons.IH by blast
  ultimately show ?case by (auto split: if_splits)
qed simp

text \<open>A loop whose statements are all answered ends, and the finished traces of the answer are stored.\<close>

lemma upsert_stores:
  assumes "upsert c tx s = (Inr res, s')"
  shows "stored s' tx"
proof (cases res)
  case None
  with upsert_unchanged [of c tx s s'] assms show ?thesis by simp
next
  case (Some row)
  with upsert_changed [of c tx s row s'] assms show ?thesis by simp
qed

lemma upsert_unseen_stores:
  "\<lbrakk>list_all (consistent F) ts; \<And>i tx s. \<exists>res s'. upsert (call i) tx s = (Inr res, s')\<rbrakk>
    \<Longrightarrow> \<exists>us s'. upsert_unseen upsert call utc ts s = (Inr us, s')
        \<and> (\<forall>t. F (trace_id t) = Some t \<longrightarrow> t \<in> set ts \<or> stored s (ton_trace_from 0 t) \<longrightarrow> stored s' (ton_trace_from 0 t))"
proof (induction ts arbitrary: call utc s)
  case (Cons x ts)
  obtain res s1 where up: "upsert (call 0) (ton_trace_from (utc 0) x) s = (Inr res, s1)"
    using Cons.prems(2) by blast
  have "stored s1 (ton_trace_from (utc 0) x)"
    by (rule upsert_stores [OF up])
  then have now: "stored s1 (ton_trace_from 0 x)" by (rule iffD1 [OF stored_now])
  have del: "delivers stored complete F s (if res \<noteq> None \<and> \<not> is_incomplete x then [x] else []) s1"
    by (rule upsert_delivers [OF up]) (use Cons.prems(1) in simp)
  have kept: "stored s1 (ton_trace_from 0 t)" if "F (trace_id t) = Some t" "t = x \<or> stored s (ton_trace_from 0 t)" for t
    using that(2) now delivers_kept [OF del that(1)] by auto
  have con: "consistent F x" "list_all (consistent F) ts" using Cons.prems(1) by simp_all
  have "\<exists>res s'. upsert ((call \<circ> Suc) i) tx s = (Inr res, s')" for i tx s
    unfolding comp_apply by (rule Cons.prems(2))
  from Cons.IH [of "call \<circ> Suc" "utc \<circ> Suc" s1, OF con(2) this] obtain us s2 where rest: "upsert_unseen upsert (call \<circ> Suc) (utc \<circ> Suc) ts s1 = (Inr us, s2)"
    and "\<forall>t. F (trace_id t) = Some t \<longrightarrow> t \<in> set ts \<or> stored s1 (ton_trace_from 0 t) \<longrightarrow> stored s2 (ton_trace_from 0 t)"
    by blast
  then have "stored s2 (ton_trace_from 0 t)" if "F (trace_id t) = Some t" "t \<in> set (x # ts) \<or> stored s (ton_trace_from 0 t)" for t
    using that kept [of t] by simp blast
  moreover have "\<exists>us'. upsert_unseen upsert call utc (x # ts) s = (Inr us', s2)" using up rest by simp
  ultimately show ?case by blast
qed simp

text \<open>A trace that is stored is not returned again.\<close>

lemma upsert_unseen_skips:
  "upsert_unseen upsert call utc ts s = (Inr us, s') \<Longrightarrow> distinct (map trace_id ts) \<Longrightarrow> stored s (ton_trace_from 0 t) \<Longrightarrow> t \<notin> set us"
proof (induction ts arbitrary: call utc s us s')
  case (Cons x ts)
  obtain res s1 where up: "upsert (call 0) (ton_trace_from (utc 0) x) s = (Inr res, s1)"
    using Cons.prems(1) by (auto split: sum.splits prod.splits)
  obtain r s2 where rest: "upsert_unseen upsert (call \<circ> Suc) (utc \<circ> Suc) ts s1 = (r, s2)" by fastforce
  with up Cons.prems(1) obtain us' where r: "r = Inr us'" and us: "us = (if res \<noteq> None \<and> \<not> is_incomplete x then [x] else []) @ us'"
    by (cases r) auto
  show ?case
  proof (cases "trace_id x = trace_id t")
    case True
    then have "t \<notin> set us'" using upsert_unseen_subset [OF rest [unfolded r]] Cons.prems(2) by force
    moreover have "res = None" if "x = t"
      using up upsert_changed Cons.prems(3) stored_now that by (metis not_Some_eq)
    ultimately show ?thesis using us by auto
  next
    case False
    then have "tt_trace_id (ton_trace_from (utc 0) x) \<noteq> tt_trace_id (ton_trace_from 0 t)" by (simp add: row_simps)
    then have "stored s1 (ton_trace_from 0 t)" using upsert_other [OF up] Cons.prems(3) by blast
    then have "t \<notin> set us'" using Cons.IH [OF rest [unfolded r]] Cons.prems(2) by simp
    with us False show ?thesis by auto
  qed
qed simp

end


section \<open>Sample data\<close>

definition mem_heights :: "i64 option heights" where
  "mem_heights =
     \<lparr>get_latest_height = (\<lambda>_ _ d. Inr d), store_latest_height_db = (\<lambda>_ _ n d. (Inr (), Some n))\<rparr>"

definition sample_subscriber :: ton_subscriber where
  "sample_subscriber = \<lparr>latest_lt = - 1, context_name = ''ctx'', chain_name = ''ton''\<rparr>"

definition answered_at :: "int \<Rightarrow> sql_call" where
  "answered_at n = \<lparr>answered = True, sql_now = n\<rparr>"

lemma answered_at_sel [simp]: "answered (answered_at n)" "sql_now (answered_at n) = n"
  by (simp_all add: answered_at_def)

lemma sample_trace_sel [simp]:
  "is_incomplete (sample_trace txs) = False" "transactions (sample_trace txs) = txs"
  by (simp_all add: sample_trace_def)

section \<open>Single polls\<close>

lemma upsert_answered:
  "answered c \<Longrightarrow> \<exists>res tbl'. upsert_and_return_if_changed jsonb c tx tbl = (Inr res, tbl')"
  by (auto simp: upsert_and_return_if_changed_def Let_def split: option.splits)

lemma poll_account_parts:
  assumes "client (Some a) None (poll_start_lt sub) = Inr ts"
    and "poll_account D upsert call utc client a sub d s = (r, sub', d', s')"
  shows "(r, s') = upsert_unseen upsert call utc ts s"
    and "latest_lt sub' = (case max_end_lt ts of None \<Rightarrow> latest_lt sub | Some m \<Rightarrow> m)"
    and "d' = (case max_end_lt ts of None \<Rightarrow> d
           | Some m \<Rightarrow> snd (store_latest_height_db D (chain_name sub) (context_name sub) m d))"
  using assms
  by (auto simp: poll_account_def advance_cursor_def store_latest_height_def Let_def
      split: prod.splits option.splits)

lemma max_end_lt_is_max:
  "ts \<noteq> [] \<Longrightarrow> \<exists>m. max_end_lt ts = Some m \<and> m \<in> end_lt ` set ts \<and> (\<forall>t \<in> set ts. sint (end_lt t) \<le> sint m)"
  by (induction ts rule: max_end_lt.induct) (fastforce split: option.splits)+

text \<open>
  A poll in which the indexer answers with traces of different ids and the database
  answers every statement returns exactly the complete traces that were not stored in the
  same form before, in the order of the answer; and the cursor, in memory and in the database
  write, moves to the largest \<open>end_lt\<close> of the answer, which is the start of the next poll.\<close>

theorem poll_account_returns_new:
  assumes "client (Some a) None (poll_start_lt sub) = Inr ts" "ts \<noteq> []" "distinct (map trace_id ts)"
    and "\<forall>i. answered (call i)"
    and "poll_account D (upsert_and_return_if_changed jsonb) call utc client a sub d tbl = (r, sub', d', tbl')"
  shows "r = Inr (filter (\<lambda>t. \<not> is_incomplete t \<and> \<not> row_stored jsonb tbl (ton_trace_from 0 t)) ts)
    \<and> (\<exists>t \<in> set ts. latest_lt sub' = end_lt t \<and> (\<forall>u \<in> set ts. sint (end_lt u) \<le> sint (end_lt t))
         \<and> d' = snd (store_latest_height_db D (chain_name sub) (context_name sub) (end_lt t) d))"
proof -
  note parts = poll_account_parts [OF assms(1, 5)]
  have "fst (upsert_unseen (upsert_and_return_if_changed jsonb) call utc ts tbl)
      = Inr (filter (\<lambda>t. \<not> is_incomplete t \<and> \<not> row_stored jsonb tbl (ton_trace_from 0 t)) ts)"
    using assms(3, 4) upsert_answered by (intro pg.upsert_unseen_distinct) blast+
  moreover have "fst (r, tbl') = fst (upsert_unseen (upsert_and_return_if_changed jsonb) call utc ts tbl)"
    by (simp only: parts(1))
  ultimately have "r = Inr (filter (\<lambda>t. \<not> is_incomplete t \<and> \<not> row_stored jsonb tbl (ton_trace_from 0 t)) ts)"
    by simp
  then show ?thesis
    using parts(2, 3) max_end_lt_is_max [OF assms(2)] by auto
qed

lemma poll_account_returns_new_witness:
  "fst (poll_account mem_heights (upsert_and_return_if_changed (\<lambda>x. x)) (\<lambda>_. answered_at 0) (\<lambda>_. 0)
      (\<lambda>_ _ _. Inr [sample_trace []]) (TonAddress 0 []) sample_subscriber None Map.empty) = Inr [sample_trace []]"
proof -
  obtain r sub' d' tbl' where run: "poll_account mem_heights (upsert_and_return_if_changed (\<lambda>x. x)) (\<lambda>_. answered_at 0)
      (\<lambda>_. 0) (\<lambda>_ _ _. Inr [sample_trace []]) (TonAddress 0 []) sample_subscriber None Map.empty = (r, sub', d', tbl')"
    by (metis surj_pair)
  show ?thesis
    using poll_account_returns_new [OF _ _ _ _ run, of "[sample_trace []]"] run by (simp add: row_stored_def)
qed

text \<open>A loop whose statements are answered up to one of them.\<close>

lemma upsert_unseen_fails:
  assumes "distinct (map trace_id (xs @ x # ys))" "\<forall>i < length xs. answered (call i)" "\<not> answered (call (length xs))"
    and "upsert_unseen (upsert_and_return_if_changed jsonb) call utc (xs @ x # ys) tbl = (r, tbl')"
  shows "r = Inl ''database error''" "\<forall>t \<in> set xs. row_stored jsonb tbl' (ton_trace_from 0 t)"
proof -
  have "r = Inl ''database error'' \<and> (\<forall>t \<in> set xs. row_stored jsonb tbl' (ton_trace_from 0 t))
    \<and> (\<forall>t. trace_id t \<notin> trace_id ` set xs \<longrightarrow> row_stored jsonb tbl' (ton_trace_from 0 t) = row_stored jsonb tbl (ton_trace_from 0 t))"
    using assms
  proof (induction xs arbitrary: call utc tbl r)
    case Nil
    then show ?case by (auto simp: upsert_and_return_if_changed_def)
  next
    case (Cons u xs)
    then have "answered (call 0)" by auto
    then obtain res tbl1 where up: "upsert_and_return_if_changed jsonb (call 0) (ton_trace_from (utc 0) u) tbl = (Inr res, tbl1)"
      using upsert_answered by blast
    obtain r' tbl2 where rest: "upsert_unseen (upsert_and_return_if_changed jsonb) (call \<circ> Suc) (utc \<circ> Suc) (xs @ x # ys) tbl1 = (r', tbl2)"
      by fastforce
    with up Cons.prems(4) have "tbl2 = tbl'" and r: "r' = Inl ''database error'' \<Longrightarrow> r = Inl ''database error''"
      by (cases r'; auto)+
    have IH: "r' = Inl ''database error'' \<and> (\<forall>t \<in> set xs. row_stored jsonb tbl' (ton_trace_from 0 t))
      \<and> (\<forall>t. trace_id t \<notin> trace_id ` set xs \<longrightarrow> row_stored jsonb tbl' (ton_trace_from 0 t) = row_stored jsonb tbl1 (ton_trace_from 0 t))"
      by (rule Cons.IH) (use Cons.prems rest \<open>tbl2 = tbl'\<close> in auto)
    have "row_stored jsonb tbl1 (ton_trace_from 0 u)"
      using up pg.upsert_changed pg.upsert_unchanged pg.stored_now by (metis not_Some_eq)
    moreover have "trace_id u \<notin> trace_id ` set xs" using Cons.prems(1) by auto
    ultimately have "row_stored jsonb tbl' (ton_trace_from 0 u)" using IH by blast
    moreover have "row_stored jsonb tbl1 (ton_trace_from 0 t) = row_stored jsonb tbl (ton_trace_from 0 t)" if "trace_id t \<noteq> trace_id u" for t
      by (rule pg.upsert_other [OF up]) (use that in \<open>simp add: row_simps\<close>)
    ultimately show ?case using IH r by auto
  qed
  then show "r = Inl ''database error''" "\<forall>t \<in> set xs. row_stored jsonb tbl' (ton_trace_from 0 t)" by blast+
qed

text \<open>
  Claim C38: the cursor moves before the traces are stored, and a failure of the database on a
  later trace makes the whole poll fail. Let the indexer answer with traces of different ids, and
  let the database fail at one of them: the poll returns an error, each trace before it is stored
  nevertheless, and the cursor is past it. From then on, as long as its row is not overwritten, no
  successful poll of any subscriber returns such a trace, complete or not, whatever the indexer
  answers, each trace once: the trace is lost to the queue.\<close>

theorem poll_error_loses_trace:
  assumes "client (Some a) None (poll_start_lt sub) = Inr (xs @ x # ys)" "distinct (map trace_id (xs @ x # ys))"
    and "\<forall>i < length xs. answered (call i)" "\<not> answered (call (length xs))" "t \<in> set xs"
    and "poll_account D (upsert_and_return_if_changed jsonb) call utc client a sub d tbl = (r, sub', d', tbl')"
  shows "r = Inl ''database error'' \<and> sint (end_lt t) \<le> sint (latest_lt sub') \<and> row_stored jsonb tbl' (ton_trace_from 0 t)
    \<and> (\<forall>call1 utc1 client1 a1 sub1 d1 tbl1 ts us sub2 d2 tbl2.
        row_stored jsonb tbl1 (ton_trace_from 0 t) \<longrightarrow> client1 (Some a1) None (poll_start_lt sub1) = Inr ts \<longrightarrow>
        distinct (map trace_id ts) \<longrightarrow>
        poll_account D (upsert_and_return_if_changed jsonb) call1 utc1 client1 a1 sub1 d1 tbl1 = (Inr us, sub2, d2, tbl2) \<longrightarrow>
        t \<notin> set us)"
proof -
  note parts = poll_account_parts [OF assms(1, 6)]
  note fails = upsert_unseen_fails [OF assms(2-4) parts(1) [symmetric]]
  have "t \<notin> set us" if "row_stored jsonb tbl1 (ton_trace_from 0 t)" "client1 (Some a1) None (poll_start_lt sub1) = Inr ts"
      "distinct (map trace_id ts)"
      "poll_account D (upsert_and_return_if_changed jsonb) call1 utc1 client1 a1 sub1 d1 tbl1 = (Inr us, sub2, d2, tbl2)"
    for call1 utc1 client1 a1 sub1 d1 tbl1 ts us sub2 d2 tbl2
    using pg.upsert_unseen_skips [OF poll_account_parts(1) [OF that(2,4), symmetric] that(3,1)] .
  moreover have "row_stored jsonb tbl' (ton_trace_from 0 t)" using fails(2) assms(5) by blast
  moreover obtain m where "max_end_lt (xs @ x # ys) = Some m" "\<forall>t \<in> set (xs @ x # ys). sint (end_lt t) \<le> sint m"
    using max_end_lt_is_max [of "xs @ x # ys"] by auto
  then have "sint (end_lt t) \<le> sint (latest_lt sub')" using parts(2) assms(5) by simp
  ultimately show ?thesis using fails(1) by blast
qed

lemma poll_error_loses_trace_witness:
  "\<exists>r sub' d' tbl'.
     poll_account mem_heights (upsert_and_return_if_changed (\<lambda>x. x)) (\<lambda>i. \<lparr>answered = (i = 0), sql_now = 0\<rparr>) (\<lambda>_. 0)
       (\<lambda>_ _ _. Inr [sample_trace [], (sample_trace [])\<lparr>trace_id := ''x''\<rparr>]) (TonAddress 0 []) sample_subscriber None
       Map.empty = (r, sub', d', tbl')
     \<and> r = Inl ''database error'' \<and> \<not> is_incomplete (sample_trace [])
     \<and> sample_trace [] \<notin> set (projr (fst (poll_account mem_heights (upsert_and_return_if_changed (\<lambda>x. x)) (\<lambda>_. answered_at 1) (\<lambda>_. 0)
          (\<lambda>_ _ _. Inr [sample_trace [], (sample_trace [])\<lparr>trace_id := ''x''\<rparr>]) (TonAddress 0 []) sub' d' tbl')))"
proof -
  let ?t = "sample_trace []" and ?x = "(sample_trace [])\<lparr>trace_id := ''x''\<rparr>"
  let ?client = "\<lambda>_ _ _. Inr [?t, ?x] :: string + trace list"
  let ?up = "upsert_and_return_if_changed (\<lambda>x. x)" and ?a = "TonAddress 0 []"
  let ?call = "\<lambda>i :: nat. \<lparr>answered = (i = 0), sql_now = 0\<rparr>"
  obtain r sub' d' tbl' where one: "poll_account mem_heights ?up ?call (\<lambda>_. 0) ?client ?a sample_subscriber None Map.empty
      = (r, sub', d', tbl')"
    by (metis surj_pair)
  have ids: "distinct (map trace_id [?t, ?x])" by (simp add: sample_trace_def)
  have ans: "?client (Some ?a) None (poll_start_lt sample_subscriber) = Inr ([?t] @ ?x # [])" "distinct (map trace_id ([?t] @ ?x # []))"
      "\<forall>i < length [?t]. answered (?call i)" "\<not> answered (?call (length [?t]))" "?t \<in> set [?t]"
    using ids by simp_all
  note lost = poll_error_loses_trace [OF ans one]
  have r: "r = Inl ''database error''" "row_stored (\<lambda>x. x) tbl' (ton_trace_from 0 ?t)"
    by (rule lost [THEN conjunct1], rule lost [THEN conjunct2, THEN conjunct2, THEN conjunct1])
  obtain r' sub'' d'' tbl'' where two: "poll_account mem_heights ?up (\<lambda>_. answered_at 1) (\<lambda>_. 0) ?client ?a sub' d' tbl'
      = (r', sub'', d'', tbl'')"
    by (metis surj_pair)
  have "fst (upsert_unseen ?up (\<lambda>_. answered_at 1) (\<lambda>_. 0) [?t, ?x] tbl')
      = Inr (filter (\<lambda>t. \<not> is_incomplete t \<and> \<not> row_stored (\<lambda>x. x) tbl' (ton_trace_from 0 t)) [?t, ?x])"
    using ids upsert_answered [of _ "\<lambda>x. x"] by (intro pg.upsert_unseen_distinct) auto
  moreover have "fst (r', tbl'') = fst (upsert_unseen ?up (\<lambda>_. answered_at 1) (\<lambda>_. 0) [?t, ?x] tbl')"
    by (simp only: poll_account_parts(1) [OF refl two])
  ultimately have "\<exists>us. r' = Inr us" by (simp only: fst_conv sum.inject) blast
  then obtain us where us: "r' = Inr us" by blast
  have "?t \<notin> set us"
    by (rule lost [THEN conjunct2, THEN conjunct2, THEN conjunct2, rule_format, OF r(2) refl ids two [unfolded us]])
  then have "?t \<notin> set (projr (fst (poll_account mem_heights ?up (\<lambda>_. answered_at 1) (\<lambda>_. 0) ?client ?a sub' d' tbl')))"
    by (simp only: two us fst_conv sum.sel not_False_eq_True)
  moreover have "\<not> is_incomplete ?t" by simp
  ultimately show ?thesis using one r(1) by (intro exI conjI)
qed


section \<open>Retries end\<close>

text \<open>The retries a row may still cause, and those of the whole table.\<close>

definition retry_weight :: "ton_trace option \<Rightarrow> nat" where
  "retry_weight x =
     (case x of None \<Rightarrow> 0 | Some row \<Rightarrow> if wants_retry row then nat (sint (tt_retries row)) else 0)"

definition retry_work :: "ton_traces \<Rightarrow> nat" where
  "retry_work tbl = (\<Sum>i \<in> dom tbl. retry_weight (tbl i))"

lemma retry_weight_None [simp]: "retry_weight None = 0"
  by (simp add: retry_weight_def)

lemma sint_pred:
  fixes w :: i32
  assumes "sint w \<noteq> - (2 ^ 31)"
  shows "sint (w - 1) = sint w - 1"
proof -
  have "- (2 ^ 31) \<le> sint w" "sint w < 2 ^ 31"
    using sint_ge [of w] sint_less [of w] by simp_all
  with assms show ?thesis
    using sint_exact [of "sint w - 1", where 'w = 32] by simp
qed

abbreviation retry_row ::
    "(transaction list \<Rightarrow> 'j) \<Rightarrow> sql_call \<Rightarrow> ton_trace \<Rightarrow> ton_traces \<Rightarrow> (string + ton_trace option) \<times> ton_traces" where
  "retry_row jsonb \<equiv> retry_one (upsert_and_return_if_changed jsonb) decrease_retry"

text \<open>One answered trace: no row gets more retries, and a row waiting for a retry gets fewer.\<close>

lemma retry_one_other:
  "retry_row jsonb c tx tbl = (r, tbl') \<Longrightarrow> i \<noteq> tt_trace_id tx \<Longrightarrow> tbl' i = tbl i"
  by (auto simp: retry_one_def decrease_retry_def upsert_and_return_if_changed_def Let_def
      split: option.splits if_splits prod.splits)

lemma retry_one_row:
  assumes "retry_row jsonb c tx tbl = (r, tbl')"
  shows "(tbl' (tt_trace_id tx) = tbl (tt_trace_id tx) \<and> (is_ok r \<longrightarrow> retry_weight (tbl (tt_trace_id tx)) = 0))
    \<or> (\<exists>row. tbl (tt_trace_id tx) = Some row \<and> sint (tt_retries row) \<noteq> - (2 ^ 31)
         \<and> tbl' (tt_trace_id tx) = Some (row\<lparr>tt_retries := tt_retries row - 1\<rparr>))
    \<or> (\<exists>row. tbl' (tt_trace_id tx) = Some row \<and> \<not> tt_is_incomplete row)"
proof (cases "tt_is_incomplete tx")
  case True
  then show ?thesis
    using assms by (auto simp: retry_one_def decrease_retry_def split: option.splits if_splits)
next
  case False
  then show ?thesis
    using assms
    by (auto simp: retry_one_def upsert_and_return_if_changed_def row_simps is_distinct_def Let_def
        split: option.splits if_splits)
qed

lemma retry_weight_decreased:
  "sint (tt_retries row) \<noteq> - (2 ^ 31)
    \<Longrightarrow> retry_weight (Some (row\<lparr>tt_retries := tt_retries row - 1\<rparr>)) = retry_weight (Some row) - 1"
  by (auto simp: retry_weight_def wants_retry_def sint_pred)

lemma retry_weight_complete: "\<not> tt_is_incomplete row \<Longrightarrow> retry_weight (Some row) = 0"
  by (simp add: retry_weight_def wants_retry_def)

lemma retry_one_weight:
  assumes "retry_row jsonb c tx tbl = (r, tbl')"
  shows "retry_weight (tbl' i) \<le> retry_weight (tbl i)"
proof (cases "i = tt_trace_id tx")
  case True
  then show ?thesis
    using retry_one_row [OF assms] by (auto simp: retry_weight_decreased retry_weight_complete)
qed (simp add: retry_one_other [OF assms])

lemma retry_one_strict:
  assumes "retry_row jsonb c tx tbl = (Inr r, tbl')" "tbl (tt_trace_id tx) = Some row" "wants_retry row"
  shows "retry_weight (tbl' (tt_trace_id tx)) < retry_weight (tbl (tt_trace_id tx))"
proof -
  have "0 < retry_weight (Some row)"
    using assms(3) by (simp add: retry_weight_def wants_retry_def)
  then show ?thesis
    using retry_one_row [OF assms(1)] assms(2) by (auto simp: retry_weight_decreased retry_weight_complete)
qed

lemma retry_unseen_Cons:
  assumes "retry_unseen (upsert_and_return_if_changed jsonb) decrease_retry call utc (t # ts) tbl = (r, tbl')"
    and "retry_row jsonb (call 0) (ton_trace_from (utc 0) t) tbl = (x, tbl1)"
  shows "(\<exists>e. x = Inl e \<and> r = Inl e \<and> tbl' = tbl1)
    \<or> (\<exists>res r'. x = Inr res
         \<and> retry_unseen (upsert_and_return_if_changed jsonb) decrease_retry (call \<circ> Suc) (utc \<circ> Suc) ts tbl1 = (r', tbl'))"
  using assms by (auto simp: Let_def split: sum.splits prod.splits)

lemma retry_unseen_weight:
  "retry_unseen (upsert_and_return_if_changed jsonb) decrease_retry call utc ts tbl = (r, tbl')
    \<Longrightarrow> retry_weight (tbl' i) \<le> retry_weight (tbl i)"
proof (induction ts arbitrary: call utc tbl r)
  case Nil
  then show ?case by simp
next
  case (Cons t ts)
  obtain x tbl1 where one: "retry_row jsonb (call 0) (ton_trace_from (utc 0) t) tbl = (x, tbl1)"
    by fastforce
  have "retry_weight (tbl' i) \<le> retry_weight (tbl1 i)"
    using retry_unseen_Cons [OF Cons.prems one] Cons.IH by auto
  then show ?case
    using retry_one_weight [OF one, of i] by simp
qed

lemma retry_work_le:
  assumes fin: "finite (dom tbl)" and le: "\<And>i. retry_weight (tbl' i) \<le> retry_weight (tbl i)"
  shows "retry_work tbl' \<le> (\<Sum>i \<in> dom tbl. retry_weight (tbl' i))"
proof (cases "finite (dom tbl')")
  case True
  have out: "retry_weight (tbl' i) = 0" if "i \<notin> dom tbl" for i
    using le [of i] that by (simp add: domIff)
  have "retry_work tbl' = (\<Sum>i \<in> dom tbl' \<inter> dom tbl. retry_weight (tbl' i))"
    unfolding retry_work_def using True out by (intro sum.mono_neutral_right) auto
  also have "\<dots> \<le> (\<Sum>i \<in> dom tbl. retry_weight (tbl' i))"
    using fin by (intro sum_mono2) auto
  finally show ?thesis .
qed (simp add: retry_work_def)

lemma retry_work_mono:
  assumes "finite (dom tbl)" "\<And>i. retry_weight (tbl' i) \<le> retry_weight (tbl i)"
  shows "retry_work tbl' \<le> retry_work tbl"
  using retry_work_le [OF assms] sum_mono [of "dom tbl" "\<lambda>i. retry_weight (tbl' i)" "\<lambda>i. retry_weight (tbl i)"] assms(2)
  by (simp add: retry_work_def)

lemma retry_work_less:
  assumes fin: "finite (dom tbl)" and le: "\<And>i. retry_weight (tbl' i) \<le> retry_weight (tbl i)"
    and less: "retry_weight (tbl' j) < retry_weight (tbl j)"
  shows "retry_work tbl' < retry_work tbl"
proof -
  have "retry_work tbl' \<le> (\<Sum>i \<in> dom tbl. retry_weight (tbl' i))" by (rule retry_work_le [OF fin le])
  also have "\<dots> < retry_work tbl"
    unfolding retry_work_def
  proof (rule sum_strict_mono_ex1)
    show "\<exists>i \<in> dom tbl. retry_weight (tbl' i) < retry_weight (tbl i)"
      using less by (intro bexI [of _ j]) (auto simp: domIff intro: ccontr)
  qed (use fin le in auto)
  finally show ?thesis .
qed

text \<open>A retry poll, whatever its outcome, keeps the table keyed and finite and adds no retries.\<close>

definition table_fine :: "ton_traces \<Rightarrow> bool" where
  "table_fine tbl \<longleftrightarrow> keyed tbl \<and> finite (dom tbl)"

lemma retry_one_fine:
  assumes "table_fine tbl" "retry_row jsonb c tx tbl = (r, tbl')"
  shows "table_fine tbl'"
proof -
  have "keyed tbl'"
    using assms keyed_upsert [of tbl jsonb c tx] keyed_decrease [of tbl c tx]
    by (auto simp: table_fine_def retry_one_def split: if_splits prod.splits)
  moreover have "dom tbl' \<subseteq> insert (tt_trace_id tx) (dom tbl)"
    using retry_one_other [OF assms(2)] by (fastforce simp: domIff)
  ultimately show ?thesis using assms(1) by (auto simp: table_fine_def intro: finite_subset)
qed

lemma retry_unseen_fine:
  "table_fine tbl \<Longrightarrow> retry_unseen (upsert_and_return_if_changed jsonb) decrease_retry call utc ts tbl = (r, tbl') \<Longrightarrow> table_fine tbl'"
proof (induction ts arbitrary: call utc tbl r)
  case (Cons t ts)
  obtain x tbl1 where one: "retry_row jsonb (call 0) (ton_trace_from (utc 0) t) tbl = (x, tbl1)" by fastforce
  then have "table_fine tbl1" by (rule retry_one_fine [OF Cons.prems(1)])
  with retry_unseen_Cons [OF Cons.prems(2) one] Cons.IH show ?case by auto
qed simp

lemma retry_poll_cases:
  assumes "retry_poll_account fetch (upsert_and_return_if_changed jsonb) decrease_retry call utc client tbl = (r, tbl')"
  shows "tbl' = tbl \<or> (\<exists>ts. retry_unseen (upsert_and_return_if_changed jsonb) decrease_retry (call \<circ> Suc) utc ts tbl = (r, tbl'))"
  using assms by (auto simp: retry_poll_account_def split: sum.splits if_splits)

lemma retry_poll_fine:
  assumes "table_fine tbl"
    and "retry_poll_account fetch (upsert_and_return_if_changed jsonb) decrease_retry call utc client tbl = (r, tbl')"
  shows "table_fine tbl'" "retry_work tbl' \<le> retry_work tbl"
proof -
  from retry_poll_cases [OF assms(2)] consider "tbl' = tbl"
    | ts where "retry_unseen (upsert_and_return_if_changed jsonb) decrease_retry (call \<circ> Suc) utc ts tbl = (r, tbl')" by blast
  then show "table_fine tbl'" using assms(1) retry_unseen_fine by cases blast+
  from retry_poll_cases [OF assms(2)] have "retry_weight (tbl' i) \<le> retry_weight (tbl i)" for i
    using retry_unseen_weight [of jsonb "call \<circ> Suc" utc _ tbl r tbl' i] by auto
  then show "retry_work tbl' \<le> retry_work tbl" using assms(1) retry_work_mono by (simp add: table_fine_def)
qed

lemma fetch_retry_rows:
  assumes "fetch_retry c scan limit tbl = Inr rows" "keyed tbl" "row \<in> set rows"
  shows "tbl (tt_trace_id row) = Some row \<and> wants_retry row"
proof -
  have "row \<in> set (filter wants_retry (List.map_filter tbl scan))"
    using assms by (auto simp: fetch_retry_def split: if_splits dest: in_set_takeD)
  then obtain i where "tbl i = Some row" "wants_retry row"
    by (auto simp: List.map_filter_def)
  then show ?thesis
    using assms(2) by (auto simp: keyed_def)
qed

text \<open>A successful retry poll that is answered, with traces that were asked for.\<close>

lemma retry_poll_decreases_work:
  assumes "keyed tbl" "finite (dom tbl)"
    and "retry_poll_account (\<lambda>c. fetch_retry c scan) (upsert_and_return_if_changed jsonb) decrease_retry call utc client tbl
      = (Inr us, tbl')"
    and "fetch_retry (call 0) scan 100 tbl = Inr rows" "rows \<noteq> []"
    and "client None (Some (map tt_trace_id rows)) None = Inr ts" "ts \<noteq> []"
    and "trace_id ` set ts \<subseteq> tt_trace_id ` set rows"
  shows "retry_work tbl' < retry_work tbl"
proof -
  obtain t ts' where ts: "ts = t # ts'" using assms(7) by (cases ts) auto
  let ?tx = "ton_trace_from (utc 0) t"
  obtain x tbl1 where one: "retry_row jsonb (call 1) ?tx tbl = (x, tbl1)"
    by fastforce
  have loop: "retry_unseen (upsert_and_return_if_changed jsonb) decrease_retry (call \<circ> Suc) utc ts tbl = (Inr us, tbl')"
    using assms(3-6) by (simp add: retry_poll_account_def RETRY_LIMIT_def)
  obtain res r' where x: "x = Inr res"
    and rest: "retry_unseen (upsert_and_return_if_changed jsonb) decrease_retry (call \<circ> Suc \<circ> Suc) (utc \<circ> Suc) ts' tbl1
      = (r', tbl')"
    using retry_unseen_Cons [OF loop [unfolded ts], of x tbl1] one by auto
  have id: "tt_trace_id ?tx = trace_id t" by (simp add: row_simps)
  obtain row where "tbl (trace_id t) = Some row" "wants_retry row"
    using assms(8) ts fetch_retry_rows [OF assms(4, 1)] by force
  then have less: "retry_weight (tbl1 (trace_id t)) < retry_weight (tbl (trace_id t))"
    using retry_one_strict [of jsonb "call 1" ?tx tbl res tbl1 row] one x id by simp
  show ?thesis
  proof (rule retry_work_less [OF assms(2)])
    show "retry_weight (tbl' i) \<le> retry_weight (tbl i)" for i
      by (rule retry_unseen_weight [OF loop])
    show "retry_weight (tbl' (trace_id t)) < retry_weight (tbl (trace_id t))"
      using less retry_unseen_weight [OF rest, of "trace_id t"] by simp
  qed
qed


text \<open>A run of retry polls, \<open>n\<close> of which are answered with traces that were asked for.\<close>

inductive retry_polls :: "(transaction list \<Rightarrow> 'j) \<Rightarrow> nat \<Rightarrow> ton_traces \<Rightarrow> ton_traces \<Rightarrow> bool"
  for jsonb :: "transaction list \<Rightarrow> 'j" where
  no_poll: "retry_polls jsonb 0 tbl tbl"
| answered_poll: "\<lbrakk>retry_polls jsonb n tbl tbl1; fetch_retry (call 0) scan 100 tbl1 = Inr rows; rows \<noteq> [];
     client None (Some (map tt_trace_id rows)) None = Inr ts; ts \<noteq> []; trace_id ` set ts \<subseteq> tt_trace_id ` set rows;
     retry_poll_account (\<lambda>c. fetch_retry c scan) (upsert_and_return_if_changed jsonb) decrease_retry call utc client tbl1
       = (Inr us, tbl2)\<rbrakk>
    \<Longrightarrow> retry_polls jsonb (Suc n) tbl tbl2"
| any_poll: "\<lbrakk>retry_polls jsonb n tbl tbl1;
     retry_poll_account (\<lambda>c. fetch_retry c scan) (upsert_and_return_if_changed jsonb) decrease_retry call utc client tbl1
       = (r, tbl2)\<rbrakk>
    \<Longrightarrow> retry_polls jsonb n tbl tbl2"

lemma retry_polls_bounded:
  "retry_polls jsonb n tbl tbl' \<Longrightarrow> table_fine tbl \<Longrightarrow> table_fine tbl' \<and> n + retry_work tbl' \<le> retry_work tbl"
proof (induction rule: retry_polls.induct)
  case (answered_poll n tbl tbl1 call scan rows client ts utc us tbl2)
  have fine: "table_fine tbl1" "n + retry_work tbl1 \<le> retry_work tbl"
    using answered_poll.IH answered_poll.prems by simp_all
  have "retry_work tbl2 < retry_work tbl1"
    by (rule retry_poll_decreases_work [OF _ _ answered_poll.hyps(7,2-6)]) (use fine(1) in \<open>simp_all add: table_fine_def\<close>)
  moreover have "table_fine tbl2" by (rule retry_poll_fine(1) [OF fine(1) answered_poll.hyps(7)])
  ultimately show ?case using fine(2) by simp
next
  case (any_poll n tbl tbl1 scan call utc client r tbl2)
  have fine: "table_fine tbl1" "n + retry_work tbl1 \<le> retry_work tbl"
    using any_poll.IH any_poll.prems by simp_all
  from retry_poll_fine [OF fine(1) any_poll.hyps(2)] fine(2) show ?case by simp
qed simp

text \<open>
  Claim C23: the retries end. In a run of retry polls on a table, however they end and whatever the
  indexer answers in the others, at most as many polls succeed with an answer of traces that were
  asked for as the table has retries left over its incomplete rows, and each of them uses up at
  least one: after that many no trace is asked for again. Rows that other pollers add in between
  bring retries of their own, and a trace that the indexer leaves out of its answers keeps its
  retries.
\<close>

theorem retry_polls_end:
  assumes "keyed tbl" "finite (dom tbl)" "retry_polls jsonb n tbl tbl'"
  shows "n + retry_work tbl' \<le> retry_work tbl
    \<and> (retry_work tbl' = 0 \<longrightarrow> (\<forall>c scan rows. fetch_retry c scan 100 tbl' = Inr rows \<longrightarrow> rows = []))"
proof -
  have fine: "table_fine tbl'" "n + retry_work tbl' \<le> retry_work tbl"
    using retry_polls_bounded [OF assms(3)] assms(1,2) by (simp_all add: table_fine_def)
  have "rows = []" if "retry_work tbl' = 0" "fetch_retry c scan 100 tbl' = Inr rows" for c scan rows
  proof (rule ccontr)
    assume "rows \<noteq> []"
    then obtain row where "row \<in> set rows" by (meson list.set_sel(1))
    from fetch_retry_rows [OF that(2) _ this] fine(1)
    have row: "tbl' (tt_trace_id row) = Some row" "wants_retry row" by (simp_all add: table_fine_def)
    then have "0 < retry_weight (tbl' (tt_trace_id row))" by (simp add: retry_weight_def wants_retry_def)
    moreover have "retry_weight (tbl' (tt_trace_id row)) \<le> retry_work tbl'"
      unfolding retry_work_def using row(1) fine(1) by (intro member_le_sum) (auto simp: table_fine_def)
    ultimately show False using that(1) by simp
  qed
  with fine(2) show ?thesis by blast
qed

definition sample_trace_row :: ton_trace where
  "sample_trace_row = inserted_row 0 (ton_trace_from 0 ((sample_trace [])\<lparr>is_incomplete := True\<rparr>))"

lemma sample_trace_row_sel [simp]:
  "tt_trace_id sample_trace_row = ''t''" "tt_is_incomplete sample_trace_row" "tt_retries sample_trace_row = 10" "wants_retry sample_trace_row"
  by (simp_all add: sample_trace_row_def row_simps sample_trace_def DEFAULT_RETRIES_def wants_retry_def)

lemma retry_polls_end_witness:
  "\<exists>tbl'. retry_polls (\<lambda>x. x) 1 [''t'' \<mapsto> sample_trace_row] tbl' \<and> 1 + retry_work tbl' \<le> retry_work [''t'' \<mapsto> sample_trace_row]"
proof -
  let ?tbl = "[''t'' \<mapsto> sample_trace_row]"
  have fetch: "fetch_retry (answered_at 1) [''t''] 100 ?tbl = Inr [sample_trace_row]"
    by (simp add: fetch_retry_def List.map_filter_simps)
  obtain r tbl' where run: "retry_poll_account (\<lambda>c. fetch_retry c [''t'']) (upsert_and_return_if_changed (\<lambda>x. x))
      decrease_retry (\<lambda>_. answered_at 1) (\<lambda>_. 0) (\<lambda>_ _ _. Inr [sample_trace []]) ?tbl = (r, tbl')"
    by fastforce
  have "\<exists>us. r = Inr us"
    using run fetch
    by (auto simp: retry_poll_account_def RETRY_LIMIT_def retry_one_def upsert_and_return_if_changed_def row_simps Let_def
        split: prod.splits option.splits if_splits)
  then obtain us where r: "r = Inr us" by blast
  have "retry_polls (\<lambda>x. x) (Suc 0) ?tbl tbl'"
    using retry_polls.answered_poll [OF retry_polls.no_poll fetch _ _ _ _ run [unfolded r], of "[sample_trace []]"]
    by (simp add: sample_trace_def)
  moreover have "finite (dom ?tbl)" by (simp only: dom_fun_upd option.distinct if_False dom_empty finite.intros)
  moreover have "keyed ?tbl" by (simp add: keyed_def)
  ultimately show ?thesis using retry_polls_end [of ?tbl "\<lambda>x. x" "Suc 0" tbl'] by auto
qed

end
