(* ===== verification/Ingestor.thy ===== *)
theory Ingestor
  imports Trace_Parser Subscribers
begin

text \<open>
  The ingestor (\<open>src/src/ingestor.rs\<close>): it takes a queue item, decodes the trace, parses it to
  events and records a summary of the events in the trace's row. It is generic in the trace
  parser and in the store, as the code is; \<open>serde_json\<close> and \<open>EventModel::from_event\<close> of
  \<open>relayer_core\<close> are arguments. The trait \<open>UpdateEvents\<close> is the locale
  \<open>event_recorder\<close>. The last section takes a trace from the poll to its recorded events.
\<close>

section \<open>The ingestor\<close>

datatype ingestor_error = IngestorGenericError string

text \<open>The \<open>Display\<close> of \<open>TransactionParsingError\<close>.\<close>

definition transaction_parsing_error_to_string :: "transaction_parsing_error \<Rightarrow> string" where
  "transaction_parsing_error_to_string e =
     (case e of
        BocParsing s \<Rightarrow> ''BocParsingError: '' @ s
      | Message s \<Rightarrow> ''MessageParsingError: '' @ s
      | GasErr s \<Rightarrow> ''GasError: '' @ s
      | ITSWithoutPair s \<Rightarrow> ''ITSWithoutPair: '' @ s
      | Generic s \<Rightarrow> ''GeneralError: '' @ s)"

definition not_implemented :: "ingestor_error + unit" where
  "not_implemented = Inl (IngestorGenericError ''Still not implemented'')"

definition handle_verify :: "'t \<Rightarrow> ingestor_error + unit" where
  "handle_verify task = not_implemented"

definition handle_wasm_event :: "'t \<Rightarrow> ingestor_error + unit" where
  "handle_wasm_event task = not_implemented"

definition handle_construct_proof :: "'t \<Rightarrow> ingestor_error + unit" where
  "handle_construct_proof task = not_implemented"

definition handle_retriable_task :: "'t \<Rightarrow> ingestor_error + unit" where
  "handle_retriable_task task = not_implemented"

text \<open>
  \<open>handle_transaction\<close>: a queue item that does not decode panics; the store is written only
  when there are events.
\<close>

definition handle_transaction ::
    "(string \<Rightarrow> string + trace) \<Rightarrow> (trace \<Rightarrow> 'e list parsed) \<Rightarrow> ('e \<Rightarrow> event_summary)
      \<Rightarrow> (string \<Rightarrow> event_summary list \<Rightarrow> 's \<Rightarrow> (string + unit) \<times> 's) \<Rightarrow> string \<Rightarrow> 's
      \<Rightarrow> (ingestor_error exn + 'e list) \<times> 's" where
  "handle_transaction from_str parse summary update item s =
     (case from_str item of
        Inl _ \<Rightarrow> (Inl Panicked, s)
      | Inr tr \<Rightarrow>
          (case parse tr of
             Inl Panicked \<Rightarrow> (Inl Panicked, s)
           | Inl (Err e) \<Rightarrow> (Inl (Err (IngestorGenericError (transaction_parsing_error_to_string e))), s)
           | Inr events \<Rightarrow>
               (let event_summaries = map summary events
                in if event_summaries = [] then (Inr events, s)
                   else (case update (trace_id tr) event_summaries s of
                           (Inl e, s') \<Rightarrow> (Inl (Err (IngestorGenericError e)), s')
                         | (Inr _, s') \<Rightarrow> (Inr events, s')))))"

section \<open>What the ingestor relies on\<close>

text \<open>
  \<open>recorded s i\<close> are the events stored with the trace \<open>i\<close>, \<open>known s\<close> the traces of
  the store.
\<close>

locale event_recorder =
  fixes update :: "'c \<Rightarrow> string \<Rightarrow> event_summary list \<Rightarrow> 's \<Rightarrow> (string + unit) \<times> 's"
    and recorded :: "'s \<Rightarrow> string \<Rightarrow> event_summary list option"
    and known :: "'s \<Rightarrow> string set"
  assumes update_error: "update c i evs s = (Inl e, s') \<Longrightarrow> s' = s"
    and update_known: "update c i evs s = (r, s') \<Longrightarrow> known s' = known s"
    and update_recorded: "update c i evs s = (Inr u, s') \<Longrightarrow> i \<in> known s \<Longrightarrow> recorded s' i = Some evs"
    and update_others: "update c i evs s = (r, s') \<Longrightarrow> j \<noteq> i \<Longrightarrow> recorded s' j = recorded s j"
begin

lemma handle_records:
  assumes "from_str item = Inr tr" and "handle_transaction from_str parse summary (update c) item s = (Inr evs, s')"
  shows "parse tr = Inr evs \<and> known s' = known s
    \<and> (evs = [] \<longrightarrow> s' = s)
    \<and> (evs \<noteq> [] \<and> trace_id tr \<in> known s \<longrightarrow> recorded s' (trace_id tr) = Some (map summary evs))
    \<and> (\<forall>j. j \<noteq> trace_id tr \<longrightarrow> recorded s' j = recorded s j)"
proof -
  have p: "parse tr = Inr evs"
    using assms by (auto simp: handle_transaction_def Let_def split: sum.splits exn.splits if_splits prod.splits)
  show ?thesis
  proof (cases "evs = []")
    case True
    then show ?thesis
      using assms p by (simp add: handle_transaction_def)
  next
    case False
    obtain r where up: "update c (trace_id tr) (map summary evs) s = (Inr r, s')"
      using assms p False by (auto simp: handle_transaction_def split: sum.splits prod.splits)
    show ?thesis
      using p False update_known [OF up] update_recorded [OF up] update_others [OF up] by auto
  qed
qed

lemma handle_failure_keeps:
  assumes "handle_transaction from_str parse summary (update c) item s = (Inl e, s')"
  shows "s' = s"
  using assms update_error
  by (auto simp: handle_transaction_def Let_def split: sum.splits exn.splits if_splits prod.splits)

end

definition row_events :: "ton_traces \<Rightarrow> string \<Rightarrow> event_summary list option" where
  "row_events tbl i = (case tbl i of None \<Rightarrow> None | Some row \<Rightarrow> tt_events row)"

interpretation pg_events: event_recorder update_events row_events dom
  by unfold_locales
    (auto simp: update_events_def row_events_def split: option.splits if_splits)

section \<open>From a stored trace to its recorded events\<close>

text \<open>
  A stored trace, encoded as a queue item and handled by the ingestor: on success its events are
  those the parser extracts and their summaries are in its row, on failure nothing changes, and
  in either case the row still counts as stored.
\<close>

lemma handled_trace_recorded:
  assumes codec: "from_str (to_str t) = Inr t" and stored: "row_stored jsonb tbl (ton_trace_from 0 t)"
    and run: "handle_transaction from_str (parse_trace X T D E ts) summary (update_events c) (to_str t) tbl = (res, tbl')"
  shows "(\<forall>evs. res = Inr evs \<longrightarrow>
      parse_trace X T D E ts t = Inr evs
      \<and> (evs \<noteq> [] \<longrightarrow> row_events tbl' (trace_id t) = Some (map summary evs))
      \<and> (\<forall>j. j \<noteq> trace_id t \<longrightarrow> row_events tbl' j = row_events tbl j))
    \<and> (\<forall>e. res = Inl e \<longrightarrow> tbl' = tbl)
    \<and> (\<forall>x. row_stored jsonb tbl' x = row_stored jsonb tbl x)"
proof -
  have dom: "trace_id t \<in> dom tbl"
    using stored by (auto simp: row_stored_def row_simps split: option.splits)
  have ok: "parse_trace X T D E ts t = Inr evs
      \<and> (evs \<noteq> [] \<longrightarrow> row_events tbl' (trace_id t) = Some (map summary evs))
      \<and> (\<forall>j. j \<noteq> trace_id t \<longrightarrow> row_events tbl' j = row_events tbl j)" if "res = Inr evs" for evs
    using pg_events.handle_records [of from_str "to_str t" t "parse_trace X T D E ts" summary c tbl evs tbl']
      codec run that dom by blast
  have err: "tbl' = tbl" if "res = Inl e" for e
    using pg_events.handle_failure_keeps run that by blast
  have "row_stored jsonb tbl' x = row_stored jsonb tbl x" for x
    using run codec row_stored_update_events [of c "trace_id t" _ tbl _ tbl' jsonb x]
    by (auto simp: handle_transaction_def Let_def split: sum.splits exn.splits if_splits prod.splits)
  with ok err show ?thesis by blast
qed

definition sample_summary :: "event \<Rightarrow> event_summary" where
  "sample_summary e = \<lparr>event_id = ''e'', sum_message_id = None, event_type = ''CALL''\<rparr>"

end
