(* ===== verification/Feed_System.thy ===== *)
theory Feed_System
  imports Subscribers
begin

text \<open>
  The pollers of the subscriber program side by side (\<open>src/src/bin/ton_subscriber.rs\<close> runs
  three subscribers and the retry subscriber on one table). A poller that has an answer of
  the indexer works through it with one SQL statement per trace, and the statements of
  different pollers interleave; at the end it hands the traces it found new to the queue. The
  step relation has a flag \<open>fresh\<close>: if it is set, a statement is only run while the answer
  still agrees with the chain. Shown: with fresh answers every trace is delivered once, and a poll
  delivers every finished trace that its poller is due; a poll of \<open>Subscribers\<close> is a run of these steps; and with a stale
  answer a trace is delivered twice.
\<close>

section \<open>States and steps\<close>

text \<open>What a poller has in hand: the traces still to be stored and those found new.\<close>

record poll_job =
  job_retry :: bool
  pending :: "trace list"
  found :: "trace list"

record 'd feed =
  feed_table :: ton_traces
  feed_subs :: "nat \<Rightarrow> ton_subscriber"
  feed_heights :: 'd
  finished :: "string \<rightharpoonup> trace"
  jobs :: "nat \<rightharpoonup> poll_job"
  feed_queue :: "trace list"
  lossy :: bool

definition job_statement ::
    "(transaction list \<Rightarrow> 'j) \<Rightarrow> bool \<Rightarrow> sql_call \<Rightarrow> ton_trace \<Rightarrow> ton_traces
      \<Rightarrow> (string + ton_trace option) \<times> ton_traces" where
  "job_statement jsonb retry c tx tbl =
     (if retry then retry_row jsonb c tx tbl else upsert_and_return_if_changed jsonb c tx tbl)"

definition keep_found :: "trace \<Rightarrow> ton_trace option \<Rightarrow> trace list" where
  "keep_found t res = (if res \<noteq> None \<and> \<not> is_incomplete t then [t] else [])"

text \<open>
  \<open>lossy\<close> records that traces found new were dropped, by a failed poll or a restart of the
  program.
\<close>

inductive feed_step ::
    "bool \<Rightarrow> (transaction list \<Rightarrow> 'j) \<Rightarrow> 'd heights \<Rightarrow> 'd feed \<Rightarrow> 'd feed \<Rightarrow> bool"
  for fresh :: bool and jsonb :: "transaction list \<Rightarrow> 'j" and D :: "'d heights" where
  finish: "\<lbrakk>finished w (trace_id t) = None; \<not> is_incomplete t\<rbrakk>
    \<Longrightarrow> feed_step fresh jsonb D w (w\<lparr>finished := (finished w)(trace_id t \<mapsto> t)\<rparr>)"
| poll: "\<lbrakk>jobs w i = None; list_all (consistent (finished w)) ts;
     advance_cursor D (feed_subs w i) (feed_heights w) ts = (sub', d')\<rbrakk>
    \<Longrightarrow> feed_step fresh jsonb D w (w\<lparr>feed_subs := (feed_subs w)(i := sub'), feed_heights := d',
          jobs := (jobs w)(i \<mapsto> \<lparr>job_retry = False, pending = ts, found = []\<rparr>)\<rparr>)"
| retry: "\<lbrakk>jobs w i = None; fetch_retry c scan RETRY_LIMIT (feed_table w) = Inr rows; rows \<noteq> [];
     list_all (consistent (finished w)) ts\<rbrakk>
    \<Longrightarrow> feed_step fresh jsonb D w (w\<lparr>jobs := (jobs w)(i \<mapsto> \<lparr>job_retry = True, pending = ts, found = []\<rparr>)\<rparr>)"
| store: "\<lbrakk>jobs w i = Some j; pending j = t # ts; fresh \<longrightarrow> consistent (finished w) t;
     job_statement jsonb (job_retry j) c (ton_trace_from utc t) (feed_table w) = (Inr res, tbl')\<rbrakk>
    \<Longrightarrow> feed_step fresh jsonb D w (w\<lparr>feed_table := tbl',
          jobs := (jobs w)(i \<mapsto> j\<lparr>pending := ts, found := found j @ keep_found t res\<rparr>)\<rparr>)"
| fail: "\<lbrakk>jobs w i = Some j; pending j = t # ts;
     job_statement jsonb (job_retry j) c (ton_trace_from utc t) (feed_table w) = (Inl e, tbl')\<rbrakk>
    \<Longrightarrow> feed_step fresh jsonb D w (w\<lparr>feed_table := tbl', jobs := (jobs w)(i := None),
          lossy := lossy w \<or> found j \<noteq> []\<rparr>)"
| deliver: "\<lbrakk>jobs w i = Some j; pending j = []\<rbrakk>
    \<Longrightarrow> feed_step fresh jsonb D w (w\<lparr>feed_queue := feed_queue w @ found j, jobs := (jobs w)(i := None)\<rparr>)"
| restart: "\<lbrakk>\<And>i. subscriber_new D (feed_heights w) (ctx i) chain = Inr (subs' i)\<rbrakk>
    \<Longrightarrow> feed_step fresh jsonb D w (w\<lparr>feed_subs := subs', jobs := Map.empty,
          lossy := lossy w \<or> (\<exists>i j. jobs w i = Some j \<and> found j \<noteq> [])\<rparr>)"
| ingest: "update_events c i evs (feed_table w) = (r, tbl')
    \<Longrightarrow> feed_step fresh jsonb D w (w\<lparr>feed_table := tbl'\<rparr>)"

definition feed_start :: "(nat \<Rightarrow> ton_subscriber) \<Rightarrow> 'd \<Rightarrow> 'd feed" where
  "feed_start subs d =
     \<lparr>feed_table = Map.empty, feed_subs = subs, feed_heights = d, finished = Map.empty, jobs = Map.empty,
      feed_queue = [], lossy = False\<rparr>"

abbreviation feed_reaches ::
    "bool \<Rightarrow> (transaction list \<Rightarrow> 'j) \<Rightarrow> 'd heights \<Rightarrow> 'd feed \<Rightarrow> 'd feed \<Rightarrow> bool" where
  "feed_reaches fresh jsonb D \<equiv> (feed_step fresh jsonb D)\<^sup>*\<^sup>*"

section \<open>Invariant\<close>

text \<open>The traces a poller has found new and not yet delivered.\<close>

definition hand :: "'d feed \<Rightarrow> nat \<Rightarrow> trace list" where
  "hand w i = (case jobs w i of None \<Rightarrow> [] | Some j \<Rightarrow> found j)"

definition known :: "(nat \<Rightarrow> trace list) \<Rightarrow> trace list \<Rightarrow> trace set" where
  "known h q = set q \<union> (\<Union>i. set (h i))"

text \<open>
  The invariant over the table, the finished traces, the hands of the pollers and the queue:
  what is in a hand or in the queue is finished, complete and stored, and in one place only;
  and if nothing was lost, every complete row is in a hand or in the queue.
\<close>

definition feed_ok ::
    "(transaction list \<Rightarrow> 'j) \<Rightarrow> ton_traces \<Rightarrow> (string \<rightharpoonup> trace) \<Rightarrow> (nat \<Rightarrow> trace list) \<Rightarrow> trace list \<Rightarrow> bool \<Rightarrow> bool" where
  "feed_ok jsonb tbl F h q l \<longleftrightarrow>
     (\<forall>t \<in> known h q. F (trace_id t) = Some t \<and> \<not> is_incomplete t \<and> row_stored jsonb tbl (ton_trace_from 0 t))
     \<and> distinct q \<and> (\<forall>i. distinct (h i)) \<and> (\<forall>i x. x \<in> set (h i) \<longrightarrow> x \<notin> set q)
     \<and> (\<forall>i k x. x \<in> set (h i) \<longrightarrow> x \<in> set (h k) \<longrightarrow> i = k)
     \<and> (\<not> l \<longrightarrow> (\<forall>k. row_complete tbl k \<longrightarrow> k \<in> trace_id ` known h q))"

definition feed_inv :: "(transaction list \<Rightarrow> 'j) \<Rightarrow> 'd feed \<Rightarrow> bool" where
  "feed_inv jsonb w = feed_ok jsonb (feed_table w) (finished w) (hand w) (feed_queue w) (lossy w)"

lemma feed_ok_known:
  "\<lbrakk>feed_ok jsonb tbl F h q l; t \<in> known h q\<rbrakk>
    \<Longrightarrow> F (trace_id t) = Some t \<and> \<not> is_incomplete t \<and> row_stored jsonb tbl (ton_trace_from 0 t)"
  by (simp add: feed_ok_def)

lemma feed_ok_queue:
  assumes "feed_ok jsonb tbl F h q l"
  shows "distinct (map trace_id q)"
proof -
  have "inj_on trace_id (set q)"
    using feed_ok_known [OF assms] by (intro inj_onI) (metis UnI1 known_def option.inject)
  then show ?thesis
    using assms by (simp add: feed_ok_def distinct_map)
qed

lemma feed_ok_finish:
  assumes "feed_ok jsonb tbl F h q l" "F (trace_id t) = None"
  shows "feed_ok jsonb tbl (F(trace_id t \<mapsto> t)) h q l"
  unfolding feed_ok_def
proof (intro conjI)
  show "\<forall>x \<in> known h q. (F(trace_id t \<mapsto> t)) (trace_id x) = Some x \<and> \<not> is_incomplete x
      \<and> row_stored jsonb tbl (ton_trace_from 0 x)"
    using feed_ok_known [OF assms(1)] assms(2) by force
qed (use assms(1) in \<open>simp_all add: feed_ok_def\<close>)

lemma known_found: "known (h(i := h i @ us)) q = known h q \<union> set us"
  by (auto simp: known_def split: if_splits)

lemma known_deliver: "known (h(i := [])) (q @ h i) = known h q"
  by (auto simp: known_def split: if_splits)

text \<open>A statement that finds at most one trace new.\<close>

lemma feed_ok_found:
  assumes ok: "feed_ok jsonb tbl F h q l" and d: "delivers (row_stored jsonb) row_complete F tbl us tbl'"
    and us: "distinct us"
  shows "feed_ok jsonb tbl' F (h(i := h i @ us)) q l"
proof -
  have new: "x \<notin> known h q" if "x \<in> set us" for x
    using delivers_new [OF d that] feed_ok_known [OF ok, of x] by blast
  have "F (trace_id x) = Some x \<and> \<not> is_incomplete x \<and> row_stored jsonb tbl' (ton_trace_from 0 x)"
    if "x \<in> known h q \<union> set us" for x
    using that feed_ok_known [OF ok, of x] delivers_kept [OF d, of x] delivers_new [OF d, of x] by blast
  moreover have "distinct ((h(i := h i @ us)) k)" for k
    using ok us new by (auto simp: feed_ok_def known_def)
  moreover have "x \<notin> set q" if "x \<in> set ((h(i := h i @ us)) k)" for k x
    using that ok new [of x] by (auto simp: feed_ok_def known_def split: if_splits)
  moreover have "k = m" if "x \<in> set ((h(i := h i @ us)) k)" "x \<in> set ((h(i := h i @ us)) m)" for k m x
    using that ok new [of x] unfolding feed_ok_def known_def by (auto split: if_splits)
  moreover have "k \<in> trace_id ` (known h q \<union> set us)" if "\<not> l" "row_complete tbl' k" for k
    using delivers_complete [OF d, of k] that ok by (auto simp: feed_ok_def)
  moreover have "distinct q" using ok by (simp add: feed_ok_def)
  ultimately show ?thesis
    unfolding feed_ok_def known_found by blast
qed

lemma feed_ok_table:
  "\<lbrakk>feed_ok jsonb tbl F h q l; delivers (row_stored jsonb) row_complete F tbl [] tbl'\<rbrakk> \<Longrightarrow> feed_ok jsonb tbl' F h q l"
  using feed_ok_found [of jsonb tbl F h q l "[]" tbl' 0] by simp

lemma feed_ok_deliver:
  assumes "feed_ok jsonb tbl F h q l"
  shows "feed_ok jsonb tbl F (h(i := [])) (q @ h i) l"
  using assms unfolding feed_ok_def known_deliver by (auto split: if_splits)

lemma feed_ok_drop:
  assumes ok: "feed_ok jsonb tbl F h q l" and sub: "\<And>i. h' i = h i \<or> (h' i = [] \<and> (h i \<noteq> [] \<longrightarrow> l'))" and "l \<longrightarrow> l'"
  shows "feed_ok jsonb tbl F h' q l'"
proof -
  have le: "set (h' i) \<subseteq> set (h i)" for i using sub [of i] by auto
  then have "known h' q \<subseteq> known h q" by (auto simp: known_def)
  moreover have "distinct (h' i)" for i
    using ok sub [of i] by (auto simp: feed_ok_def)
  moreover have "x \<in> set (h' i) \<Longrightarrow> x \<notin> set q" "x \<in> set (h' i) \<Longrightarrow> x \<in> set (h' k) \<Longrightarrow> i = k" for i k x
    using ok le [of i] le [of k] unfolding feed_ok_def by blast+
  moreover have "h' = h" if "\<not> l'" using sub that by fastforce
  ultimately show ?thesis
    using ok assms(3) unfolding feed_ok_def by blast
qed

lemma job_statement_delivers:
  assumes "job_statement jsonb retry c (ton_trace_from utc t) tbl = (Inr res, tbl')" "consistent F t"
  shows "delivers (row_stored jsonb) row_complete F tbl (keep_found t res) tbl'"
proof (cases retry)
  case True
  then show ?thesis
    using assms pg.retry_one_delivers [of jsonb c utc t tbl res tbl' F]
    by (simp only: job_statement_def keep_found_def if_True)
next
  case False
  then show ?thesis
    using assms pg.upsert_delivers [of jsonb c utc t tbl res tbl' F]
    by (simp only: job_statement_def keep_found_def if_False)
qed

lemma job_statement_failure:
  assumes "job_statement jsonb retry c tx tbl = (Inl e, tbl')"
  shows "delivers (row_stored jsonb) row_complete F tbl [] tbl'"
  using assms pg.upsert_failure_delivers [of jsonb c tx tbl e tbl' F]
    pg.retry_one_failure_delivers [of jsonb c tx tbl e tbl' F]
  by (simp only: job_statement_def split: if_splits)

lemma feed_inv_step: "feed_step fresh jsonb D w w' \<Longrightarrow> fresh \<Longrightarrow> feed_inv jsonb w \<Longrightarrow> feed_inv jsonb w'"
proof (induction rule: feed_step.induct)
  case (finish w t)
  have "hand (w\<lparr>finished := (finished w)(trace_id t \<mapsto> t)\<rparr>) = hand w"
    by (simp add: hand_def fun_eq_iff)
  then show ?case
    using finish feed_ok_finish by (simp add: feed_inv_def)
next
  case (poll w i ts sub' d')
  then have "hand (w\<lparr>feed_subs := (feed_subs w)(i := sub'), feed_heights := d',
      jobs := (jobs w)(i \<mapsto> \<lparr>job_retry = False, pending = ts, found = []\<rparr>)\<rparr>) = hand w"
    by (auto simp: hand_def fun_eq_iff)
  then show ?case
    using poll by (simp add: feed_inv_def)
next
  case (retry w i c scan rows ts)
  then have "hand (w\<lparr>jobs := (jobs w)(i \<mapsto> \<lparr>job_retry = True, pending = ts, found = []\<rparr>)\<rparr>) = hand w"
    by (auto simp: hand_def fun_eq_iff)
  then show ?case
    using retry by (simp add: feed_inv_def)
next
  case (store w i j t ts c utc res tbl')
  let ?w = "w\<lparr>feed_table := tbl', jobs := (jobs w)(i \<mapsto> j\<lparr>pending := ts, found := found j @ keep_found t res\<rparr>)\<rparr>"
  have "hand ?w = (hand w)(i := hand w i @ keep_found t res)"
    using store(1) by (auto simp: hand_def fun_eq_iff)
  moreover have "delivers (row_stored jsonb) row_complete (finished w) (feed_table w) (keep_found t res) tbl'"
    using job_statement_delivers [OF store(4)] store(3, 5) by blast
  ultimately show ?case
    using store(6) feed_ok_found [of jsonb "feed_table w" "finished w" "hand w" "feed_queue w" "lossy w"]
    by (simp add: feed_inv_def keep_found_def)
next
  case (fail w i j t ts c utc e tbl')
  let ?w = "w\<lparr>feed_table := tbl', jobs := (jobs w)(i := None), lossy := lossy w \<or> found j \<noteq> []\<rparr>"
  have "feed_ok jsonb tbl' (finished w) (hand w) (feed_queue w) (lossy w)"
    by (rule feed_ok_table [OF fail(5) [unfolded feed_inv_def] job_statement_failure [OF fail(3)]])
  then have "feed_ok jsonb tbl' (finished w) (hand ?w) (feed_queue w) (lossy w \<or> found j \<noteq> [])"
    by (rule feed_ok_drop) (use fail(1) in \<open>auto simp: hand_def\<close>)
  then show ?case
    by (simp add: feed_inv_def)
next
  case (deliver w i j)
  let ?w = "w\<lparr>feed_queue := feed_queue w @ found j, jobs := (jobs w)(i := None)\<rparr>"
  have "hand ?w = (hand w)(i := [])" "found j = hand w i"
    using deliver(1) by (auto simp: hand_def fun_eq_iff)
  then show ?case
    using deliver(4) feed_ok_deliver by (simp add: feed_inv_def)
next
  case (restart w ctx chain subs')
  let ?w = "w\<lparr>feed_subs := subs', jobs := Map.empty, lossy := lossy w \<or> (\<exists>i j. jobs w i = Some j \<and> found j \<noteq> [])\<rparr>"
  have "feed_ok jsonb (feed_table w) (finished w) (hand ?w) (feed_queue w)
      (lossy w \<or> (\<exists>i j. jobs w i = Some j \<and> found j \<noteq> []))"
    by (rule feed_ok_drop [OF restart(3) [unfolded feed_inv_def]]) (auto simp: hand_def split: option.splits)
  then show ?case
    by (simp add: feed_inv_def)
next
  case (ingest c i evs w r tbl')
  have "delivers (row_stored jsonb) row_complete (finished w) (feed_table w) [] tbl'"
    using row_stored_update_events [OF ingest(1), of jsonb] row_complete_update_events [OF ingest(1)]
    by (simp add: delivers_def)
  then have "feed_ok jsonb tbl' (finished w) (hand w) (feed_queue w) (lossy w)"
    by (rule feed_ok_table [OF ingest(3) [unfolded feed_inv_def]])
  moreover have "hand (w\<lparr>feed_table := tbl'\<rparr>) = hand w"
    by (simp add: hand_def fun_eq_iff)
  ultimately show ?case
    by (simp add: feed_inv_def)
qed

lemma feed_inv_start: "feed_inv jsonb (feed_start subs d)"
  by (simp add: feed_inv_def feed_ok_def feed_start_def row_complete_def hand_def known_def)

lemma feed_inv_reaches: "feed_reaches True jsonb D (feed_start subs d) w \<Longrightarrow> feed_inv jsonb w"
  by (induction rule: rtranclp_induct) (simp_all add: feed_inv_start feed_inv_step)


section \<open>A poll as a run\<close>

lemma feed_store_Cons:
  assumes "upsert_unseen (upsert_and_return_if_changed jsonb) call utc (t # ts) tbl = (Inr us, tbl')"
  obtains res tbl1 us' where
    "upsert_and_return_if_changed jsonb (call 0) (ton_trace_from (utc 0) t) tbl = (Inr res, tbl1)"
    "upsert_unseen (upsert_and_return_if_changed jsonb) (call \<circ> Suc) (utc \<circ> Suc) ts tbl1 = (Inr us', tbl')"
    "us = keep_found t res @ us'"
proof -
  obtain x tbl1 where up: "upsert_and_return_if_changed jsonb (call 0) (ton_trace_from (utc 0) t) tbl = (x, tbl1)"
    by fastforce
  then obtain res where x: "x = Inr res"
    using assms by (cases x) auto
  obtain y tbl2 where rest: "upsert_unseen (upsert_and_return_if_changed jsonb) (call \<circ> Suc) (utc \<circ> Suc) ts tbl1 = (y, tbl2)"
    by fastforce
  then obtain us' where "y = Inr us'"
    using assms up x by (cases y) auto
  with that up x rest assms show thesis
    by (auto simp: keep_found_def)
qed

lemma feed_run_statements:
  "\<lbrakk>upsert_unseen (upsert_and_return_if_changed jsonb) call utc ts (feed_table w) = (Inr us, tbl');
    jobs w i = Some \<lparr>job_retry = False, pending = ts, found = fs\<rparr>; list_all (consistent (finished w)) ts\<rbrakk>
   \<Longrightarrow> feed_reaches fresh jsonb D w
         (w\<lparr>feed_table := tbl', jobs := (jobs w)(i \<mapsto> \<lparr>job_retry = False, pending = [], found = fs @ us\<rparr>)\<rparr>)"
proof (induction ts arbitrary: call utc w us fs)
  case Nil
  then have "w\<lparr>feed_table := tbl', jobs := (jobs w)(i \<mapsto> \<lparr>job_retry = False, pending = [], found = fs @ us\<rparr>)\<rparr> = w"
    by (auto simp: fun_upd_idem)
  then show ?case by (simp only: rtranclp.rtrancl_refl)
next
  case (Cons t ts)
  obtain res tbl1 us' where up:
      "upsert_and_return_if_changed jsonb (call 0) (ton_trace_from (utc 0) t) (feed_table w) = (Inr res, tbl1)"
    and rest: "upsert_unseen (upsert_and_return_if_changed jsonb) (call \<circ> Suc) (utc \<circ> Suc) ts tbl1 = (Inr us', tbl')"
    and us: "us = keep_found t res @ us'"
    using feed_store_Cons [OF Cons.prems(1)] .
  let ?j = "\<lparr>job_retry = False, pending = ts, found = fs @ keep_found t res\<rparr>"
  let ?w = "w\<lparr>feed_table := tbl1, jobs := (jobs w)(i \<mapsto> ?j)\<rparr>"
  have "feed_step fresh jsonb D w (w\<lparr>feed_table := tbl1, jobs := (jobs w)(i \<mapsto>
      \<lparr>job_retry = False, pending = t # ts, found = fs\<rparr>
        \<lparr>pending := ts, found := found \<lparr>job_retry = False, pending = t # ts, found = fs\<rparr> @ keep_found t res\<rparr>)\<rparr>)"
    by (rule feed_step.store [OF Cons.prems(2)])
      (use Cons.prems(3) up in \<open>simp_all add: job_statement_def\<close>)
  then have "feed_step fresh jsonb D w ?w" by simp
  moreover have "feed_reaches fresh jsonb D ?w
      (?w\<lparr>feed_table := tbl', jobs := (jobs ?w)(i \<mapsto> \<lparr>job_retry = False, pending = [], found = (fs @ keep_found t res) @ us'\<rparr>)\<rparr>)"
    using Cons.prems(3) rest by (intro Cons.IH) simp_all
  ultimately have "feed_reaches fresh jsonb D w
      (?w\<lparr>feed_table := tbl', jobs := (jobs ?w)(i \<mapsto> \<lparr>job_retry = False, pending = [], found = (fs @ keep_found t res) @ us'\<rparr>)\<rparr>)"
    by (rule converse_rtranclp_into_rtranclp)
  then show ?case
    by (simp add: us fun_upd_def cong: if_cong)
qed

lemma poll_account_run:
  assumes poll: "poll_account D (upsert_and_return_if_changed jsonb) call utc client a (feed_subs w i) (feed_heights w)
      (feed_table w) = (Inr us, sub', d', tbl')"
    and ts: "client (Some a) None (poll_start_lt (feed_subs w i)) = Inr ts" "list_all (consistent (finished w)) ts"
    and idle: "jobs w i = None"
  shows "feed_reaches fresh jsonb D w
    (w\<lparr>feed_table := tbl', feed_subs := (feed_subs w)(i := sub'), feed_heights := d',
       feed_queue := feed_queue w @ us\<rparr>)"
proof -
  let ?job = "\<lambda>ts us. \<lparr>job_retry = False, pending = ts, found = us\<rparr>"
  let ?w1 = "w\<lparr>feed_subs := (feed_subs w)(i := sub'), feed_heights := d', jobs := (jobs w)(i \<mapsto> ?job ts [])\<rparr>"
  let ?w2 = "?w1\<lparr>feed_table := tbl', jobs := (jobs ?w1)(i \<mapsto> ?job [] ([] @ us))\<rparr>"
  have cur: "advance_cursor D (feed_subs w i) (feed_heights w) ts = (sub', d')"
    and loop: "upsert_unseen (upsert_and_return_if_changed jsonb) call utc ts (feed_table w) = (Inr us, tbl')"
    using poll ts(1) by (auto simp: poll_account_def Let_def split: prod.splits)
  have "feed_step fresh jsonb D w ?w1"
    by (rule feed_step.poll [OF idle ts(2) cur])
  also have "feed_reaches fresh jsonb D ?w1 ?w2"
    by (rule feed_run_statements [where ts = ts]) (use loop ts(2) in simp_all)
  also have "feed_step fresh jsonb D ?w2 (?w2\<lparr>feed_queue := feed_queue ?w2 @ found (?job [] ([] @ us)),
      jobs := (jobs ?w2)(i := None)\<rparr>)"
    by (rule feed_step.deliver) simp_all
  finally show ?thesis
    using idle by (cases w) (simp add: fun_upd_idem)
qed


section \<open>Properties\<close>

text \<open>
  Claim C2: The pollers of the subscriber program run side by side, their SQL statements
  interleaving with each other, with failures, restarts and the ingestor's updates. As long as
  each trace is stored while the answer it came from still agrees with the chain, every trace
  handed to the queue is complete and no trace is handed over twice, by whichever pollers;
  and if no poller lost what it had found, every complete trace of the table is in the queue
  or in the hands of a poller that has yet to hand it over.\<close>

theorem traces_delivered_once:
  assumes "feed_reaches True jsonb D (feed_start subs d) w"
  shows "distinct (map trace_id (feed_queue w))
    \<and> (\<forall>t \<in> set (feed_queue w). \<not> is_incomplete t)
    \<and> (\<not> lossy w \<longrightarrow> (\<forall>k. row_complete (feed_table w) k \<longrightarrow>
          (\<exists>t. trace_id t = k \<and> (t \<in> set (feed_queue w) \<or> (\<exists>i j. jobs w i = Some j \<and> t \<in> set (found j))))))"
proof -
  have ok: "feed_ok jsonb (feed_table w) (finished w) (hand w) (feed_queue w) (lossy w)"
    using feed_inv_reaches [OF assms] by (simp add: feed_inv_def)
  have "\<exists>t. trace_id t = k \<and> (t \<in> set (feed_queue w) \<or> (\<exists>i j. jobs w i = Some j \<and> t \<in> set (found j)))"
    if "k \<in> trace_id ` known (hand w) (feed_queue w)" for k
    using that by (fastforce simp: known_def hand_def split: option.splits)
  then show ?thesis
    using feed_ok_queue [OF ok] ok by (auto simp: feed_ok_def known_def)
qed

text \<open>
  Claim C12: A poll as the subscriber's code runs it is a run of the interleaving system: from
  any state in which the poller is idle and with a consistent answer, a successful
  \<open>poll_account\<close> leads, by steps of the system, to the state with its table, its cursor and its
  traces appended to the queue.\<close>

theorem poll_account_refines_steps:
  assumes poll: "poll_account D (upsert_and_return_if_changed jsonb) call utc client a (feed_subs w i) (feed_heights w)
      (feed_table w) = (Inr us, sub', d', tbl')"
    and ts: "client (Some a) None (poll_start_lt (feed_subs w i)) = Inr ts" "list_all (consistent (finished w)) ts"
    and idle: "jobs w i = None"
  shows "feed_reaches fresh jsonb D w
    (w\<lparr>feed_table := tbl', feed_subs := (feed_subs w)(i := sub'), feed_heights := d',
       feed_queue := feed_queue w @ us\<rparr>)"
  by (rule poll_account_run [OF assms])

text \<open>The traces a poller asks for next: those that end after its cursor.\<close>

definition asked_for :: "ton_subscriber \<Rightarrow> trace \<Rightarrow> bool" where
  "asked_for sub t = (case poll_start_lt sub of None \<Rightarrow> True | Some n \<Rightarrow> sint n < sint (end_lt t))"

lemma cursor_asks_for_later:
  assumes "client (Some a) None (poll_start_lt sub) = Inr ts"
    and "poll_account D upsert call utc client a sub d s = (r, sub', d', s')" "\<not> asked_for sub' t"
  shows "\<not> asked_for sub t \<or> (\<exists>u \<in> set ts. sint (end_lt t) \<le> sint (end_lt u))"
proof (cases "ts = []")
  case True
  with poll_account_parts(2) [OF assms(1,2)] assms(3) show ?thesis
    by (auto simp: asked_for_def poll_start_lt_def split: if_splits)
next
  case False
  then obtain u where "u \<in> set ts" "max_end_lt ts = Some (end_lt u)"
    using max_end_lt_is_max [OF False] by (auto simp del: max_end_lt.simps)
  moreover from this have "latest_lt sub' = end_lt u"
    using poll_account_parts(2) [OF assms(1,2)] by simp
  moreover from this assms(3) have "sint (end_lt t) \<le> sint (end_lt u)"
    by (simp add: asked_for_def poll_start_lt_def split: if_splits)
  ultimately show ?thesis by blast
qed

text \<open>A poll whose statements are answered delivers what it is answered with.\<close>

lemma poll_delivers:
  assumes reach: "feed_reaches True jsonb D (feed_start subs d) w" and idle: "jobs w i = None" "\<not> lossy w"
    and ts: "client (Some a) None (poll_start_lt (feed_subs w i)) = Inr ts" "list_all (consistent (finished w)) ts"
    and answers: "\<forall>k. answered (call k)"
    and poll: "poll_account D (upsert_and_return_if_changed jsonb) call utc client a (feed_subs w i) (feed_heights w)
      (feed_table w) = (r, sub', d', tbl')"
  obtains us where "r = Inr us"
    "feed_reaches True jsonb D w (w\<lparr>feed_table := tbl', feed_subs := (feed_subs w)(i := sub'), feed_heights := d',
       feed_queue := feed_queue w @ us\<rparr>)"
    "\<And>t. t \<in> set ts \<Longrightarrow> finished w (trace_id t) = Some t \<Longrightarrow> \<not> is_incomplete t
       \<Longrightarrow> t \<in> set (feed_queue w @ us) \<or> (\<exists>k j. jobs w k = Some j \<and> t \<in> set (found j))"
proof -
  have "\<exists>res tbl1. upsert_and_return_if_changed jsonb (call k) tx tbl = (Inr res, tbl1)" for k tx tbl
    using upsert_answered answers by blast
  from pg.upsert_unseen_stores [where call = call and utc = utc and s = "feed_table w", OF ts(2) this] poll_account_parts(1) [OF ts(1) poll]
  obtain us where r: "r = Inr us"
    and stored: "\<And>t. t \<in> set ts \<Longrightarrow> finished w (trace_id t) = Some t \<Longrightarrow> row_stored jsonb tbl' (ton_trace_from 0 t)"
    by auto
  let ?w = "w\<lparr>feed_table := tbl', feed_subs := (feed_subs w)(i := sub'), feed_heights := d', feed_queue := feed_queue w @ us\<rparr>"
  have run: "feed_reaches True jsonb D w ?w"
    by (rule poll_account_run [OF poll [unfolded r] ts idle(1)])
  have "feed_ok jsonb (feed_table ?w) (finished ?w) (hand ?w) (feed_queue ?w) (lossy ?w)"
    using feed_inv_reaches [OF rtranclp_trans [OF reach run]] unfolding feed_inv_def .
  then have compl: "row_complete tbl' k \<Longrightarrow> k \<in> trace_id ` known (hand ?w) (feed_queue w @ us)"
    and known: "x \<in> known (hand ?w) (feed_queue w @ us) \<Longrightarrow> finished w (trace_id x) = Some x" for k x
    using idle(2) by (simp_all add: feed_ok_def)
  have "t \<in> set (feed_queue w @ us) \<or> (\<exists>k j. jobs w k = Some j \<and> t \<in> set (found j))"
    if t: "t \<in> set ts" "finished w (trace_id t) = Some t" "\<not> is_incomplete t" for t
  proof -
    have "row_complete tbl' (trace_id t)"
      using pg.stored_complete [OF stored [OF t(1,2)]] t(3) by (simp add: row_simps)
    then obtain x where "trace_id t = trace_id x" "x \<in> known (hand ?w) (feed_queue w @ us)"
      by (elim imageE [OF compl])
    with known [of x] t(2) have "t \<in> known (hand ?w) (feed_queue w @ us)" by simp
    then show ?thesis by (auto simp: known_def hand_def split: option.splits)
  qed
  with r run show thesis by (rule that)
qed

lemma trace_deliverable:
  assumes reach: "feed_reaches True jsonb D (feed_start subs d) w" and quiet: "jobs w = Map.empty" "\<not> lossy w"
    and fin: "finished w (trace_id t) = Some t" "\<not> is_incomplete t"
  shows "\<exists>w'. feed_reaches True jsonb D w w' \<and> t \<in> set (feed_queue w')"
proof -
  let ?call = "\<lambda>_ :: nat. answered_at 0" and ?utc = "\<lambda>_ :: nat. 0" and ?a = "TonAddress 0 []"
  let ?client = "\<lambda>_ _ _. Inr [t] :: string + trace list"
  obtain r sub' d' tbl' where poll: "poll_account D (upsert_and_return_if_changed jsonb) ?call ?utc ?client ?a
      (feed_subs w 0) (feed_heights w) (feed_table w) = (r, sub', d', tbl')"
    by (metis surj_pair)
  show ?thesis
  proof (rule poll_delivers [OF reach _ quiet(2) _ _ _ poll, of "[t]"])
    fix us
    let ?w = "w\<lparr>feed_table := tbl', feed_subs := (feed_subs w)(0 := sub'), feed_heights := d', feed_queue := feed_queue w @ us\<rparr>"
    assume run: "feed_reaches True jsonb D w ?w" and "\<And>x. x \<in> set [t] \<Longrightarrow> finished w (trace_id x) = Some x \<Longrightarrow> \<not> is_incomplete x
       \<Longrightarrow> x \<in> set (feed_queue w @ us) \<or> (\<exists>k j. jobs w k = Some j \<and> x \<in> set (found j))"
    from this(2) [of t] fin quiet(1) have "t \<in> set (feed_queue ?w)" by simp
    with run show ?thesis by blast
  qed (use fin quiet in \<open>simp_all add: consistent_def\<close>)
qed

text \<open>
  Claim C11: A poll delivers everything the poller is due. Take any state the pollers reach, in any
  interleaving, as long as each trace is stored while its answer agrees with the chain and nothing
  found was lost, and an idle poller. Suppose its request is answered in agreement with the chain,
  the answer holds every finished trace of the account that ends after the cursor (so there are
  no more of them than the client's limit of 100), and the database answers. Then the poll
  succeeds, it leads to a state of the interleaving system, and each of those traces that is
  complete is in the queue afterwards, or in the hand of another poller that found it first. And
  the cursor moves past no trace that was not due: a trace that the next poll does not ask for was
  not asked for by this poll either, or ends no later than a trace of this answer.\<close>

theorem poll_delivers_finished:
  assumes reach: "feed_reaches True jsonb D (feed_start subs d) w" and idle: "jobs w i = None" "\<not> lossy w"
    and ts: "client (Some a) None (poll_start_lt (feed_subs w i)) = Inr ts" "list_all (consistent (finished w)) ts"
    and page: "\<forall>t. finished w (trace_id t) = Some t \<and> on_account a t \<and> asked_for (feed_subs w i) t \<longrightarrow> t \<in> set ts"
    and answers: "\<forall>k. answered (call k)"
    and poll: "poll_account D (upsert_and_return_if_changed jsonb) call utc client a (feed_subs w i) (feed_heights w)
      (feed_table w) = (r, sub', d', tbl')"
  shows "\<exists>us. r = Inr us
    \<and> feed_reaches True jsonb D w (w\<lparr>feed_table := tbl', feed_subs := (feed_subs w)(i := sub'), feed_heights := d',
         feed_queue := feed_queue w @ us\<rparr>)
    \<and> (\<forall>t. finished w (trace_id t) = Some t \<and> \<not> is_incomplete t \<and> on_account a t \<and> asked_for (feed_subs w i) t
         \<longrightarrow> t \<in> set (feed_queue w @ us) \<or> (\<exists>k j. jobs w k = Some j \<and> t \<in> set (found j)))
    \<and> (\<forall>t. \<not> asked_for sub' t \<longrightarrow> \<not> asked_for (feed_subs w i) t \<or> (\<exists>u \<in> set ts. sint (end_lt t) \<le> sint (end_lt u)))"
proof (rule poll_delivers [OF reach idle ts answers poll], goal_cases)
  case (1 us)
  with page cursor_asks_for_later [OF ts(1) poll] show ?case by blast
qed

text \<open>
  Claim C39: Without that freshness a trace is delivered twice. One poller is answered with a
  trace while it is incomplete; the trace finishes, another poller is answered with it, stores
  it and delivers it; then the first poller stores its stale answer, which overwrites the
  complete row, and the next poll that is answered with the trace finds it changed and
  delivers it again. No statement fails in this run.\<close>

theorem stale_answer_delivers_twice:
  assumes "\<not> is_incomplete t"
  shows "\<exists>w. feed_reaches False jsonb D (feed_start subs d) w \<and> feed_queue w = [t, t] \<and> \<not> lossy w"
proof -
  let ?s = "t\<lparr>is_incomplete := True\<rparr>" and ?job = "\<lambda>ts us. \<lparr>job_retry = False, pending = ts, found = us\<rparr>"
  let ?row = "\<lambda>x. inserted_row 0 (ton_trace_from 0 x)"
  let ?upd = "\<lambda>r x. updated_row 0 r (ton_trace_from 0 x)"
  let ?id = "trace_id t" and ?c = "answered_at 0"
  let ?R1 = "?row t" let ?R2 = "?upd ?R1 ?s" let ?R3 = "?upd ?R2 t"
  let ?w0 = "feed_start subs d"
  obtain s1 d1 where c1: "advance_cursor D (subs 0) d [?s] = (s1, d1)" by fastforce
  let ?w1 = "?w0\<lparr>feed_subs := subs(0 := s1), feed_heights := d1, jobs := [0 \<mapsto> ?job [?s] []]\<rparr>"
  let ?w2 = "?w1\<lparr>finished := [?id \<mapsto> t]\<rparr>"
  obtain s2 d2 where c2: "advance_cursor D (subs 1) d1 [t] = (s2, d2)" by fastforce
  let ?w3 = "?w2\<lparr>feed_subs := subs(0 := s1, 1 := s2), feed_heights := d2, jobs := [0 \<mapsto> ?job [?s] [], 1 \<mapsto> ?job [t] []]\<rparr>"
  let ?w4 = "?w3\<lparr>feed_table := [?id \<mapsto> ?R1], jobs := [0 \<mapsto> ?job [?s] [], 1 \<mapsto> ?job [] [t]]\<rparr>"
  let ?w5 = "?w4\<lparr>feed_queue := [t], jobs := [0 \<mapsto> ?job [?s] []]\<rparr>"
  let ?w6 = "?w5\<lparr>feed_table := [?id \<mapsto> ?R2], jobs := [0 \<mapsto> ?job [] []]\<rparr>"
  obtain s3 d3 where c3: "advance_cursor D s2 d2 [t] = (s3, d3)" by fastforce
  let ?w7 = "?w6\<lparr>feed_subs := subs(0 := s1, 1 := s3), feed_heights := d3, jobs := [0 \<mapsto> ?job [] [], 1 \<mapsto> ?job [t] []]\<rparr>"
  let ?w8 = "?w7\<lparr>feed_table := [?id \<mapsto> ?R3], jobs := [0 \<mapsto> ?job [] [], 1 \<mapsto> ?job [] [t]]\<rparr>"
  let ?w9 = "?w8\<lparr>feed_queue := [t, t], jobs := [0 \<mapsto> ?job [] []]\<rparr>"
  have st1: "feed_step False jsonb D ?w0 ?w1"
    using feed_step.poll [of ?w0 0 "[?s]" D s1 d1 False jsonb] c1 by (simp add: feed_start_def consistent_def)
  have st2: "feed_step False jsonb D ?w1 ?w2"
    using feed_step.finish [of ?w1 t False jsonb D] assms by (simp add: feed_start_def)
  have st3: "feed_step False jsonb D ?w2 ?w3"
    using feed_step.poll [of ?w2 1 "[t]" D s2 d2 False jsonb] c2 assms by (simp add: feed_start_def consistent_def)
  have st4: "feed_step False jsonb D ?w3 ?w4"
    using feed_step.store [of ?w3 1 "?job [t] []" t "[]" False jsonb ?c 0 "Some ?R1" "[?id \<mapsto> ?R1]" D] assms
    by (simp add: feed_start_def job_statement_def upsert_and_return_if_changed_def keep_found_def row_simps Let_def)
  have st5: "feed_step False jsonb D ?w4 ?w5"
    using feed_step.deliver [of ?w4 1 "?job [] [t]" False jsonb D] by (simp add: feed_start_def)
  have st6: "feed_step False jsonb D ?w5 ?w6"
    using feed_step.store [of ?w5 0 "?job [?s] []" ?s "[]" False jsonb ?c 0 "Some ?R2" "[?id \<mapsto> ?R2]" D] assms
    by (simp add: feed_start_def job_statement_def upsert_and_return_if_changed_def keep_found_def row_simps
        is_distinct_def Let_def)
  have st7: "feed_step False jsonb D ?w6 ?w7"
    using feed_step.poll [of ?w6 1 "[t]" D s3 d3 False jsonb] c3 assms by (simp add: feed_start_def consistent_def)
  have st8: "feed_step False jsonb D ?w7 ?w8"
    using feed_step.store [of ?w7 1 "?job [t] []" t "[]" False jsonb ?c 0 "Some ?R3" "[?id \<mapsto> ?R3]" D] assms
    by (simp add: feed_start_def job_statement_def upsert_and_return_if_changed_def keep_found_def row_simps
        is_distinct_def Let_def)
  have st9: "feed_step False jsonb D ?w8 ?w9"
    using feed_step.deliver [of ?w8 1 "?job [] [t]" False jsonb D] by (simp add: feed_start_def)
  note run = converse_rtranclp_into_rtranclp [where r = "feed_step False jsonb D"]
  have "feed_reaches False jsonb D ?w0 ?w9"
    by (rule run [OF st1 run [OF st2 run [OF st3 run [OF st4 run [OF st5 run [OF st6 run [OF st7
        run [OF st8 run [OF st9 rtranclp.rtrancl_refl]]]]]]]]])
  then show ?thesis
    by (rule exI [of _ ?w9, OF conjI]) (simp add: feed_start_def)
qed


section \<open>Witnesses\<close>

definition sample_feed :: "i64 option feed" where
  "sample_feed =
     (feed_start (\<lambda>_. sample_subscriber) None)\<lparr>finished := [trace_id (sample_trace []) \<mapsto> sample_trace []]\<rparr>"

lemma sample_feed_reached:
  "feed_reaches True (\<lambda>x. x) mem_heights (feed_start (\<lambda>_. sample_subscriber) None) sample_feed"
  using feed_step.finish [of "feed_start (\<lambda>_. sample_subscriber) (None :: i64 option)" "sample_trace []" True "\<lambda>x. x"
      mem_heights]
  by (auto simp: sample_feed_def feed_start_def)

lemma sample_feed_sel [simp]:
  "finished sample_feed = [trace_id (sample_trace []) \<mapsto> sample_trace []]" "jobs sample_feed = Map.empty"
  "\<not> lossy sample_feed" "feed_queue sample_feed = []" "feed_table sample_feed = Map.empty"
  by (simp_all add: sample_feed_def feed_start_def)

lemma sample_poll:
  "\<exists>sub' d' tbl'. poll_account mem_heights (upsert_and_return_if_changed (\<lambda>x. x)) (\<lambda>_. answered_at 0) (\<lambda>_. 0)
     (\<lambda>_ _ _. Inr [sample_trace []]) (TonAddress 0 []) (feed_subs sample_feed 0) (feed_heights sample_feed)
     (feed_table sample_feed) = (Inr [sample_trace []], sub', d', tbl')
   \<and> row_complete tbl' (trace_id (sample_trace []))"
  by (simp add: poll_account_def upsert_and_return_if_changed_def row_simps row_complete_def Let_def split: prod.splits)

lemma poll_delivers_finished_witness:
  "\<exists>sub' d' tbl' us. poll_account mem_heights (upsert_and_return_if_changed (\<lambda>x. x)) (\<lambda>_. answered_at 0) (\<lambda>_. 0)
     (\<lambda>_ _ _. Inr [sample_trace []]) (TonAddress 0 []) (feed_subs sample_feed 0) (feed_heights sample_feed)
     (feed_table sample_feed) = (Inr us, sub', d', tbl')
   \<and> sample_trace [] \<in> set us"
proof -
  obtain sub' d' tbl' where p: "poll_account mem_heights (upsert_and_return_if_changed (\<lambda>x. x)) (\<lambda>_. answered_at 0) (\<lambda>_. 0)
     (\<lambda>_ _ _. Inr [sample_trace []]) (TonAddress 0 []) (feed_subs sample_feed 0) (feed_heights sample_feed)
     (feed_table sample_feed) = (Inr [sample_trace []], sub', d', tbl')"
    using sample_poll by blast
  have asked: "asked_for (feed_subs sample_feed 0) t" for t
    by (simp add: asked_for_def poll_start_lt_def sample_feed_def feed_start_def sample_subscriber_def)
  have "sample_trace [] \<in> set (feed_queue sample_feed @ us) \<or> (\<exists>k j. jobs sample_feed k = Some j \<and> sample_trace [] \<in> set (found j))"
    if "Inr [sample_trace []] = (Inr us :: string + trace list)" for us
    using poll_delivers_finished [OF sample_feed_reached _ _ _ _ _ _ p, of "[sample_trace []]" "\<lambda>_ _. True"] that asked
    by (auto simp: consistent_def split: if_splits)
  with p show ?thesis by simp
qed

lemma poll_account_refines_steps_witness:
  "\<exists>w. feed_reaches True (\<lambda>x. x) mem_heights sample_feed w \<and> feed_queue w = [sample_trace []]"
proof -
  obtain sub' d' tbl' where p: "poll_account mem_heights (upsert_and_return_if_changed (\<lambda>x. x)) (\<lambda>_. answered_at 0) (\<lambda>_. 0)
     (\<lambda>_ _ _. Inr [sample_trace []]) (TonAddress 0 []) (feed_subs sample_feed 0) (feed_heights sample_feed)
     (feed_table sample_feed) = (Inr [sample_trace []], sub', d', tbl')"
    using sample_poll by blast
  have "feed_reaches True (\<lambda>x. x) mem_heights sample_feed (sample_feed\<lparr>feed_table := tbl',
      feed_subs := (feed_subs sample_feed)(0 := sub'), feed_heights := d', feed_queue := feed_queue sample_feed @ [sample_trace []]\<rparr>)"
    by (rule poll_account_refines_steps [OF p, where ts = "[sample_trace []]"]) (simp_all add: consistent_def)
  moreover have "feed_queue (sample_feed\<lparr>feed_table := tbl', feed_subs := (feed_subs sample_feed)(0 := sub'),
      feed_heights := d', feed_queue := feed_queue sample_feed @ [sample_trace []]\<rparr>) = [sample_trace []]"
    by simp
  ultimately show ?thesis by blast
qed

lemma traces_delivered_once_witness:
  "\<exists>w. feed_reaches True (\<lambda>x. x) mem_heights (feed_start (\<lambda>_. sample_subscriber) None) w
     \<and> feed_queue w = [sample_trace []] \<and> distinct (map trace_id (feed_queue w))
     \<and> (\<exists>t. trace_id t = trace_id (sample_trace []) \<and> (t \<in> set (feed_queue w) \<or> (\<exists>i j. jobs w i = Some j \<and> t \<in> set (found j))))"
proof -
  obtain sub' d' tbl' where p: "poll_account mem_heights (upsert_and_return_if_changed (\<lambda>x. x)) (\<lambda>_. answered_at 0) (\<lambda>_. 0)
     (\<lambda>_ _ _. Inr [sample_trace []]) (TonAddress 0 []) (feed_subs sample_feed 0) (feed_heights sample_feed)
     (feed_table sample_feed) = (Inr [sample_trace []], sub', d', tbl')"
    and c: "row_complete tbl' (trace_id (sample_trace []))"
    using sample_poll by blast
  let ?w = "sample_feed\<lparr>feed_table := tbl',
      feed_subs := (feed_subs sample_feed)(0 := sub'), feed_heights := d', feed_queue := feed_queue sample_feed @ [sample_trace []]\<rparr>"
  have "feed_reaches True (\<lambda>x. x) mem_heights sample_feed ?w"
    by (rule poll_account_run [OF p, where ts = "[sample_trace []]"]) (simp_all add: consistent_def)
  then have reach: "feed_reaches True (\<lambda>x. x) mem_heights (feed_start (\<lambda>_. sample_subscriber) None) ?w"
    by (rule rtranclp_trans [OF sample_feed_reached])
  have "feed_queue ?w = [sample_trace []]" by simp
  moreover have "distinct (map trace_id (feed_queue ?w))" "\<not> lossy ?w \<Longrightarrow> row_complete (feed_table ?w) (trace_id (sample_trace []))
      \<Longrightarrow> \<exists>t. trace_id t = trace_id (sample_trace []) \<and> (t \<in> set (feed_queue ?w) \<or> (\<exists>i j. jobs ?w i = Some j \<and> t \<in> set (found j)))"
    using traces_delivered_once [OF reach] by blast+
  ultimately show ?thesis
    using c reach by (intro exI [of _ ?w]) simp
qed

lemma stale_answer_delivers_twice_witness:
  "\<exists>w. feed_reaches False (\<lambda>x. x) mem_heights (feed_start (\<lambda>_. sample_subscriber) None) w
     \<and> feed_queue w = [sample_trace [], sample_trace []] \<and> \<not> lossy w"
  by (rule stale_answer_delivers_twice) simp

end
