(* ===== verification/Broadcast_System.thy ===== *)
theory Broadcast_System
  imports Broadcaster
begin

text \<open>
  Several broadcasts side by side: the broadcaster's tasks and other instances of the program
  share the lock store and the table of query ids. \<open>HighLoadQueryIdDbWrapper::next\<close> is two
  SQL statements, a read and a write, without a transaction around them; what keeps two
  clients from getting the same id is the lock on the wallet. The step relation takes the two
  statements apart and lets them interleave with those of the other clients, with acquiring and
  releasing wallets, time and crashes. Shown: while nobody exceeds the life of the lock, no id
  is issued twice in a session of a wallet; a whole send of \<open>Broadcaster\<close> is a run of these
  steps; and after 60 seconds two clients get the same id.
\<close>

section \<open>The two statements of the wrapper\<close>

text \<open>From the stored pair to the id to be issued.\<close>

definition read_query_id ::
    "bool \<Rightarrow> int \<Rightarrow> query_id_table \<Rightarrow> string \<Rightarrow> bool \<Rightarrow> high_load_query_id_wrapper_error + high_load_query_id" where
  "read_query_id ok now tbl address force =
     and_then (map_err (\<lambda>_. DatabaseError) (get_query_id ok now tbl address)) (\<lambda>(s, b).
     pick_query_id (if force then force_shift s else s) b)"

text \<open>The id is written back: a new row for the first id of a session, an update otherwise.\<close>

definition save_query_id ::
    "bool \<Rightarrow> int \<Rightarrow> query_id_table \<Rightarrow> string \<Rightarrow> u64 \<Rightarrow> high_load_query_id \<Rightarrow> (string + unit) \<times> query_id_table" where
  "save_query_id ok now tbl address timeout q =
     (if query_id q = 0
      then upsert_query_id ok now tbl address (shift q) (bitnumber q) (ucast timeout * TIMEOUT_BUFFER_MULTIPLIER)
      else update_query_id ok now tbl address (shift q) (bitnumber q))"

lemma wrapper_next_phases:
  "wrapper_next read_ok write_ok now tbl a timeout force =
     (case read_query_id read_ok now tbl a force of
        Inl e \<Rightarrow> (Inl e, tbl)
      | Inr q \<Rightarrow>
          (case save_query_id write_ok now tbl a timeout q of
             (Inl _, tbl') \<Rightarrow> (Inl DatabaseError, tbl')
           | (Inr _, tbl') \<Rightarrow> (Inr q, tbl')))"
  by (auto simp: wrapper_next_def read_query_id_def save_query_id_def Let_def split: sum.splits prod.splits)

text \<open>
  A picked id can be written: either it starts a session and the old one is over, or it lies
  above the stored one.
\<close>

definition above_row :: "query_id_table \<Rightarrow> int \<Rightarrow> string \<Rightarrow> high_load_query_id \<Rightarrow> bool" where
  "above_row tbl now a q \<longleftrightarrow>
     (q = hlq_zero \<and> live_row tbl a now = None)
     \<or> (valid_query_id q \<and> (\<exists>row. tbl a = Some row \<and> unat (query_id (row_id row)) < unat (query_id q)))"

lemma read_query_id_above:
  assumes "table_ok tbl" and "read_query_id ok now tbl a force = Inr q"
  shows "above_row tbl now a q"
proof (cases "live_row tbl a now")
  case None
  then show ?thesis
    using assms(2) pick_query_id_fresh pick_query_id_fresh_forced
    by (auto simp: read_query_id_def get_query_id_live above_row_def split: if_splits)
next
  case (Some row)
  let ?s = "if force then force_shift (row_shift row) else row_shift row" and ?b = "row_bitnumber row"
  have row: "tbl a = Some row" and v: "valid_query_id \<lparr>shift = row_shift row, bitnumber = ?b\<rparr>"
    using assms(1) Some by (auto simp: live_row_Some table_ok_def row_id_def)
  have vs: "valid_query_id \<lparr>shift = ?s, bitnumber = ?b\<rparr>" and le: "unat (row_shift row) \<le> unat ?s"
    using v force_shift_valid [OF v] by auto
  have p: "pick_query_id ?s ?b = Inr q"
    using assms(2) Some by (auto simp: read_query_id_def get_query_id_live split: if_splits)
  show ?thesis
    using pick_query_id_greater [OF vs p] le row by (simp add: above_row_def unat_query_id row_id_def)
qed

lemma above_row_later:
  assumes "above_row tbl now a q" and "now \<le> now'"
  shows "above_row tbl now' a q"
  using assms by (auto simp: above_row_def live_row_def split: option.splits if_splits)

lemma above_row_other: "tbl' a = tbl a \<Longrightarrow> above_row tbl' now a q = above_row tbl now a q"
  by (simp add: above_row_def live_row_def)

text \<open>Ids of a session come after those of the sessions that ended before, and increase.\<close>

definition id_before :: "int \<times> u64 \<Rightarrow> int \<times> u64 \<Rightarrow> bool" where
  "id_before x y \<longleftrightarrow> fst x < fst y \<or> (fst x = fst y \<and> unat (snd x) < unat (snd y))"

definition row_mark :: "query_id_row \<Rightarrow> int \<times> u64" where
  "row_mark row = (row_expires_at row, query_id (row_id row))"

lemma id_before_trans: "id_before x y \<Longrightarrow> id_before y z \<Longrightarrow> id_before x z"
  and id_before_irrefl: "\<not> id_before x x"
  by (auto simp: id_before_def)

definition session_seconds :: "u64 \<Rightarrow> int" where
  "session_seconds timeout = sint (ucast timeout * TIMEOUT_BUFFER_MULTIPLIER :: i32)"

lemma save_query_id_advances:
  assumes "above_row tbl now a q" and "0 \<le> session_seconds timeout"
    and "save_query_id ok now tbl a timeout q = (Inr u, tbl')"
  shows "\<exists>row. tbl' = tbl(a \<mapsto> row) \<and> row_id row = q \<and> valid_query_id q
    \<and> (\<forall>old. tbl a = Some old \<longrightarrow> id_before (row_mark old) (row_mark row))"
proof (cases "query_id q = 0")
  case True
  then have q: "q = hlq_zero" and dead: "live_row tbl a now = None"
    using assms(1) by (auto simp: above_row_def)
  then show ?thesis
    using assms(2,3) True hlq_zero_valid
    by (auto simp: save_query_id_def upsert_query_id_def Let_def row_id_def hlq_zero_def row_mark_def id_before_def
        live_row_def session_seconds_def SECOND_def split: if_splits option.splits)
next
  case False
  then have "q \<noteq> hlq_zero" by (auto simp: query_id_def hlq_zero_def)
  then obtain row where "valid_query_id q" "tbl a = Some row" "unat (query_id (row_id row)) < unat (query_id q)"
    using assms(1) by (auto simp: above_row_def)
  then show ?thesis
    using assms(3) False
    by (auto simp: save_query_id_def update_query_id_def row_id_def row_mark_def id_before_def query_id_def split: if_splits)
qed

lemma save_query_id_error: "save_query_id ok now tbl a timeout q = (Inl e, tbl') \<Longrightarrow> tbl' = tbl"
  by (auto simp: save_query_id_def upsert_query_id_def update_query_id_def Let_def split: if_splits option.splits)

section \<open>States and steps\<close>

text \<open>
  On top of the pool (clock, lock store, owners of wallets): the table, the id each client has
  read and not yet written, and the ids issued so far with their address and the end of their
  session.
\<close>

record 's fleet =
  fl_pool :: "'s pool"
  fl_table :: query_id_table
  picked :: "nat \<rightharpoonup> high_load_query_id"
  fl_issued :: "(string \<times> int \<times> u64) list"

text \<open>
  A client acquires and releases only while it has no id in hand. A crash forgets the wallet and
  leaves its lock to expire.
\<close>

inductive fleet_step ::
    "bool \<Rightarrow> crates \<Rightarrow> (int \<Rightarrow> string \<Rightarrow> 's \<Rightarrow> bool \<times> 's) \<Rightarrow> (int \<Rightarrow> string \<Rightarrow> 's \<Rightarrow> 's) \<Rightarrow> int
      \<Rightarrow> (ton_address \<times> ton_wallet_high_load_v3) list \<Rightarrow> 's fleet \<Rightarrow> 's fleet \<Rightarrow> bool"
  for timely X lock unlock ttl entries where
  pool: "\<lbrakk>pool_step timely X lock unlock ttl entries (fl_pool w) p;
      \<And>i. picked w i \<noteq> None \<Longrightarrow> owners p i = owners (fl_pool w) i\<rbrakk>
    \<Longrightarrow> fleet_step timely X lock unlock ttl entries w (w\<lparr>fl_pool := p\<rparr>)"
| read: "\<lbrakk>owners (fl_pool w) i = Some (v, since); picked w i = None;
      read_query_id ok (clock (fl_pool w)) (fl_table w) (wallet_key X v) force = Inr q\<rbrakk>
    \<Longrightarrow> fleet_step timely X lock unlock ttl entries w (w\<lparr>picked := (picked w)(i \<mapsto> q)\<rparr>)"
| save: "\<lbrakk>owners (fl_pool w) i = Some (v, since); picked w i = Some q;
      save_query_id ok (clock (fl_pool w)) (fl_table w) (wallet_key X v) (wallet_timeout v) q = (Inr u, tbl');
      tbl' (wallet_key X v) = Some row\<rbrakk>
    \<Longrightarrow> fleet_step timely X lock unlock ttl entries w
          (w\<lparr>fl_table := tbl', picked := (picked w)(i := None),
             fl_issued := fl_issued w @ [(wallet_key X v, row_expires_at row, query_id q)]\<rparr>)"
| save_fails: "\<lbrakk>owners (fl_pool w) i = Some (v, since); picked w i = Some q;
      save_query_id ok (clock (fl_pool w)) (fl_table w) (wallet_key X v) (wallet_timeout v) q = (Inl e, tbl')\<rbrakk>
    \<Longrightarrow> fleet_step timely X lock unlock ttl entries w (w\<lparr>fl_table := tbl', picked := (picked w)(i := None)\<rparr>)"
| crash: "fleet_step timely X lock unlock ttl entries w
      (w\<lparr>fl_pool := (fl_pool w)\<lparr>owners := (owners (fl_pool w))(i := None)\<rparr>, picked := (picked w)(i := None)\<rparr>)"

abbreviation fleet_reaches ::
    "bool \<Rightarrow> crates \<Rightarrow> (int \<Rightarrow> string \<Rightarrow> 's \<Rightarrow> bool \<times> 's) \<Rightarrow> (int \<Rightarrow> string \<Rightarrow> 's \<Rightarrow> 's) \<Rightarrow> int
      \<Rightarrow> (ton_address \<times> ton_wallet_high_load_v3) list \<Rightarrow> 's fleet \<Rightarrow> 's fleet \<Rightarrow> bool" where
  "fleet_reaches timely X lock unlock ttl entries \<equiv> (fleet_step timely X lock unlock ttl entries)\<^sup>*\<^sup>*"

definition fleet_start :: "int \<Rightarrow> 's \<Rightarrow> query_id_table \<Rightarrow> 's fleet" where
  "fleet_start now s tbl =
     \<lparr>fl_pool = \<lparr>clock = now, store = s, owners = Map.empty\<rparr>, fl_table = tbl, picked = Map.empty, fl_issued = []\<rparr>"

section \<open>Invariant\<close>

text \<open>The ids issued for each address come in order, and none is beyond the stored row.\<close>

definition issued_ok :: "query_id_table \<Rightarrow> (string \<times> int \<times> u64) list \<Rightarrow> bool" where
  "issued_ok tbl log \<longleftrightarrow>
     sorted_wrt (\<lambda>x y. fst x = fst y \<longrightarrow> id_before (snd x) (snd y)) log
     \<and> (\<forall>x \<in> set log. \<exists>row. tbl (fst x) = Some row \<and> (snd x = row_mark row \<or> id_before (snd x) (row_mark row)))"

lemma issued_ok_snoc:
  assumes "issued_ok tbl log" and "\<forall>old. tbl a = Some old \<longrightarrow> id_before (row_mark old) (row_mark row)"
  shows "issued_ok (tbl(a \<mapsto> row)) (log @ [(a, row_mark row)])"
proof -
  have below: "id_before (snd x) (row_mark row)" if "x \<in> set log" "fst x = a" for x
    using assms that unfolding issued_ok_def by (metis id_before_trans)
  then show ?thesis
    using assms(1) by (auto simp: issued_ok_def sorted_wrt_append)
qed

definition fleet_inv ::
    "crates \<Rightarrow> (int \<Rightarrow> 's \<Rightarrow> string set) \<Rightarrow> int \<Rightarrow> (ton_address \<times> ton_wallet_high_load_v3) list \<Rightarrow> 's fleet \<Rightarrow> bool" where
  "fleet_inv X held ttl entries w \<longleftrightarrow>
     pool_inv X held ttl (fl_pool w)
     \<and> (\<forall>i v t0. owners (fl_pool w) i = Some (v, t0) \<longrightarrow> v \<in> snd ` set entries)
     \<and> table_ok (fl_table w)
     \<and> (\<forall>i q. picked w i = Some q \<longrightarrow> (\<exists>v t0. owners (fl_pool w) i = Some (v, t0)
          \<and> above_row (fl_table w) (clock (fl_pool w)) (wallet_key X v) q))
     \<and> issued_ok (fl_table w) (fl_issued w)"

lemma fleet_start_inv: "table_ok tbl \<Longrightarrow> fleet_inv X held ttl entries (fleet_start now s tbl)"
  by (simp add: fleet_inv_def fleet_start_def pool_inv_def issued_ok_def)

lemma pool_step_clock: "pool_step timely X lock unlock ttl entries p p' \<Longrightarrow> clock p \<le> clock p'"
  by (auto elim: pool_stepE)

lemma pool_inv_drop:
  "pool_inv X held ttl p \<Longrightarrow> pool_inv X held ttl (p\<lparr>owners := (owners p)(i := None)\<rparr>)"
  unfolding pool_inv_def by (auto split: if_splits)

lemma fleet_inv_picked:
  "\<lbrakk>fleet_inv X held ttl entries w; picked w i = Some q\<rbrakk>
    \<Longrightarrow> \<exists>v t0. owners (fl_pool w) i = Some (v, t0) \<and> above_row (fl_table w) (clock (fl_pool w)) (wallet_key X v) q"
  by (simp add: fleet_inv_def)

lemma fleet_inv_drop:
  assumes "fleet_inv X held ttl entries w"
  shows "fleet_inv X held ttl entries (w\<lparr>picked := (picked w)(i := None)\<rparr>)"
  using assms by (simp add: fleet_inv_def)

lemma fleet_inv_crash:
  assumes "fleet_inv X held ttl entries w"
  shows "fleet_inv X held ttl entries
    (w\<lparr>fl_pool := (fl_pool w)\<lparr>owners := (owners (fl_pool w))(i := None)\<rparr>, picked := (picked w)(i := None)\<rparr>)"
  using assms pool_inv_drop [of X held ttl "fl_pool w" i] by (simp add: fleet_inv_def)

text \<open>The steps on the table alone, for a client whose wallet no other client has.\<close>

lemma fleet_inv_read:
  assumes "fleet_inv X held ttl entries w" and "owners (fl_pool w) i = Some (v, since)"
    and "read_query_id ok (clock (fl_pool w)) (fl_table w) (wallet_key X v) force = Inr q"
  shows "fleet_inv X held ttl entries (w\<lparr>picked := (picked w)(i \<mapsto> q)\<rparr>)"
proof -
  have "above_row (fl_table w) (clock (fl_pool w)) (wallet_key X v) q"
    using read_query_id_above assms(1,3) by (auto simp: fleet_inv_def)
  then show ?thesis
    using assms(1,2) by (auto simp: fleet_inv_def)
qed

lemma fleet_inv_save:
  assumes inv: "fleet_inv X held ttl entries w" and own: "owners (fl_pool w) i = Some (v, since)"
    and "picked w i = Some q"
    and "save_query_id ok (clock (fl_pool w)) (fl_table w) (wallet_key X v) (wallet_timeout v) q = (Inr u, tbl')"
    and "tbl' (wallet_key X v) = Some row" and "\<forall>(a, v) \<in> set entries. 0 \<le> session_seconds (wallet_timeout v)"
  shows "fleet_inv X held ttl entries (w\<lparr>fl_table := tbl', picked := (picked w)(i := None),
           fl_issued := fl_issued w @ [(wallet_key X v, row_expires_at row, query_id q)]\<rparr>)"
proof -
  let ?a = "wallet_key X v" and ?tbl = "fl_table w"
  have above: "above_row ?tbl (clock (fl_pool w)) ?a q" and "0 \<le> session_seconds (wallet_timeout v)"
    using inv own assms(3,6) by (fastforce simp: fleet_inv_def)+
  from save_query_id_advances [OF above this(2) assms(4)] assms(5)
  have new: "tbl' = ?tbl(?a \<mapsto> row)" "row_id row = q" "valid_query_id q"
      "\<forall>old. ?tbl ?a = Some old \<longrightarrow> id_before (row_mark old) (row_mark row)"
    by auto
  have other: "wallet_key X v' \<noteq> ?a" if "owners (fl_pool w) k = Some (v', t')" "k \<noteq> i" for k v' t'
    using pool_inv_distinct [of X held ttl "fl_pool w" k v' t' i v since] inv own that by (simp add: fleet_inv_def)
  have "\<exists>v' t0. owners (fl_pool w) k = Some (v', t0) \<and> above_row tbl' (clock (fl_pool w)) (wallet_key X v') q'"
    if p: "((picked w)(i := None)) k = Some q'" for k q'
  proof -
    have "k \<noteq> i" "picked w k = Some q'" using p by (auto split: if_splits)
    with inv other obtain v' t0 where "owners (fl_pool w) k = Some (v', t0)" "wallet_key X v' \<noteq> ?a"
        "above_row ?tbl (clock (fl_pool w)) (wallet_key X v') q'"
      unfolding fleet_inv_def by meson
    then show ?thesis using new(1) above_row_other [of tbl' "wallet_key X v'" ?tbl] by auto
  qed
  moreover have "table_ok tbl'"
    using inv new(1-3) by (auto simp: fleet_inv_def table_ok_def)
  moreover have "issued_ok tbl' (fl_issued w @ [(?a, row_mark row)])"
    using issued_ok_snoc [of ?tbl "fl_issued w" ?a row] new(4) inv new(1) by (simp add: fleet_inv_def)
  ultimately show ?thesis
    using inv new(2) by (simp add: fleet_inv_def row_mark_def)
qed

context lock_manager
begin

lemma pool_step_entries:
  assumes "pool_step timely X lock unlock ttl entries p p'"
    and "\<forall>(a, w) \<in> set entries. wallet_address w = a"
    and "\<forall>i v t0. owners p i = Some (v, t0) \<longrightarrow> v \<in> snd ` set entries"
  shows "\<forall>i v t0. owners p' i = Some (v, t0) \<longrightarrow> v \<in> snd ` set entries"
  using assms(1)
proof (cases rule: pool_step.cases)
  case (take i w s')
  have "w \<in> snd ` set entries" using acquire_success [OF take(3) assms(2)] by force
  then show ?thesis using assms(3) take(1) by simp
qed (use assms(3) in auto)

lemma fleet_step_inv:
  assumes "fleet_step True X lock unlock ttl entries w w'" and inv: "fleet_inv X held ttl entries w"
    and keyed: "\<forall>(a, w) \<in> set entries. wallet_address w = a"
    and "0 < ttl" and pos: "\<forall>(a, v) \<in> set entries. 0 \<le> session_seconds (wallet_timeout v)"
  shows "fleet_inv X held ttl entries w'"
  using assms(1)
proof (cases rule: fleet_step.cases)
  case (pool p)
  have "pool_inv X held ttl p"
    using pool_step_inv [OF _ pool(2) keyed \<open>0 < ttl\<close>] inv by (simp add: fleet_inv_def)
  moreover have "\<forall>i v t0. owners p i = Some (v, t0) \<longrightarrow> v \<in> snd ` set entries"
    using pool_step_entries [OF pool(2) keyed] inv by (simp add: fleet_inv_def)
  moreover have "\<exists>v t0. owners p i = Some (v, t0) \<and> above_row (fl_table w) (clock p) (wallet_key X v) q"
    if k: "picked w i = Some q" for i q
  proof -
    obtain v t0 where "owners (fl_pool w) i = Some (v, t0)"
        and a: "above_row (fl_table w) (clock (fl_pool w)) (wallet_key X v) q"
      using fleet_inv_picked [OF inv k] by blast
    with k pool(3) [of i] have "owners p i = Some (v, t0)" by simp
    with above_row_later [OF a pool_step_clock [OF pool(2)]] show ?thesis by blast
  qed
  ultimately show ?thesis
    using inv pool(1) by (simp add: fleet_inv_def)
next
  case (read i v since ok force q)
  show ?thesis using fleet_inv_read [OF inv read(2,4)] read(1) by simp
next
  case (save i v since q ok u tbl' row)
  show ?thesis using fleet_inv_save [OF inv save(2-5) pos] save(1) by simp
next
  case (save_fails i v since q ok e tbl')
  then show ?thesis
    using fleet_inv_drop [OF inv, of i] save_query_id_error [OF save_fails(4)] by simp
next
  case (crash i)
  then show ?thesis
    using fleet_inv_crash [OF inv] by simp
qed

lemma fleet_reaches_inv:
  assumes "fleet_reaches True X lock unlock ttl entries w w'" and "fleet_inv X held ttl entries w"
    and "\<forall>(a, w) \<in> set entries. wallet_address w = a"
    and "0 < ttl" and "\<forall>(a, v) \<in> set entries. 0 \<le> session_seconds (wallet_timeout v)"
  shows "fleet_inv X held ttl entries w'"
  using assms(1,2) by (induction rule: rtranclp_induct) (simp, rule fleet_step_inv [OF _ _ assms(3-5)])

end

text \<open>After a successful write of an id that was read from the same table there is a row.\<close>

lemma saved_row:
  assumes "read_query_id ro now tbl a force = Inr q"
    and "save_query_id wo now' tbl a timeout q = (Inr u, tbl')"
  shows "\<exists>row. tbl' a = Some row"
proof (cases "tbl a")
  case None
  then have "q = hlq_zero"
    using assms(1) pick_query_id_fresh pick_query_id_fresh_forced
    by (auto simp: read_query_id_def get_query_id_def split: if_splits)
  then have "query_id q = 0" by (simp add: query_id_def hlq_zero_def)
  then show ?thesis
    using assms(2) None by (auto simp: save_query_id_def upsert_query_id_def Let_def split: if_splits)
next
  case (Some row)
  then show ?thesis
    using assms(2)
    by (auto simp: save_query_id_def upsert_query_id_def update_query_id_def Let_def split: if_splits)
qed

section \<open>A send as steps\<close>

text \<open>The boc of a wallet's message under a query id.\<close>

definition boc_of_id ::
    "crates \<Rightarrow> ('c, 'p, 'b) tonlib \<Rightarrow> gas_estimates \<Rightarrow> u64 \<Rightarrow> ton_wallet_high_load_v3 \<Rightarrow> 'c out_action list \<Rightarrow> u64
      \<Rightarrow> broadcaster_error exn + string" where
  "boc_of_id X T ge unix wallet actions n =
     and_then
       (case outgoing_message T unix wallet actions n (unat (highload_wallet_send ge (word_of_nat (length actions)))) of
          Inl Panicked \<Rightarrow> Inl Panicked
        | Inl (Err e) \<Rightarrow> Inl (Err (boc_failed e))
        | Inr c \<Rightarrow> Inr c) (\<lambda>message.
     and_then (map_err (\<lambda>e. Err (BroadcasterGenericError e)) (boc_serialize T message)) (\<lambda>tx.
     Inr (base64_encode X tx)))"

lemma prepare_boc_id:
  "prepare_boc X T ge at v actions force tbl =
     (case wrapper_next (at_read_ok at) (at_write_ok at) (at_now at) tbl (wallet_key X v) (wallet_timeout v) force of
        (Inl e, tbl') \<Rightarrow>
          (Inl (Err (BroadcasterGenericError (''Query Id acquiring failed: '' @ wrapper_error_debug e))), tbl')
      | (Inr q, tbl') \<Rightarrow> (boc_of_id X T ge (at_unix at) v actions (query_id q), tbl'))"
  unfolding prepare_boc_def boc_of_id_def wallet_key_def by (rule refl)

text \<open>
  \<open>ran\<close>: the client's wallet and everybody's picked ids are as before, only the clock, the table
  and the log of issued ids moved.
\<close>

definition ran :: "int \<Rightarrow> 's fleet \<Rightarrow> 's fleet \<Rightarrow> (string \<times> int \<times> u64) list \<Rightarrow> query_id_table \<Rightarrow> bool" where
  "ran until w w' log tbl \<longleftrightarrow>
     owners (fl_pool w') = owners (fl_pool w) \<and> store (fl_pool w') = store (fl_pool w)
     \<and> clock (fl_pool w) \<le> clock (fl_pool w') \<and> clock (fl_pool w') \<le> until
     \<and> picked w' = picked w \<and> fl_issued w' = fl_issued w @ log \<and> fl_table w' = tbl"

text \<open>In a timely system nobody's lock ends before the given time.\<close>

definition in_time :: "bool \<Rightarrow> int \<Rightarrow> int \<Rightarrow> 's pool \<Rightarrow> bool" where
  "in_time timely ttl until p \<longleftrightarrow> (timely \<longrightarrow> (\<forall>k v t0. owners p k = Some (v, t0) \<longrightarrow> until < t0 + ttl))"

lemma fleet_tick:
  assumes "in_time timely ttl until (fl_pool w)" and "clock (fl_pool w) \<le> t" and "t \<le> until"
  shows "fleet_step timely X lock unlock ttl entries w (w\<lparr>fl_pool := (fl_pool w)\<lparr>clock := t\<rparr>\<rparr>)"
proof (rule fleet_step.pool)
  show "pool_step timely X lock unlock ttl entries (fl_pool w) ((fl_pool w)\<lparr>clock := t\<rparr>)"
    using assms by (intro pool_step.tick) (force simp: in_time_def)+
qed simp

lemma wrapper_next_steps:
  assumes own: "owners (fl_pool w) i = Some (v, since)" and idle: "picked w i = None"
    and time: "in_time timely ttl until (fl_pool w)" "clock (fl_pool w) \<le> now" "now \<le> until"
    and run: "wrapper_next ro wo now (fl_table w) (wallet_key X v) (wallet_timeout v) force = (r, tbl')"
  shows "\<exists>w' log. fleet_reaches timely X lock unlock ttl entries w w' \<and> ran until w w' log tbl'
    \<and> (case r of Inl _ \<Rightarrow> log = [] | Inr q \<Rightarrow> \<exists>e. log = [(wallet_key X v, e, query_id q)])"
proof -
  let ?R = "fleet_reaches timely X lock unlock ttl entries" and ?S = "fleet_step timely X lock unlock ttl entries"
  let ?w = "w\<lparr>fl_pool := (fl_pool w)\<lparr>clock := now\<rparr>\<rparr>"
  have tick: "?R w ?w" using fleet_tick [OF time] by (rule r_into_rtranclp)
  show ?thesis
  proof (cases "read_query_id ro now (fl_table w) (wallet_key X v) force")
    case (Inl e)
    then have "r = Inl e \<and> tbl' = fl_table w" using run by (simp add: wrapper_next_phases)
    with tick time show ?thesis
      by (intro exI [of _ ?w] exI [of _ "[]"]) (simp add: ran_def)
  next
    case (Inr q)
    let ?p = "?w\<lparr>picked := (picked ?w)(i \<mapsto> q)\<rparr>"
    obtain res tbl where sv: "save_query_id wo now (fl_table w) (wallet_key X v) (wallet_timeout v) q = (res, tbl)"
      by fastforce
    have "?S ?w ?p"
      by (rule fleet_step.read [where v = v and since = since and ok = ro and force = force])
        (use own idle Inr in simp_all)
    with tick have picked: "?R w ?p" by (rule rtranclp.rtrancl_into_rtrancl)
    show ?thesis
    proof (cases res)
      case (Inl e)
      then have r: "r = Inl DatabaseError \<and> tbl' = tbl" using run sv Inr by (simp add: wrapper_next_phases)
      let ?f = "?p\<lparr>fl_table := tbl', picked := (picked ?p)(i := None)\<rparr>"
      have "?S ?p ?f"
        by (rule fleet_step.save_fails [where v = v and since = since and ok = wo and q = q and e = e])
          (use own sv Inl r in simp_all)
      with picked have "?R w ?f" by (rule rtranclp.rtrancl_into_rtrancl)
      with r time idle show ?thesis
        by (intro exI [of _ ?f] exI [of _ "[]"]) (simp add: ran_def fun_upd_idem)
    next
      case (Inr u)
      then have r: "r = Inr q \<and> tbl' = tbl"
        using run sv \<open>read_query_id ro now (fl_table w) (wallet_key X v) force = Inr q\<close> by (simp add: wrapper_next_phases)
      obtain row where row: "tbl' (wallet_key X v) = Some row"
        using saved_row [OF \<open>read_query_id ro now (fl_table w) (wallet_key X v) force = Inr q\<close>] sv Inr r by blast
      let ?log = "[(wallet_key X v, row_expires_at row, query_id q)]"
      let ?f = "?p\<lparr>fl_table := tbl', picked := (picked ?p)(i := None), fl_issued := fl_issued ?p @ ?log\<rparr>"
      have "?S ?p ?f"
        by (rule fleet_step.save [where v = v and since = since and ok = wo and u = u])
          (use own sv Inr r row in simp_all)
      with picked have "?R w ?f" by (rule rtranclp.rtrancl_into_rtrancl)
      with r time idle show ?thesis
        by (intro exI [of _ ?f] exI [of _ ?log]) (simp add: ran_def fun_upd_idem)
    qed
  qed
qed

lemma ran_trans: "ran until w w1 l1 t1 \<Longrightarrow> ran until w1 w2 l2 t2 \<Longrightarrow> ran until w w2 (l1 @ l2) t2"
  by (auto simp: ran_def)

text \<open>The posts are the messages under the issued ids, in the order of the attempts.\<close>

definition carries ::
    "crates \<Rightarrow> ('c, 'p, 'b) tonlib \<Rightarrow> gas_estimates \<Rightarrow> (nat \<Rightarrow> attempt) \<Rightarrow> ton_wallet_high_load_v3 \<Rightarrow> 'c out_action list
      \<Rightarrow> string list \<Rightarrow> (string \<times> int \<times> u64) list \<Rightarrow> bool" where
  "carries X T ge env v actions bocs log \<longleftrightarrow>
     length bocs \<le> length log \<and> (\<forall>x \<in> set log. fst x = wallet_key X v)
     \<and> (\<forall>n < length bocs. boc_of_id X T ge (at_unix (env n)) v actions (snd (snd (log ! n))) = Inr (bocs ! n))"

lemma carries_Cons:
  "carries X T ge env v actions (boc # bocs) ((a, e, n) # log) \<longleftrightarrow>
     a = wallet_key X v \<and> boc_of_id X T ge (at_unix (env 0)) v actions n = Inr boc
     \<and> carries X T ge (env \<circ> Suc) v actions bocs log"
  by (auto simp: carries_def nth_Cons less_Suc_eq_0_disj all_conj_distrib split: nat.splits)

definition on_schedule :: "(nat \<Rightarrow> attempt) \<Rightarrow> int \<Rightarrow> int \<Rightarrow> bool" where
  "on_schedule env from until \<longleftrightarrow>
     from \<le> at_now (env 0) \<and> (\<forall>n. at_now (env n) \<le> at_now (env (Suc n)) \<and> at_now (env n) \<le> until)"

lemma in_time_mono: "in_time timely ttl until p \<Longrightarrow> t \<le> until \<Longrightarrow> in_time timely ttl t p"
  by (force simp: in_time_def)

lemma ran_mono: "ran t w w' log tbl \<Longrightarrow> t \<le> until \<Longrightarrow> ran until w w' log tbl"
  by (auto simp: ran_def)

text \<open>One attempt.\<close>

lemma prepare_boc_steps:
  assumes own: "owners (fl_pool w) i = Some (v, since)" and idle: "picked w i = None"
    and time: "in_time timely ttl (at_now at) (fl_pool w)" "clock (fl_pool w) \<le> at_now at"
    and run: "prepare_boc X T ge at v actions force (fl_table w) = (p, tbl)"
  shows "\<exists>w' log. fleet_reaches timely X lock unlock ttl entries w w' \<and> ran (at_now at) w w' log tbl
    \<and> (\<forall>x \<in> set log. fst x = wallet_key X v)
    \<and> (\<forall>boc. p = Inr boc \<longrightarrow> (\<exists>e n. log = [(wallet_key X v, e, n)]
         \<and> boc_of_id X T ge (at_unix at) v actions n = Inr boc))"
proof -
  obtain q where q: "wrapper_next (at_read_ok at) (at_write_ok at) (at_now at) (fl_table w) (wallet_key X v)
      (wallet_timeout v) force = (q, tbl)"
    using run by (auto simp: prepare_boc_id split: prod.splits sum.splits)
  from wrapper_next_steps [OF own idle time order_refl q]
  obtain w1 log where "fleet_reaches timely X lock unlock ttl entries w w1" "ran (at_now at) w w1 log tbl"
      "case q of Inl _ \<Rightarrow> log = [] | Inr q' \<Rightarrow> \<exists>e. log = [(wallet_key X v, e, query_id q')]" by blast
  then show ?thesis
    using run q by (intro exI [of _ w1] exI [of _ log]) (auto simp: prepare_boc_id split: sum.splits)
qed

lemma send_to_chain_steps:
  assumes "send_to_chain X T ge env v actions r st = (res, st')"
    and "owners (fl_pool w) i = Some (v, since)" and "picked w i = None"
    and "in_time timely ttl until (fl_pool w)" and "on_schedule env (clock (fl_pool w)) until"
    and "fl_table w = query_ids st"
  shows "\<exists>w' log bocs. fleet_reaches timely X lock unlock ttl entries w w' \<and> ran until w w' log (query_ids st')
    \<and> locks st' = locks st \<and> posted st' = posted st @ bocs \<and> carries X T ge env v actions bocs log"
  using assms
proof (induction X T ge env v actions r st arbitrary: w rule: send_to_chain.induct)
  case (1 X T ge env v actions r st)
  let ?at = "env 0" and ?R = "fleet_reaches timely X lock unlock ttl entries"
  obtain p tbl where prep: "prepare_boc X T ge ?at v actions (r \<noteq> None) (query_ids st) = (p, tbl)" by fastforce
  have now: "clock (fl_pool w) \<le> at_now ?at" "at_now ?at \<le> until"
    using "1.prems"(5) by (simp_all add: on_schedule_def)
  from prepare_boc_steps [where lock = lock and unlock = unlock and entries = entries, OF "1.prems"(2,3) in_time_mono [OF "1.prems"(4) now(2)] now(1) prep [folded "1.prems"(6)]]
  obtain w1 log1 where w1: "?R w w1" "ran (at_now ?at) w w1 log1 tbl" "\<forall>x \<in> set log1. fst x = wallet_key X v"
      and boc1: "\<forall>boc. p = Inr boc \<longrightarrow>
        (\<exists>e n. log1 = [(wallet_key X v, e, n)] \<and> boc_of_id X T ge (at_unix ?at) v actions n = Inr boc)"
    by (elim exE conjE) (rule that)
  note ran1 = ran_mono [OF w1(2) now(2)]
  show ?case
  proof (cases p)
    case (Inl e)
    then have "st' = st\<lparr>query_ids := tbl\<rparr>" using "1.prems"(1) prep by (simp add: send_to_chain.simps [of X])
    then show ?thesis
      using w1 ran1 by (intro exI [of _ w1] exI [of _ log1] exI [of _ "[]"]) (simp add: carries_def)
  next
    case (Inr boc)
    let ?st = "st\<lparr>query_ids := tbl, posted := posted st @ [boc]\<rparr>"
    show ?thesis
    proof (cases "already_executed (at_answer ?at boc) \<and> next_retries r \<noteq> None")
      case False
      then have "st' = ?st"
        using "1.prems"(1) prep Inr
        by (auto simp: send_to_chain.simps [of X] already_executed_def Let_def split: sum.splits if_splits)
      then show ?thesis
        using w1(1) ran1 boc1 Inr
        by (intro exI [of _ w1] exI [of _ log1] exI [of _ "[boc]"]) (auto simp: carries_Cons carries_def)
    next
      case True
      then obtain err r' where err: "at_answer ?at boc = Inl err" "str_contains err HIGHLOAD_WALLET_ALREADY_EXECUTED"
          and r': "next_retries r = Some r'"
        by (auto simp: already_executed_def split: sum.splits)
      have rec: "send_to_chain X T ge (env \<circ> Suc) v actions (Some r') ?st = (res, st')"
        using "1.prems"(1) prep Inr err r' by (simp add: send_to_chain.simps [of X T ge env] Let_def)
      have w1': "owners (fl_pool w1) i = Some (v, since)" "picked w1 i = None" "in_time timely ttl until (fl_pool w1)"
          "fl_table w1 = query_ids ?st" "clock (fl_pool w1) \<le> at_now ?at"
        using w1(2) "1.prems"(2-4) by (simp_all add: ran_def in_time_def)
      have "on_schedule (env \<circ> Suc) (clock (fl_pool w1)) until"
        using "1.prems"(5) w1'(5) by (auto simp: on_schedule_def intro: order_trans)
      from "1.IH" [OF prep [symmetric] Inr refl err r' rec w1'(1-3) this w1'(4)]
      obtain w2 log2 bocs where "?R w1 w2" "ran until w1 w2 log2 (query_ids st')" "locks st' = locks ?st"
          "posted st' = posted ?st @ bocs" "carries X T ge (env \<circ> Suc) v actions bocs log2" by blast
      then show ?thesis
        using w1(1) ran_trans [OF ran1] boc1 Inr
        by (intro exI [of _ w2] exI [of _ "log1 @ log2"] exI [of _ "boc # bocs"]) (auto simp: carries_Cons)
    qed
  qed
qed

text \<open>
  The states of a sequential broadcast and of the system agree; the client is idle; the clocks of
  the broadcast advance, and in a timely system it is over before its own lock and those of
  the others end.
\<close>

definition ready ::
    "bool \<Rightarrow> int \<Rightarrow> broadcast_env \<Rightarrow> nat \<Rightarrow> 's broadcast_state \<Rightarrow> 's fleet \<Rightarrow> bool" where
  "ready timely ttl env i st w \<longleftrightarrow>
     locks st = store (fl_pool w) \<and> query_ids st = fl_table w \<and> owners (fl_pool w) i = None \<and> picked w i = None
     \<and> clock (fl_pool w) \<le> acquire_at env \<and> acquire_at env \<le> release_at env
     \<and> on_schedule (attempts env) (acquire_at env) (release_at env)
     \<and> (timely \<longrightarrow> release_at env < acquire_at env + ttl) \<and> in_time timely ttl (release_at env) (fl_pool w)"

text \<open>What the broadcast has done to the system.\<close>

definition served ::
    "crates \<Rightarrow> ('c, 'p, 'b) tonlib \<Rightarrow> ton_broadcaster \<Rightarrow> broadcast_env
      \<Rightarrow> 's broadcast_state \<Rightarrow> 's broadcast_state \<Rightarrow> 's fleet \<Rightarrow> 's fleet \<Rightarrow> bool" where
  "served X T B env st st' w w' \<longleftrightarrow>
     locks st' = store (fl_pool w') \<and> query_ids st' = fl_table w'
     \<and> owners (fl_pool w') = owners (fl_pool w) \<and> picked w' = picked w
     \<and> (\<exists>v acts bocs log. posted st' = posted st @ bocs \<and> fl_issued w' = fl_issued w @ log
          \<and> carries X T (b_gas_estimator B) (attempts env) v acts bocs log)"

definition sends_once ::
    "crates \<Rightarrow> ('c, 'p, 'b) tonlib \<Rightarrow> ton_broadcaster \<Rightarrow> broadcast_env
      \<Rightarrow> (ton_wallet_high_load_v3 \<Rightarrow> 's broadcast_state \<Rightarrow> (broadcaster_error exn + 'a) \<times> 's broadcast_state) \<Rightarrow> bool" where
  "sends_once X T B env block \<longleftrightarrow>
     (\<forall>v s r s'. block v s = (r, s') \<longrightarrow> r \<noteq> Inl Panicked
        \<and> (s' = s \<or> (\<exists>act res. send_to_chain X T (b_gas_estimator B) (attempts env) v [act] None s = (res, s'))))"

lemma served_refl: "ready timely ttl env i st w \<Longrightarrow> served X T B env st st w w"
  by (auto simp: ready_def served_def carries_def)

lemma sends_once_steps:
  assumes "sends_once X T B env block" and "block v st = (res, st')"
    and "owners (fl_pool w) i = Some (v, since)" and "picked w i = None" and "fl_table w = query_ids st"
    and "in_time timely ttl until (fl_pool w)" and "on_schedule (attempts env) (clock (fl_pool w)) until"
    and "clock (fl_pool w) \<le> until"
  shows "\<exists>w' log bocs acts. fleet_reaches timely X lock unlock ttl entries w w' \<and> ran until w w' log (query_ids st')
    \<and> locks st' = locks st \<and> posted st' = posted st @ bocs
    \<and> carries X T (b_gas_estimator B) (attempts env) v acts bocs log"
proof (cases "st' = st")
  case True
  then show ?thesis
    using assms(5,8) by (intro exI [of _ w] exI [of _ "[]"]) (simp add: ran_def carries_def)
next
  case False
  then obtain act res' where "send_to_chain X T (b_gas_estimator B) (attempts env) v [act] None st = (res', st')"
    using assms(1,2) unfolding sends_once_def by blast
  from send_to_chain_steps [where lock = lock and unlock = unlock and entries = entries, OF this assms(3,4,6,7,5)]
  show ?thesis by blast
qed

lemma with_wallet_steps:
  assumes "ready timely ttl env i st w" and block: "sends_once X T B env block"
    and run: "with_wallet X R B env block st = (res, st')"
  shows "\<exists>w'. fleet_reaches timely X (redis_lock R) (redis_unlock R) ttl (b_wallets B) w w' \<and> served X T B env st st' w w'"
proof -
  let ?S = "fleet_step timely X (redis_lock R) (redis_unlock R) ttl (b_wallets B)"
  let ?w = "w\<lparr>fl_pool := (fl_pool w)\<lparr>clock := acquire_at env\<rparr>\<rparr>"
  note rd = assms(1) [unfolded ready_def]
  have tick: "?S w ?w" by (rule fleet_tick [where until = "release_at env"]) (use rd in simp_all)
  obtain a r where acq: "acquire X (redis_lock R (acquire_at env)) (b_wallets B) (locks st) = (a, r)" by fastforce
  show ?thesis
  proof (cases a)
    case (Inl e)
    let ?b = "?w\<lparr>fl_pool := (fl_pool ?w)\<lparr>store := r\<rparr>\<rparr>"
    have "?S ?w ?b"
      by (rule fleet_step.pool, rule pool_step.busy [where i = i and e = e]) (use acq Inl rd in simp_all)
    moreover have "served X T B env st st' w ?b"
      using run acq Inl rd by (auto simp: with_wallet_def served_def carries_def)
    ultimately show ?thesis
      using tick by (intro exI [of _ ?b]) (auto intro: converse_rtranclp_into_rtranclp)
  next
    case (Inr v)
    let ?t = "?w\<lparr>fl_pool := (fl_pool ?w)\<lparr>store := r, owners := (owners (fl_pool ?w))(i \<mapsto> (v, clock (fl_pool ?w)))\<rparr>\<rparr>"
    obtain res1 st1 where b: "block v (st\<lparr>locks := r\<rparr>) = (res1, st1)" by fastforce
    then have "res1 \<noteq> Inl Panicked" using block unfolding sends_once_def by blast
    then have st': "st' = st1\<lparr>locks := release X (redis_unlock R (release_at env)) v (locks st1)\<rparr>"
      using run acq Inr b by (simp add: with_wallet_def)
    have take: "?S ?w ?t"
      by (rule fleet_step.pool, rule pool_step.take) (use acq Inr rd in \<open>auto split: if_splits\<close>)
    have "in_time timely ttl (release_at env) (fl_pool ?t)" using rd by (auto simp: in_time_def)
    from sends_once_steps [where w = ?t and i = i and until = "release_at env" and lock = "redis_lock R"
        and unlock = "redis_unlock R" and entries = "b_wallets B" and ttl = ttl and timely = timely, OF block b _ _ _ this] rd
    obtain w1 log bocs acts where send: "fleet_reaches timely X (redis_lock R) (redis_unlock R) ttl (b_wallets B) ?t w1"
        and ran: "ran (release_at env) ?t w1 log (query_ids st1)" and st1: "locks st1 = r" "posted st1 = posted st @ bocs"
        and car: "carries X T (b_gas_estimator B) (attempts env) v acts bocs log"
      by auto
    let ?w1 = "w1\<lparr>fl_pool := (fl_pool w1)\<lparr>clock := release_at env\<rparr>\<rparr>"
    let ?g = "?w1\<lparr>fl_pool := (fl_pool ?w1)\<lparr>store := release X (redis_unlock R (clock (fl_pool ?w1))) v (store (fl_pool ?w1)),
        owners := (owners (fl_pool ?w1))(i := None)\<rparr>\<rparr>"
    have tick1: "?S w1 ?w1"
      by (rule fleet_tick [where until = "release_at env"]) (use rd ran in \<open>auto simp: ran_def in_time_def\<close>)
    have give: "?S ?w1 ?g"
      by (rule fleet_step.pool, rule pool_step.give [where since = "acquire_at env"])
        (use rd ran in \<open>auto simp: ran_def split: if_splits\<close>)
    have "served X T B env st st' w ?g"
      using rd ran st1 car st' by (auto simp: served_def ran_def)
    moreover have "?S\<^sup>*\<^sup>* w ?g"
      using tick take send tick1 give by (meson converse_rtranclp_into_rtranclp rtranclp.rtrancl_into_rtrancl)
    ultimately show ?thesis by blast
  qed
qed

section \<open>The handlers\<close>

lemma send_and_report_sends:
  assumes "send_and_report X T ge env mid chain v [act] s = (r, s')"
  shows "r \<noteq> Inl Panicked \<and> (\<exists>res. send_to_chain X T ge env v [act] None s = (res, s'))"
  using assms send_and_report_run(2) [OF assms]
  by (auto simp: send_and_report_def split: prod.splits sum.splits exn.splits)

lemma prover_block_sends_once:
  "sends_once X T B env (\<lambda>v. send_and_report X T (b_gas_estimator B) (attempts env) mid chain v [act])"
  unfolding sends_once_def using send_and_report_sends by metis

lemma execute_block_sends_once: "sends_once X T B env (execute_block X T B env task dest bytes)"
  unfolding sends_once_def
proof (intro allI impI)
  fix v s r s'
  assume run: "execute_block X T B env task dest bytes v s = (r, s')"
  then have "s' = s \<or> (\<exists>act. send_and_report X T (b_gas_estimator B) (attempts env) (et_message_id task)
      (et_source_chain task) v [act] s = (r, s'))"
    by (auto simp: execute_block_def split: sum.splits)
  then show "r \<noteq> Inl Panicked \<and> (s' = s \<or>
      (\<exists>act res. send_to_chain X T (b_gas_estimator B) (attempts env) v [act] None s = (res, s')))"
    using execute_block_run [OF run] send_and_report_sends by metis
qed

lemma refund_block_sends_once: "sends_once X T B env (refund_block X T B env boc)"
  unfolding sends_once_def
proof (intro allI impI)
  fix v s r s'
  assume run: "refund_block X T B env boc v s = (r, s')"
  then have "s' = s \<or> (\<exists>act res. send_to_chain X T (b_gas_estimator B) (attempts env) v [act] None s = (res, s'))"
    by (auto simp: refund_block_def split: sum.splits prod.splits exn.splits)
  then show "r \<noteq> Inl Panicked \<and> (s' = s \<or>
      (\<exists>act res. send_to_chain X T (b_gas_estimator B) (attempts env) v [act] None s = (res, s')))"
    using refund_block_run [OF run] by blast
qed

text \<open>The tasks of the broadcaster, as one operation.\<close>

datatype broadcast_task = ProverMessage string | ExecuteMessage execute_task | RefundMessage refund_task

definition run_task ::
    "crates \<Rightarrow> ('c, 'p, 'b) tonlib \<Rightarrow> 'r redis \<Rightarrow> ton_broadcaster \<Rightarrow> broadcast_env \<Rightarrow> broadcast_task \<Rightarrow> 'r broadcast_state
      \<Rightarrow> 'r broadcast_state" where
  "run_task X T R B env task st =
     (case task of
        ProverMessage tx_blob \<Rightarrow> snd (broadcast_prover_message X T R B env tx_blob st)
      | ExecuteMessage t \<Rightarrow> snd (broadcast_execute_message X T R B env t st)
      | RefundMessage t \<Rightarrow> snd (broadcast_refund_message X T R B env t st))"

lemma run_task_with_wallet:
  fixes T :: "('c, 'p, 'b) tonlib" and st :: "'r broadcast_state"
  shows "run_task X T R B env task st = st
    \<or> (\<exists>block :: ton_wallet_high_load_v3 \<Rightarrow> 'r broadcast_state \<Rightarrow> (broadcaster_error exn + broadcast_result) \<times> 'r broadcast_state.
         sends_once X T B env block \<and> run_task X T R B env task st = snd (with_wallet X R B env block st))
    \<or> (\<exists>block :: ton_wallet_high_load_v3 \<Rightarrow> 'r broadcast_state \<Rightarrow> (broadcaster_error exn + string) \<times> 'r broadcast_state.
         sends_once X T B env block \<and> run_task X T R B env task st = snd (with_wallet X R B env block st))"
proof (cases task)
  case (ProverMessage tx_blob)
  then show ?thesis
    using prover_block_sends_once [of X T B env]
    by (auto simp: run_task_def broadcast_prover_message_def split: sum.splits)
next
  case (ExecuteMessage t)
  then show ?thesis
    using execute_block_sends_once [of X T B env t]
    by (auto simp: run_task_def broadcast_execute_message_def split: sum.splits)
next
  case (RefundMessage t)
  then show ?thesis
    using refund_block_sends_once [of X T B env]
    by (auto simp: run_task_def broadcast_refund_message_def split: sum.splits)
qed

lemma run_task_steps:
  assumes "ready timely ttl env i st w"
  shows "\<exists>w'. fleet_reaches timely X (redis_lock R) (redis_unlock R) ttl (b_wallets B) w w'
    \<and> served X T B env st (run_task X T R B env task st) w w'"
  using run_task_with_wallet [of X T R B env task st]
proof (elim disjE exE conjE)
  assume "run_task X T R B env task st = st"
  then show ?thesis using served_refl [OF assms] by (intro exI [of _ w]) simp
next
  fix block :: "ton_wallet_high_load_v3 \<Rightarrow> 'a broadcast_state \<Rightarrow> (broadcaster_error exn + broadcast_result) \<times> 'a broadcast_state"
  assume "sends_once X T B env block" "run_task X T R B env task st = snd (with_wallet X R B env block st)"
  then show ?thesis using with_wallet_steps [OF assms _ surjective_pairing] by metis
next
  fix block :: "ton_wallet_high_load_v3 \<Rightarrow> 'a broadcast_state \<Rightarrow> (broadcaster_error exn + string) \<times> 'a broadcast_state"
  assume "sends_once X T B env block" "run_task X T R B env task st = snd (with_wallet X R B env block st)"
  then show ?thesis using with_wallet_steps [OF assms _ surjective_pairing] by metis
qed



section \<open>Two clients on one wallet\<close>

lemma read_query_id_fresh:
  "live_row tbl a now = None \<Longrightarrow> read_query_id True now tbl a False = Inr hlq_zero"
  by (simp add: read_query_id_def get_query_id_live pick_query_id_fresh)

lemma save_query_id_fresh:
  "\<exists>tbl' row. save_query_id True now tbl a timeout hlq_zero = (Inr (), tbl') \<and> tbl' a = Some row
     \<and> row_expires_at row = now + session_seconds timeout * SECOND"
  by (auto simp: save_query_id_def upsert_query_id_def query_id_def hlq_zero_def session_seconds_def Let_def
      split: option.splits)

text \<open>
  Without exclusion the wrapper does not protect its ids: two clients on one wallet issue the
  same one when both read before either writes.
\<close>

lemma shared_wallet_collides:
  assumes own: "owners (fl_pool w) i = Some (v, since)" "owners (fl_pool w) j = Some (v, since')" "i \<noteq> j"
    and idle: "picked w i = None" "picked w j = None"
    and new: "live_row (fl_table w) (wallet_key X v) (clock (fl_pool w)) = None"
  shows "\<exists>w' e. fleet_reaches timely X lock unlock ttl entries w w'
    \<and> fl_issued w' = fl_issued w @ [(wallet_key X v, e, 0), (wallet_key X v, e, 0)]"
proof -
  let ?S = "fleet_step timely X lock unlock ttl entries" and ?k = "wallet_key X v" and ?now = "clock (fl_pool w)"
  let ?e = "?now + session_seconds (wallet_timeout v) * SECOND"
  let ?w1 = "w\<lparr>picked := (picked w)(i \<mapsto> hlq_zero)\<rparr>"
  let ?w2 = "?w1\<lparr>picked := (picked ?w1)(j \<mapsto> hlq_zero)\<rparr>"
  obtain t3 r3 where s3: "save_query_id True ?now (fl_table w) ?k (wallet_timeout v) hlq_zero = (Inr (), t3)"
      "t3 ?k = Some r3" "row_expires_at r3 = ?e"
    using save_query_id_fresh by blast
  obtain t4 r4 where s4: "save_query_id True ?now t3 ?k (wallet_timeout v) hlq_zero = (Inr (), t4)"
      "t4 ?k = Some r4" "row_expires_at r4 = ?e"
    using save_query_id_fresh by blast
  have z: "query_id hlq_zero = 0" by (simp add: query_id_def hlq_zero_def)
  let ?w3 = "?w2\<lparr>fl_table := t3, picked := (picked ?w2)(i := None),
    fl_issued := fl_issued ?w2 @ [(?k, row_expires_at r3, query_id hlq_zero)]\<rparr>"
  let ?w4 = "?w3\<lparr>fl_table := t4, picked := (picked ?w3)(j := None),
    fl_issued := fl_issued ?w3 @ [(?k, row_expires_at r4, query_id hlq_zero)]\<rparr>"
  have "?S w ?w1" by (rule fleet_step.read [OF own(1) idle(1) read_query_id_fresh [OF new]])
  moreover have "?S ?w1 ?w2"
    by (rule fleet_step.read [where v = v and ok = True and force = False]) (use own idle new in \<open>simp_all add: read_query_id_fresh\<close>)
  moreover have "?S ?w2 ?w3"
    by (rule fleet_step.save [where v = v and ok = True]) (use own s3 in simp_all)
  moreover have "?S ?w3 ?w4"
    by (rule fleet_step.save [where v = v and ok = True]) (use own s4 in simp_all)
  ultimately have "?S\<^sup>*\<^sup>* w ?w4" by (meson converse_rtranclp_into_rtranclp rtranclp.rtrancl_refl)
  then show ?thesis
    using s3 s4 z by (intro exI [of _ ?w4] exI [of _ ?e]) simp
qed

text \<open>Three steps of the pool in a row, nobody having an id in hand.\<close>

lemma fleet_pools:
  assumes "fl_pool w = p0" and "picked w = Map.empty"
    and "pool_step timely X lock unlock ttl entries p0 p1" and "pool_step timely X lock unlock ttl entries p1 p2"
    and "pool_step timely X lock unlock ttl entries p2 p3"
  shows "fleet_reaches timely X lock unlock ttl entries w (w\<lparr>fl_pool := p3\<rparr>)"
proof -
  let ?S = "fleet_step timely X lock unlock ttl entries"
  have "?S w (w\<lparr>fl_pool := p1\<rparr>)" by (rule fleet_step.pool) (use assms in simp_all)
  moreover have "?S (w\<lparr>fl_pool := p1\<rparr>) (w\<lparr>fl_pool := p1\<rparr>\<lparr>fl_pool := p2\<rparr>)"
    by (rule fleet_step.pool) (use assms in simp_all)
  moreover have "?S (w\<lparr>fl_pool := p2\<rparr>) (w\<lparr>fl_pool := p2\<rparr>\<lparr>fl_pool := p3\<rparr>)"
    by (rule fleet_step.pool) (use assms in simp_all)
  ultimately show ?thesis
    by simp
qed

lemma sorted_wrt_irrefl_distinct: "sorted_wrt P xs \<Longrightarrow> (\<And>x. \<not> P x x) \<Longrightarrow> distinct xs"
  by (induction xs) auto

text \<open>A run of one client that issues two ids, the second forced.\<close>

lemma sample_fleet_entries:
  "\<forall>(a, v) \<in> set sample_entries. wallet_address v = a"
  "\<forall>(a, v) \<in> set sample_entries. 0 \<le> session_seconds (wallet_timeout v)"
  by (simp_all add: sample_simps session_seconds_def TIMEOUT_BUFFER_MULTIPLIER_def)

lemma sample_fleet_run:
  "\<exists>w. fleet_reaches True sample_crates (redis_lock mem_redis) (redis_unlock mem_redis) (60 * SECOND) sample_entries
       (fleet_start 0 Map.empty Map.empty) w
     \<and> length (fl_issued w) = 2"
proof -
  let ?R = "fleet_reaches True sample_crates (redis_lock mem_redis) (redis_unlock mem_redis) (60 * SECOND) sample_entries"
  let ?w = "fleet_start 0 Map.empty Map.empty :: redis_mem fleet" and ?k = "sample_key 65" and ?v = "sample_wallet 65"
  define taken where "taken = ?w\<lparr>fl_pool := sample_pool_1\<rparr>"
  have key: "wallet_key sample_crates ?v = ?k" by (simp add: wallet_key_def sample_simps sample_key_def)
  have "fleet_step True sample_crates (redis_lock mem_redis) (redis_unlock mem_redis) (60 * SECOND) sample_entries ?w taken"
    unfolding taken_def by (rule fleet_step.pool) (use sample_step_1 in \<open>simp_all add: fleet_start_def sample_pool_def\<close>)
  then have taken: "?R ?w taken" by (rule r_into_rtranclp)
  have t: "owners (fl_pool taken) 0 = Some (?v, 0)" "picked taken 0 = None"
      "in_time True (60 * SECOND) 1 (fl_pool taken)" "clock (fl_pool taken) = 0" "fl_table taken = Map.empty"
    by (simp_all add: taken_def fleet_start_def sample_pool_1_def in_time_def SECOND_def)
  have timeout: "wallet_timeout ?v = 60" by (simp add: sample_wallet_def)
  obtain tbl q tbl2 where n1: "wrapper_next True True 0 Map.empty ?k 60 False = (Inr hlq_zero, tbl)"
      and n2: "wrapper_next True True 1 tbl ?k 60 True = (Inr q, tbl2)"
    by (simp add: wrapper_eval hlq_zero_def)
  from wrapper_next_steps [where lock = "redis_lock mem_redis" and unlock = "redis_unlock mem_redis"
      and entries = sample_entries, OF t(1-3), of 0 True True sample_crates False "Inr hlq_zero" tbl] n1
  obtain w1 log1 where w1: "?R taken w1" "ran 1 taken w1 log1 tbl" "length log1 = 1"
    by (auto simp: t(4,5) key timeout)
  have t1: "owners (fl_pool w1) 0 = Some (?v, 0)" "picked w1 0 = None" "in_time True (60 * SECOND) 1 (fl_pool w1)"
      "clock (fl_pool w1) \<le> 1" "fl_table w1 = tbl"
    using w1(2) t by (simp_all add: ran_def in_time_def)
  from wrapper_next_steps [where lock = "redis_lock mem_redis" and unlock = "redis_unlock mem_redis"
      and entries = sample_entries, OF t1(1-4) order_refl, of True True sample_crates True "Inr q" tbl2] n2
  obtain w2 log2 where w2: "?R w1 w2" "ran 1 w1 w2 log2 tbl2" "length log2 = 1"
    by (auto simp: t1(5) key timeout)
  have reach: "?R ?w w2" using taken w1(1) w2(1) by simp
  from reach w1(2,3) w2(2,3)
  show ?thesis by (intro exI [of _ w2]) (simp add: taken_def ran_def fleet_start_def)
qed

section \<open>Properties\<close>

text \<open>
  Claim C1: no query id is used twice. Several broadcasters share the lock store and the table
  of query ids; their reads and writes of ids interleave with each other, with acquiring and
  releasing wallets, with database errors and crashes. As long as every client gives its
  wallet back within the 60 seconds of the lock, the ids issued for a wallet come in strictly
  increasing order within a session, and a later session ends later: no id is issued twice. The
  timeouts of the wallets are such that the length of a session, computed in 32 bits, is not
  negative, as it is for every timeout that fits the field of 22 bits of a wallet's message.
\<close>

theorem query_ids_never_collide:
  assumes "redis_store R live" and "\<forall>(a, v) \<in> set entries. wallet_address v = a"
    and "\<forall>(a, v) \<in> set entries. 0 \<le> session_seconds (wallet_timeout v)" and "table_ok tbl"
    and "fleet_reaches True X (redis_lock R) (redis_unlock R) (60 * SECOND) entries (fleet_start now r tbl) w"
  shows "distinct (fl_issued w) \<and> sorted_wrt (\<lambda>x y. fst x = fst y \<longrightarrow> id_before (snd x) (snd y)) (fl_issued w)"
proof -
  have "fleet_inv X (redis_held live) LOCK_TTL entries w"
    using lock_manager.fleet_reaches_inv [OF redis_store.redis_is_lock_manager [OF assms(1)] _ fleet_start_inv [OF assms(4)]
        assms(2) LOCK_TTL_pos assms(3)] assms(5) by (simp add: LOCK_TTL_def)
  then have s: "sorted_wrt (\<lambda>x y. fst x = fst y \<longrightarrow> id_before (snd x) (snd y)) (fl_issued w)"
    by (simp add: fleet_inv_def issued_ok_def)
  moreover have "distinct (fl_issued w)"
    by (rule sorted_wrt_irrefl_distinct [OF s]) (simp add: id_before_irrefl)
  ultimately show ?thesis by blast
qed

lemma query_ids_never_collide_witness:
  "\<exists>w. fleet_reaches True sample_crates (redis_lock mem_redis) (redis_unlock mem_redis) (60 * SECOND) sample_entries
       (fleet_start 0 Map.empty Map.empty) w
     \<and> length (fl_issued w) = 2 \<and> distinct (fl_issued w)"
proof -
  obtain w where w: "fleet_reaches True sample_crates (redis_lock mem_redis) (redis_unlock mem_redis) (60 * SECOND) sample_entries
       (fleet_start 0 Map.empty Map.empty) w" "length (fl_issued w) = 2"
    using sample_fleet_run by blast
  have "table_ok Map.empty" by (simp add: table_ok_def)
  from query_ids_never_collide [OF mem.redis_store_axioms sample_fleet_entries this w(1)] w show ?thesis by blast
qed

text \<open>
  Claim C5: a broadcast of any task is a run of the system. When a client runs a handler
  from start to end (acquire, all attempts, release, on every path), the system can make
  the same run in its small steps: the lock store and the table end the same, the wallet
  is given back, and every posted message is the wallet's message under an id that the run
  issued, in the order of the attempts.
\<close>

theorem broadcast_refines_steps:
  assumes "ready timely (60 * SECOND) env i st w"
  shows "\<exists>w' v acts bocs log. fleet_reaches timely X (redis_lock R) (redis_unlock R) (60 * SECOND) (b_wallets B) w w'
    \<and> locks (run_task X T R B env task st) = store (fl_pool w')
    \<and> query_ids (run_task X T R B env task st) = fl_table w'
    \<and> owners (fl_pool w') = owners (fl_pool w) \<and> picked w' = picked w
    \<and> posted (run_task X T R B env task st) = posted st @ bocs \<and> fl_issued w' = fl_issued w @ log
    \<and> carries X T (b_gas_estimator B) (attempts env) v acts bocs log"
  using run_task_steps [OF assms, of X R B T task] unfolding served_def by blast

lemma broadcast_refines_steps_witness:
  "\<exists>w'. fleet_reaches True sample_crates (redis_lock mem_redis) (redis_unlock mem_redis) (60 * SECOND) sample_entries
       (fleet_start 0 Map.empty Map.empty) w'
     \<and> owners (fl_pool w') = Map.empty
     \<and> store (fl_pool w') = locks (run_task sample_crates sample_hex_tonlib mem_redis sample_broadcaster sample_outage
         (RefundMessage sample_refund_task) sample_broadcast_state)"
proof -
  have "ready True (60 * SECOND) sample_outage 0 sample_broadcast_state (fleet_start 0 Map.empty Map.empty)"
    by (simp add: ready_def broadcast_samples fleet_start_def on_schedule_def in_time_def SECOND_def)
  from broadcast_refines_steps [OF this, of sample_crates mem_redis sample_broadcaster sample_hex_tonlib
      "RefundMessage sample_refund_task"]
  obtain w' where w': "fleet_reaches True sample_crates (redis_lock mem_redis) (redis_unlock mem_redis) (60 * SECOND)
        (b_wallets sample_broadcaster) (fleet_start 0 Map.empty Map.empty) w'"
      "locks (run_task sample_crates sample_hex_tonlib mem_redis sample_broadcaster sample_outage
         (RefundMessage sample_refund_task) sample_broadcast_state) = store (fl_pool w')"
      "owners (fl_pool w') = owners (fl_pool (fleet_start 0 Map.empty Map.empty :: redis_mem fleet))"
    by blast
  then show ?thesis
    by (intro exI [of _ w']) (simp add: sample_broadcaster_def fleet_start_def)
qed

text \<open>
  Claim C36: beyond the 60 seconds ids collide. A client that is still busy when its lock ends
  and the client that got the wallet after it read the table one after the other, and both
  issue the same id of the same session.
\<close>

theorem lock_expiry_duplicates_id:
  "\<exists>w e. fleet_reaches False sample_crates (redis_lock mem_redis) (redis_unlock mem_redis) (60 * SECOND) sample_entries
       (fleet_start 0 Map.empty Map.empty) w
     \<and> fl_issued w = [(sample_key 65, e, 0), (sample_key 65, e, 0)]"
proof -
  let ?R = "fleet_reaches False sample_crates (redis_lock mem_redis) (redis_unlock mem_redis) (60 * SECOND) sample_entries"
  let ?w = "fleet_start 0 Map.empty Map.empty :: redis_mem fleet"
  let ?shared = "?w\<lparr>fl_pool := sample_pool_shared\<rparr>"
  have "?R ?w ?shared"
    using fleet_pools [of ?w, OF _ _ sample_step_1 sample_step_late sample_step_shared]
    by (simp add: fleet_start_def sample_pool_def)
  moreover have "\<exists>w' e. ?R ?shared w' \<and> fl_issued w' = fl_issued ?shared @
      [(wallet_key sample_crates (sample_wallet 65), e, 0), (wallet_key sample_crates (sample_wallet 65), e, 0)]"
    by (rule shared_wallet_collides [where i = 0 and j = 1 and since = 0 and since' = "60 * SECOND"])
      (simp_all add: sample_pool_shared_def fleet_start_def live_row_def)
  moreover have "wallet_key sample_crates (sample_wallet 65) = sample_key 65"
    by (simp add: wallet_key_def sample_simps sample_key_def)
  ultimately show ?thesis
    by (auto simp: fleet_start_def intro: rtranclp_trans)
qed

end
