(* ===== verification/Programs.thy ===== *)
theory Programs
  imports Includer Ingestor Feed_System Broadcast_System
begin

text \<open>
  The programs under \<open>src/src/bin\<close>: how the ingestor, the subscriber, the includer and the
  account checker build their parts from the configuration, and what they do together. Reading
  the configuration file, logging, heartbeats and signals are left out; building the HTTP client
  takes its outcome from an argument, and a failure that the code meets with \<open>expect\<close>
  panics. Shown: started from one configuration the programs watch and use the same accounts; a
  queued trace is ingested into events of the configured contracts, once; and when the account
  check returns.
\<close>

section \<open>Shared parts\<close>

text \<open>\<open>TONRpcClient::new\<close>; \<open>build\<close> is the outcome of building the \<open>reqwest\<close> client.\<close>

definition rpc_client_new :: "string + unit \<Rightarrow> string \<Rightarrow> string \<Rightarrow> client_error + ton_rpc_client" where
  "rpc_client_new build url api_key =
     and_then (map_err ConnectionFailed build) (\<lambda>_. Inr \<lparr>rpc_url = url, rpc_api_key = api_key\<rparr>)"

text \<open>
  The errors a program returns: of a library, as its text, or of the repository's parts. A client
  the program cannot do without: \<open>expect\<close> panics.
\<close>

datatype program_error = LibraryError string | SubscriberFailed subscriber_error

definition expect_client :: "string + unit \<Rightarrow> ton_config \<Rightarrow> program_error exn + ton_rpc_client" where
  "expect_client build config = map_err (\<lambda>_. Panicked) (rpc_client_new build (ton_rpc config) (ton_api_key config))"

text \<open>The loop that parses the addresses of the wallets.\<close>

fun wallet_addresses :: "crates \<Rightarrow> wallet_config list \<Rightarrow> ton_address list \<Rightarrow> string + ton_address list" where
  "wallet_addresses X [] our_addresses = Inr our_addresses"
| "wallet_addresses X (wallet # wallets) our_addresses =
     and_then (address_from_str X (cfg_address wallet)) (\<lambda>a. wallet_addresses X wallets (our_addresses @ [a]))"

section \<open>Ingestor\<close>

definition trace_parser_new ::
    "ton_address \<Rightarrow> ton_address \<Rightarrow> ton_address \<Rightarrow> ton_address list \<Rightarrow> string \<Rightarrow> trace_parser" where
  "trace_parser_new gateway gas_service its our_addresses chain =
     \<lparr>tp_gateway_address = gateway, tp_gas_service_address = gas_service, tp_its_address = its,
      tp_our_addresses = our_addresses, tp_chain_name = chain\<rparr>"

definition ingestor_parser :: "crates \<Rightarrow> ton_config \<Rightarrow> string + trace_parser" where
  "ingestor_parser X config =
     and_then (wallet_addresses X (cfg_wallets config) []) (\<lambda>our_addresses.
     and_then (address_from_str X (ton_gateway config)) (\<lambda>gateway.
     and_then (address_from_str X (ton_gas_service config)) (\<lambda>gas_service.
     and_then (address_from_str X (ton_its config)) (\<lambda>its.
     Inr (trace_parser_new gateway gas_service its (our_addresses @ [gateway, gas_service]) (cfg_chain_name config))))))"

section \<open>Subscriber\<close>

record subscriber_program =
  sp_client :: ton_rpc_client
  sp_pollers :: "(ton_address \<times> ton_subscriber) list"
  sp_retry_account :: ton_address

definition subscriber_accounts :: "crates \<Rightarrow> ton_config \<Rightarrow> string + ton_address list" where
  "subscriber_accounts X config =
     and_then (address_from_base64_url X (ton_gateway config)) (\<lambda>gateway_account.
     and_then (address_from_base64_url X (ton_gas_service config)) (\<lambda>gas_service_account.
     and_then (address_from_base64_url X (ton_its config)) (\<lambda>its_account.
     Inr [gateway_account, gas_service_account, its_account])))"

text \<open>One subscriber per account, each with its own cursor, named by its address.\<close>

fun start_pollers ::
    "crates \<Rightarrow> 'd heights \<Rightarrow> 'd \<Rightarrow> ton_config \<Rightarrow> ton_address list
      \<Rightarrow> program_error + (ton_address \<times> ton_subscriber) list" where
  "start_pollers X D d config [] = Inr []"
| "start_pollers X D d config (acct # accts) =
     and_then (map_err SubscriberFailed
         (subscriber_new D d (address_to_string X acct) (cfg_chain_name config))) (\<lambda>ton_sub.
     and_then (start_pollers X D d config accts) (\<lambda>subs. Inr ((acct, ton_sub) # subs)))"

definition subscriber_main ::
    "crates \<Rightarrow> 'd heights \<Rightarrow> 'd \<Rightarrow> string + unit \<Rightarrow> ton_config \<Rightarrow> program_error exn + subscriber_program" where
  "subscriber_main X D d build config =
     and_then (map_err (\<lambda>e. Err (LibraryError e)) (subscriber_accounts X config)) (\<lambda>accts.
     and_then (expect_client build config) (\<lambda>client.
     and_then (map_err Err (start_pollers X D d config accts)) (\<lambda>subs.
     Inr \<lparr>sp_client = client, sp_pollers = subs, sp_retry_account = hd accts\<rparr>)))"

section \<open>Includer\<close>

text \<open>\<open>expect\<close> on the includer.\<close>

definition includer_main ::
    "crates \<Rightarrow> (wallet_map \<Rightarrow> (ton_address \<times> ton_wallet_high_load_v3) list) \<Rightarrow> string + unit \<Rightarrow> ton_config
      \<Rightarrow> program_error exn + ton_broadcaster \<times> ton_rpc_client" where
  "includer_main X entries build config = map_err (\<lambda>_. Panicked) (includer_new X entries build config)"

section \<open>Account checker\<close>

definition MIN_BALANCE :: u64 where
  "MIN_BALANCE = 10000000000"

definition checked_addresses :: "crates \<Rightarrow> ton_config \<Rightarrow> string + ton_address list" where
  "checked_addresses X config =
     and_then (wallet_addresses X (cfg_wallets config) []) (\<lambda>our_addresses.
     and_then (address_from_str X (ton_gateway config)) (\<lambda>gateway.
     and_then (address_from_str X (ton_gas_service config)) (\<lambda>gas_service.
     and_then (address_from_str X (ton_its config)) (\<lambda>its.
     Inr (our_addresses @ [gateway, gas_service, its])))))"

text \<open>
  The loop of \<open>check_accounts\<close>: the client answers round after round, the log collects the
  verdicts. With \<open>forever\<close> it has no end, so it is a partial function.
\<close>

partial_function (option) check_accounts ::
    "(nat \<Rightarrow> ton_address list \<Rightarrow> client_error + account_state list) \<Rightarrow> ton_address list \<Rightarrow> u64 \<Rightarrow> bool
      \<Rightarrow> (client_error + (ton_address \<times> account_check_status) list) list
      \<Rightarrow> (client_error + (ton_address \<times> account_check_status) list) list option" where
  "check_accounts client addresses min_balance forever log =
     (if \<not> forever then Some (log @ [check_accounts_round (client 0) addresses min_balance])
      else check_accounts (\<lambda>n. client (Suc n)) addresses min_balance forever
             (log @ [check_accounts_round (client 0) addresses min_balance]))"

definition account_checker_main ::
    "crates \<Rightarrow> web \<Rightarrow> string + unit \<Rightarrow> ton_config
      \<Rightarrow> program_error exn + (client_error + (ton_address \<times> account_check_status) list) list option" where
  "account_checker_main X W build config =
     and_then (map_err (\<lambda>e. Err (LibraryError e)) (checked_addresses X config)) (\<lambda>our_addresses.
     and_then (expect_client build config) (\<lambda>client.
     Inr (check_accounts (\<lambda>_. get_account_states X W client) our_addresses MIN_BALANCE True [])))"

section \<open>Lemmas\<close>

lemma check_accounts_once:
  "check_accounts client addresses m False log = Some (log @ [check_accounts_round (client 0) addresses m])"
  by (simp add: check_accounts.simps)

lemma check_accounts_forever: "check_accounts client addresses m True log = None"
proof -
  have "\<not> forever" if "check_accounts client addresses m forever log = Some r" for client forever log r
    by (rule check_accounts.raw_induct [where P = "\<lambda>_ _ _ forever _ _. \<not> forever", OF _ that]) (fastforce split: if_splits)
  then show ?thesis by (metis option.exhaust)
qed

lemma wallet_addresses_acc:
  "wallet_addresses X cs acc = map_ok ((@) acc) (try_map (\<lambda>c. address_from_str X (cfg_address c)) cs)"
proof (induction cs arbitrary: acc)
  case Nil
  then show ?case by simp
next
  case (Cons c cs)
  then show ?case
    by (cases "address_from_str X (cfg_address c)"; cases "try_map (\<lambda>c. address_from_str X (cfg_address c)) cs") simp_all
qed

lemma start_pollers_accounts:
  "start_pollers X D d config accts = Inr subs \<Longrightarrow>
     map fst subs = accts \<and> (\<forall>(a, sub) \<in> set subs. context_name sub = address_to_string X a)"
  by (induction accts arbitrary: subs) (auto simp: and_then_eq_Inr_iff map_err_eq_Inr_iff subscriber_new_def)

text \<open>The wallets of the includer are among the addresses of the configuration.\<close>

lemma includer_wallets_ours:
  assumes new: "wallet_manager_new X cs = Inr wallets" and it: "iterates entries wallets"
    and law: "\<forall>s a. address_from_base64_url X s = Inr a \<longrightarrow> address_from_str X s = Inr a"
    and ours: "wallet_addresses X cs [] = Inr ours"
  shows "fst ` set entries \<subseteq> set ours"
proof -
  have "fst ` set entries = dom wallets"
    using it unfolding iterates_def by (metis dom_map_of_conv_image_fst)
  also have "\<dots> = {a. \<exists>c \<in> set cs. \<exists>w. load_wallet X c = Inr w \<and> wallet_address w = a}"
    using load_wallets_dom [of X cs Map.empty wallets] new by (simp add: wallet_manager_new_def)
  also have "\<dots> \<subseteq> {a. \<exists>c \<in> set cs. address_from_str X (cfg_address c) = Inr a}"
    using law by (force simp: load_wallet_def and_then_eq_Inr_iff map_err_eq_Inr_iff)
  also have "\<dots> \<subseteq> set ours"
    using ours by (fastforce simp: wallet_addresses_acc map_ok_def try_map_eq_Inr_iff list_all2_conv_all_nth in_set_conv_nth
        split: sum.splits)
  finally show ?thesis .
qed

section \<open>Properties\<close>

text \<open>
  Claim C20: The programs agree on the accounts. Addresses are read with \<open>from_base64_url\<close> in
  one place and with \<open>from_str\<close> in another; since \<open>from_str\<close> accepts whatever
  \<open>from_base64_url\<close> accepts, programs started from one configuration poll, parse and send
  to the same contracts: the subscriber polls the gateway, the gas service and the token
  service of the ingestor's parser, each under a cursor of its own address; the includer sends
  to the parser's gateway and gas service; all of its wallets count as ours in the ingestor's
  gas accounting; and the account checker checks these and the token service.
\<close>

theorem programs_agree:
  assumes law: "\<forall>s a. address_from_base64_url X s = Inr a \<longrightarrow> address_from_str X s = Inr a"
    and ing: "ingestor_parser X config = Inr E" and sub: "subscriber_main X D d build config = Inr S"
    and inc: "includer_main X entries build config = Inr (B, cl)" and chk: "checked_addresses X config = Inr checked"
    and order: "\<forall>m. wallet_manager_new X (cfg_wallets config) = Inr m \<longrightarrow> iterates (entries m) m"
  shows "map fst (sp_pollers S) = [tp_gateway_address E, tp_gas_service_address E, tp_its_address E]
    \<and> (\<forall>(a, s) \<in> set (sp_pollers S). context_name s = address_to_string X a)
    \<and> sp_retry_account S = tp_gateway_address E \<and> sp_client S = cl
    \<and> b_gateway_address B = tp_gateway_address E \<and> b_gas_service_address B = tp_gas_service_address E
    \<and> fst ` set (b_wallets B) \<subseteq> set (tp_our_addresses E)
    \<and> set checked = insert (tp_its_address E) (set (tp_our_addresses E))"
proof -
  obtain ours g s i where E: "wallet_addresses X (cfg_wallets config) [] = Inr ours" "address_from_str X (ton_gateway config) = Inr g"
      "address_from_str X (ton_gas_service config) = Inr s" "address_from_str X (ton_its config) = Inr i"
      "E = trace_parser_new g s i (ours @ [g, s]) (cfg_chain_name config)"
    using ing by (auto simp: ingestor_parser_def and_then_eq_Inr_iff)
  obtain accts where acc: "subscriber_accounts X config = Inr accts"
      and start: "start_pollers X D d config accts = Inr (sp_pollers S)"
      and S: "sp_retry_account S = hd accts" "sp_client S = \<lparr>rpc_url = ton_rpc config, rpc_api_key = ton_api_key config\<rparr>"
    using sub by (auto simp: subscriber_main_def expect_client_def rpc_client_new_def and_then_eq_Inr_iff map_err_eq_Inr_iff)
  from acc have accts: "accts = [g, s, i]"
    using law E(2-4) by (auto simp: subscriber_accounts_def and_then_eq_Inr_iff)
  have pollers: "map fst (sp_pollers S) = [g, s, i]" "\<forall>(a, s) \<in> set (sp_pollers S). context_name s = address_to_string X a"
    using start_pollers_accounts [OF start] accts by simp_all
  obtain wallets where B: "wallet_manager_new X (cfg_wallets config) = Inr wallets" "b_wallets B = entries wallets"
      "address_from_base64_url X (ton_gateway config) = Inr (b_gateway_address B)"
      "address_from_base64_url X (ton_gas_service config) = Inr (b_gas_service_address B)"
      "cl = \<lparr>rpc_url = ton_rpc config, rpc_api_key = ton_api_key config\<rparr>"
    using inc by (auto simp: includer_main_def includer_new_def and_then_eq_Inr_iff map_err_eq_Inr_iff)
  have "b_gateway_address B = g" "b_gas_service_address B = s"
    using law B(3,4) E(2,3) by (metis sum.inject(2))+
  moreover have "fst ` set (b_wallets B) \<subseteq> set ours"
    using includer_wallets_ours [OF B(1) _ law E(1)] order B(1,2) by simp
  moreover have "set checked = insert i (set (ours @ [g, s]))"
    using chk E by (auto simp: checked_addresses_def)
  ultimately show ?thesis
    using pollers S accts E(5) B(5) by (auto simp: trace_parser_new_def)
qed

definition sample_config :: ton_config where
  "sample_config =
     \<lparr>cfg_chain_name = ''ton'',
      cfg_wallets = [\<lparr>public_key = ''k'', secret_key = ''s'', cfg_subwallet_id = 1, cfg_timeout = 60, cfg_address = ''A''\<rparr>],
      ton_gateway = ''G'', ton_gas_service = ''S'', ton_its = ''I'', ton_rpc = ''http://ton/'', ton_api_key = ''key'',
      cfg_gas_estimates = sample_gas_estimates\<rparr>"

lemma programs_agree_witness:
  "\<exists>E S. ingestor_parser sample_crates sample_config = Inr E
     \<and> subscriber_main sample_crates mem_heights None (Inr ()) sample_config = Inr S
     \<and> map fst (sp_pollers S) = [tp_gateway_address E, tp_gas_service_address E, tp_its_address E]
     \<and> tp_gateway_address E = TonAddress 0 (as_bytes ''G'')"
proof -
  let ?entries = "\<lambda>m. [(TonAddress 0 (as_bytes ''A''), the (m (TonAddress 0 (as_bytes ''A''))))]"
  have law: "\<forall>s a. address_from_base64_url sample_crates s = Inr a \<longrightarrow> address_from_str sample_crates s = Inr a"
    by (simp add: sample_crates_def)
  obtain E where E: "ingestor_parser sample_crates sample_config = Inr E" "tp_gateway_address E = TonAddress 0 (as_bytes ''G'')"
    by (simp add: ingestor_parser_def sample_config_def trace_parser_new_def)
  obtain S where S: "subscriber_main sample_crates mem_heights None (Inr ()) sample_config = Inr S"
    by (simp add: subscriber_main_def subscriber_accounts_def expect_client_def rpc_client_new_def sample_config_def
        subscriber_new_def mem_heights_def sample_crates_def)
  obtain B cl where I: "includer_main sample_crates ?entries (Inr ()) sample_config = Inr (B, cl)"
    by (simp add: includer_main_def includer_new_def wallet_manager_new_def load_wallet_def sample_config_def sample_crates_def)
  obtain checked where C: "checked_addresses sample_crates sample_config = Inr checked"
    by (simp add: checked_addresses_def sample_config_def)
  have O: "\<forall>m. wallet_manager_new sample_crates (cfg_wallets sample_config) = Inr m \<longrightarrow> iterates (?entries m) m"
    by (auto simp: wallet_manager_new_def load_wallet_def sample_config_def sample_crates_def iterates_def)
  have "map fst (sp_pollers S) = [tp_gateway_address E, tp_gas_service_address E, tp_its_address E]"
    using programs_agree [OF law E(1) S I C O] by (rule conjunct1)
  with E S show ?thesis by (intro exI [of _ E] exI [of _ S]) simp
qed

lemma filter_key_single:
  "distinct (map f xs) \<Longrightarrow> x \<in> set xs \<Longrightarrow> filter (\<lambda>y. f y = f x) xs = [x]"
  by (induction xs) (auto simp: filter_empty_conv image_iff)

text \<open>
  Claim C3: From the chain to recorded events. A trace in the queue, put there by any
  interleaving of the pollers in which each trace is stored while its answer agrees with the
  chain, is handled by the ingestor: it is in the queue only once; on success every event
  reports a transaction of the trace on the right contract (and a failed execution a trace of
  one of the two shapes that the parser takes for one: a transaction on the gateway that runs out
  of gas, or five transactions that end in a nullification without funds), and the summaries of
  the events are in the trace's row, in order, with no other row's events changed; on failure
  nothing changes; and the system goes on from the new table as a reachable state, in which
  the trace is still in the queue only once.
\<close>

theorem queued_trace_ingested:
  assumes reach: "feed_reaches True jsonb H (feed_start subs d) w" and queued: "t \<in> set (feed_queue w)"
    and codec: "make_queue_item to_string t = Inr item" "from_str item = Inr t"
    and run: "handle_transaction from_str (parse_trace X T D E ts) summary (update_events c) item (feed_table w) = (res, tbl')"
  shows "feed_reaches True jsonb H (feed_start subs d) (w\<lparr>feed_table := tbl'\<rparr>)
    \<and> filter (\<lambda>u. trace_id u = trace_id t) (feed_queue w) = [t]
    \<and> (\<forall>evs. res = Inr evs \<longrightarrow> (\<forall>e \<in> set evs. authentic E (transactions t) e)
         \<and> (evs \<noteq> [] \<longrightarrow> row_events tbl' (trace_id t) = Some (map summary evs))
         \<and> (\<forall>j. j \<noteq> trace_id t \<longrightarrow> row_events tbl' j = row_events (feed_table w) j))
    \<and> (\<forall>e. res = Inl e \<longrightarrow> tbl' = feed_table w)"
proof -
  have ok: "feed_ok jsonb (feed_table w) (finished w) (hand w) (feed_queue w) (lossy w)"
    using feed_inv_reaches [OF reach] unfolding feed_inv_def .
  then have stored: "row_stored jsonb (feed_table w) (ton_trace_from 0 t)"
    using feed_ok_known [OF ok, of t] queued by (simp add: known_def)
  note rec = handled_trace_recorded [where to_str = "\<lambda>_. item" and t = t and from_str = from_str, OF codec(2) stored run]
  have "w\<lparr>feed_table := tbl'\<rparr> = w \<or> feed_step True jsonb H w (w\<lparr>feed_table := tbl'\<rparr>)"
    using run codec(2) feed_step.ingest [of c "trace_id t" _ w _ tbl' True jsonb H]
    by (auto simp: handle_transaction_def Let_def split: sum.splits exn.splits if_splits prod.splits)
  then have "feed_reaches True jsonb H (feed_start subs d) (w\<lparr>feed_table := tbl'\<rparr>)"
    using reach by (metis rtranclp.rtrancl_into_rtrancl)
  moreover have "filter (\<lambda>u. trace_id u = trace_id t) (feed_queue w) = [t]"
    using feed_ok_queue [OF ok] queued by (rule filter_key_single)
  ultimately show ?thesis
    using rec parse_trace_events_authentic [of X T D E ts t] by blast
qed

lemma queued_trace_ingested_witness:
  "\<exists>w evs tbl'. feed_reaches True (\<lambda>x. x) mem_heights (feed_start (\<lambda>_. sample_subscriber) None) w
     \<and> handle_transaction (\<lambda>_. Inr (sample_trace [sample_call_tx])) (parse_trace sample_crates sample_tonlib sample_prices sample_env [])
         sample_summary (update_events (answered_at 9)) [] (feed_table w) = (Inr evs, tbl')
     \<and> length evs = 1 \<and> row_events tbl' (trace_id (sample_trace [sample_call_tx])) = Some (map sample_summary evs)"
proof -
  let ?t = "sample_trace [sample_call_tx]" and ?start = "feed_start (\<lambda>_. sample_subscriber) None :: i64 option feed"
  let ?parse = "parse_trace sample_crates sample_tonlib sample_prices sample_env []"
  let ?w1 = "?start\<lparr>finished := [trace_id ?t \<mapsto> ?t]\<rparr>"
  have "feed_step True (\<lambda>x. x) mem_heights ?start (?start\<lparr>finished := (finished ?start)(trace_id ?t \<mapsto> ?t)\<rparr>)"
    by (rule feed_step.finish) (simp_all add: feed_start_def)
  then have r1: "feed_reaches True (\<lambda>x. x) mem_heights ?start ?w1"
    by (simp add: feed_start_def)
  have "\<exists>w. feed_reaches True (\<lambda>x. x) mem_heights ?w1 w \<and> ?t \<in> set (feed_queue w)"
    by (rule trace_deliverable [OF r1]) (simp_all add: feed_start_def)
  then obtain w where w: "feed_reaches True (\<lambda>x. x) mem_heights ?start w" "?t \<in> set (feed_queue w)"
    using r1 by (blast intro: rtranclp_trans)
  obtain e where e: "?parse ?t = Inr [e]"
    using sample_parse_trace [of "[]"] by blast
  obtain res tbl' where run: "handle_transaction (\<lambda>_. Inr ?t) ?parse sample_summary (update_events (answered_at 9)) []
      (feed_table w) = (res, tbl')" by fastforce
  then have res: "res = Inr [e]"
    using e by (auto simp: handle_transaction_def update_events_def split: option.splits)
  have "row_events tbl' (trace_id ?t) = Some (map sample_summary [e])"
    using queued_trace_ingested [where to_string = "\<lambda>_. Inr []", OF w _ refl run] res by (simp add: make_queue_item_def)
  with w(1) run res show ?thesis by fastforce
qed

text \<open>
  The account check returns exactly if it is not asked to run forever, and then after
  one round, with a verdict for every account the indexer reported, in order; the verdict is
  \<open>Valid\<close> exactly for an active account whose balance is a number of at least the minimum.
  The program asks it to run forever, so only a signal ends it.
\<close>

theorem account_check_returns:
  "check_accounts client addresses m forever [] =
     (if forever then None
      else Some [map_ok (map (\<lambda>acc. (state_address acc, check_account_status acc m))) (client 0 addresses)])
   \<and> (check_account_status acc m = Valid \<longleftrightarrow>
        status acc = ''active'' \<and> (\<exists>b. parse_u64 (balance acc) = Some b \<and> m \<le> b))
   \<and> account_checker_main X W build config =
       and_then (map_err (\<lambda>e. Err (LibraryError e)) (checked_addresses X config)) (\<lambda>_. and_then (expect_client build config) (\<lambda>_. Inr None))"
  by (simp add: check_accounts_once check_accounts_forever check_account_status_valid check_accounts_round_def
      account_checker_main_def)

end
