(* ===== verification/Lifecycle.thy ===== *)
theory Lifecycle
  imports Programs "HOL-Library.Multiset"
begin

text \<open>
  The \<open>main\<close> functions under \<open>src/src/bin\<close> from start to exit: every connection that can
  fail, the queues by name, the tasks that are started, the \<open>select!\<close> that waits for a signal
  or for the service to stop, and the shutdown. A \<open>main\<close> is the list of its visible effects
  with its result, so that an early return shows what was already started. The outcomes of the
  libraries are a parameter. Shown: who opens and closes which queue, that pollers are stopped,
  and what follows for the includer when a join handle panics on being awaited again.
\<close>

section \<open>Effects and results\<close>

text \<open>The kinds of tasks the distributor names, and what a program does to the outside.\<close>

datatype task_kind = RefundKind | ExecuteKind | GatewayTxKind

datatype run_effect =
    OpenQueue string
  | Heartbeat string
  | SupportTasks "task_kind list"
  | SpawnPoller ton_address ton_subscriber
  | SpawnRetry ton_address
  | SpawnIncluder ton_broadcaster
  | RunIngestor trace_parser
  | CancelToken
  | AbortTask
  | CloseQueue string
  | FlushLogs

type_synonym 'a prog = "run_effect list \<times> (program_error exn + 'a)"

definition emit :: "run_effect \<Rightarrow> unit prog" where
  "emit e = ([e], Inr ())"

definition attempt :: "string + 'a \<Rightarrow> 'a prog" where
  "attempt r = ([], map_err (\<lambda>e. Err (LibraryError e)) r)"

definition prog_then :: "'a prog \<Rightarrow> ('a \<Rightarrow> 'b prog) \<Rightarrow> 'b prog" where
  "prog_then p f =
     (case p of (es, Inl e) \<Rightarrow> (es, Inl e) | (es, Inr a) \<Rightarrow> (case f a of (es', r) \<Rightarrow> (es @ es', r)))"

text \<open>
  What the libraries answer to one program. \<open>await_task\<close> is the \<open>await\<close> of a task's handle, whose
  result the code discards; its argument says whether the handle was polled to its end before.
\<close>

record platform =
  network_set :: bool
  config_file :: "string + ton_config"
  postgres_db :: "string + unit"
  pg_pool :: "string + unit"
  gmp_api :: "string + unit"
  redis_client :: "string + unit"
  redis_conn :: "string + unit"
  sigint :: "string + unit"
  sigterm :: "string + unit"
  http_client :: "string + unit"
  service_result :: "string + unit"
  await_task :: "bool \<Rightarrow> program_error exn + unit"
  otel_flush :: bool

text \<open>The branch of \<open>select!\<close> that is taken.\<close>

datatype wakeup = SigInt | SigTerm | Stopped

section \<open>Shared steps\<close>

definition load_config :: "platform \<Rightarrow> ton_config prog" where
  "load_config P = (if network_set P then attempt (config_file P) else ([], Inl Panicked))"

definition force_flush :: "platform \<Rightarrow> unit prog" where
  "force_flush P = (if otel_flush P then emit FlushLogs else ([], Inl Panicked))"

definition signals :: "platform \<Rightarrow> unit prog" where
  "signals P = prog_then (attempt (sigint P)) (\<lambda>_. attempt (sigterm P))"

definition redis :: "platform \<Rightarrow> unit prog" where
  "redis P = prog_then (attempt (redis_client P)) (\<lambda>_. attempt (redis_conn P))"

section \<open>The programs\<close>

definition distributor_run :: "platform \<Rightarrow> wakeup \<Rightarrow> unit prog" where
  "distributor_run P w =
     prog_then (load_config P) (\<lambda>config.
     prog_then (emit (OpenQueue ''includer_tasks'')) (\<lambda>_.
     prog_then (emit (OpenQueue ''ingestor_tasks'')) (\<lambda>_.
     prog_then (attempt (postgres_db P)) (\<lambda>_.
     prog_then (attempt (pg_pool P)) (\<lambda>_.
     prog_then (attempt (gmp_api P)) (\<lambda>_.
     prog_then (redis P) (\<lambda>_.
     prog_then (emit (SupportTasks [RefundKind, ExecuteKind, GatewayTxKind])) (\<lambda>_.
     prog_then (emit (Heartbeat ''heartbeat:distributor'')) (\<lambda>_.
     prog_then (signals P) (\<lambda>_.
     prog_then (case w of SigInt \<Rightarrow> ([], Inr ()) | SigTerm \<Rightarrow> ([], Inr ()) | Stopped \<Rightarrow> ([], Inr ())) (\<lambda>_.
     prog_then (emit (CloseQueue ''ingestor_tasks'')) (\<lambda>_.
     prog_then (emit (CloseQueue ''includer_tasks'')) (\<lambda>_.
     force_flush P)))))))))))))"

definition ingestor_run :: "crates \<Rightarrow> platform \<Rightarrow> unit prog" where
  "ingestor_run X P =
     prog_then (load_config P) (\<lambda>config.
     prog_then (emit (OpenQueue ''ingestor_tasks'')) (\<lambda>_.
     prog_then (emit (OpenQueue ''events'')) (\<lambda>_.
     prog_then (attempt (postgres_db P)) (\<lambda>_.
     prog_then (attempt (pg_pool P)) (\<lambda>_.
     prog_then (attempt (gmp_api P)) (\<lambda>_.
     prog_then (attempt (ingestor_parser X config)) (\<lambda>parser.
     prog_then (redis P) (\<lambda>_.
     prog_then (emit (RunIngestor parser)) (\<lambda>_.
     prog_then (attempt (service_result P)) (\<lambda>_.
     force_flush P))))))))))"

text \<open>The loop that starts a poller for each account, and the one that stops the tasks.\<close>

fun spawn_pollers :: "crates \<Rightarrow> 'd heights \<Rightarrow> 'd \<Rightarrow> ton_config \<Rightarrow> ton_address list \<Rightarrow> nat \<Rightarrow> nat prog" where
  "spawn_pollers X D d config [] handles = ([], Inr handles)"
| "spawn_pollers X D d config (acct # accts) handles =
     prog_then ([], map_err (\<lambda>e. Err (SubscriberFailed e))
        (subscriber_new D d (address_to_string X acct) (cfg_chain_name config))) (\<lambda>ton_sub.
     prog_then (emit (SpawnPoller acct ton_sub)) (\<lambda>_.
     spawn_pollers X D d config accts (Suc handles)))"

fun abort_tasks :: "nat \<Rightarrow> unit prog" where
  "abort_tasks 0 = ([], Inr ())"
| "abort_tasks (Suc handles) = prog_then (emit AbortTask) (\<lambda>_. abort_tasks handles)"

definition subscriber_run :: "crates \<Rightarrow> 'd heights \<Rightarrow> 'd \<Rightarrow> platform \<Rightarrow> unit prog" where
  "subscriber_run X D d P =
     prog_then (load_config P) (\<lambda>config.
     prog_then (emit (OpenQueue ''events'')) (\<lambda>_.
     prog_then (attempt (postgres_db P)) (\<lambda>_.
     prog_then (attempt (subscriber_accounts X config)) (\<lambda>accts.
     prog_then (signals P) (\<lambda>_.
     prog_then (redis P) (\<lambda>_.
     prog_then (emit (Heartbeat ''heartbeat:subscriber'')) (\<lambda>_.
     prog_then (attempt (pg_pool P)) (\<lambda>_.
     prog_then ([], expect_client (http_client P) config) (\<lambda>client.
     prog_then (spawn_pollers X D d config accts 0) (\<lambda>handles.
     prog_then (emit (SpawnRetry (hd accts))) (\<lambda>_.
     prog_then (abort_tasks (Suc handles)) (\<lambda>_.
     prog_then (emit (CloseQueue ''events'')) (\<lambda>_.
     force_flush P)))))))))))))"

text \<open>
  The handle of the includer's task is polled by \<open>select!\<close> itself and awaited again after the
  queues are closed.
\<close>

definition includer_run ::
    "crates \<Rightarrow> (wallet_map \<Rightarrow> (ton_address \<times> ton_wallet_high_load_v3) list) \<Rightarrow> platform \<Rightarrow> wakeup \<Rightarrow> unit prog" where
  "includer_run X entries P w =
     prog_then (load_config P) (\<lambda>config.
     prog_then (emit (OpenQueue ''includer_tasks'')) (\<lambda>_.
     prog_then (emit (OpenQueue ''construct_proof'')) (\<lambda>_.
     prog_then (redis P) (\<lambda>_.
     prog_then (attempt (postgres_db P)) (\<lambda>_.
     prog_then (attempt (pg_pool P)) (\<lambda>_.
     prog_then (attempt (gmp_api P)) (\<lambda>_.
     prog_then ([], includer_main X entries (http_client P) config) (\<lambda>(ton_includer, client).
     prog_then (signals P) (\<lambda>_.
     prog_then (emit (Heartbeat ''heartbeat:includer'')) (\<lambda>_.
     prog_then (emit (SpawnIncluder ton_includer)) (\<lambda>_.
     prog_then (case w of
         SigInt \<Rightarrow> prog_then (emit CancelToken) (\<lambda>_. ([], Inr False))
       | SigTerm \<Rightarrow> prog_then (emit CancelToken) (\<lambda>_. ([], Inr False))
       | Stopped \<Rightarrow> prog_then (emit CancelToken) (\<lambda>_. ([], Inr True))) (\<lambda>handle_polled.
     prog_then (emit (CloseQueue ''includer_tasks'')) (\<lambda>_.
     prog_then (emit (CloseQueue ''construct_proof'')) (\<lambda>_.
     prog_then ([], await_task P handle_polled) (\<lambda>_.
     force_flush P)))))))))))))))"

definition account_checker_run :: "crates \<Rightarrow> platform \<Rightarrow> wakeup \<Rightarrow> unit prog" where
  "account_checker_run X P w =
     prog_then (load_config P) (\<lambda>config.
     prog_then (signals P) (\<lambda>_.
     prog_then (redis P) (\<lambda>_.
     prog_then (emit (Heartbeat ''heartbeat:account_checker'')) (\<lambda>_.
     prog_then (attempt (checked_addresses X config)) (\<lambda>our_addresses.
     prog_then ([], expect_client (http_client P) config) (\<lambda>client.
     prog_then (case w of SigInt \<Rightarrow> ([], Inr ()) | SigTerm \<Rightarrow> ([], Inr ()) | Stopped \<Rightarrow> ([], Inr ())) (\<lambda>_.
     force_flush P)))))))"

definition heartbeat_monitor_run :: "platform \<Rightarrow> unit prog" where
  "heartbeat_monitor_run P = prog_then (load_config P) (\<lambda>config. attempt (service_result P))"

section \<open>Successful runs\<close>

lemma prog_then_eq_ok:
  "prog_then p f = (es, Inr b) \<longleftrightarrow> (\<exists>es1 a es2. p = (es1, Inr a) \<and> f a = (es2, Inr b) \<and> es = es1 @ es2)"
  by (auto simp: prog_then_def split: prod.splits sum.splits)

lemma emit_eq_ok: "emit e = (es, Inr u) \<longleftrightarrow> es = [e]"
  by (auto simp: emit_def)

lemma attempt_eq_ok: "attempt r = (es, Inr a) \<longleftrightarrow> es = [] \<and> r = Inr a"
  by (auto simp: attempt_def map_err_eq_Inr_iff)

lemma load_config_eq_ok: "load_config P = (es, Inr c) \<longleftrightarrow> es = [] \<and> network_set P \<and> config_file P = Inr c"
  by (auto simp: load_config_def attempt_eq_ok)

lemma force_flush_eq_ok: "force_flush P = (es, Inr u) \<longleftrightarrow> es = [FlushLogs] \<and> otel_flush P"
  by (auto simp: force_flush_def emit_eq_ok)

lemma abort_tasks_run: "abort_tasks n = (replicate n AbortTask, Inr ())"
  by (induction n) (simp_all add: prog_then_def emit_def)

lemmas prog_ok = prog_then_eq_ok emit_eq_ok attempt_eq_ok load_config_eq_ok force_flush_eq_ok
  signals_def redis_def abort_tasks_run

text \<open>Spawning is the construction of the pollers of \<open>subscriber_main\<close>, one task for each.\<close>

lemma spawn_pollers_eq_ok:
  "spawn_pollers X D d config accts n = (es, Inr m) \<longleftrightarrow>
     (\<exists>subs. start_pollers X D d config accts = Inr subs \<and> es = map (case_prod SpawnPoller) subs \<and> m = n + length subs)"
  by (induction accts arbitrary: n es) (fastforce simp: prog_then_eq_ok emit_eq_ok and_then_eq_Inr_iff map_err_eq_Inr_iff)+

lemma subscriber_run_ok:
  assumes "subscriber_run X D d P = (es, Inr ())"
  obtains config S where "config_file P = Inr config" "subscriber_main X D d (http_client P) config = Inr S"
    "es = [OpenQueue ''events'', Heartbeat ''heartbeat:subscriber''] @ map (case_prod SpawnPoller) (sp_pollers S)
       @ SpawnRetry (sp_retry_account S) # replicate (Suc (length (sp_pollers S))) AbortTask @ [CloseQueue ''events'', FlushLogs]"
  using assms
  by (auto simp: subscriber_run_def subscriber_main_def prog_ok spawn_pollers_eq_ok and_then_eq_Inr_iff map_err_eq_Inr_iff
      simp del: replicate.simps abort_tasks.simps)

lemma ingestor_run_ok:
  assumes "ingestor_run X P = (es, Inr ())"
  obtains config E where "config_file P = Inr config" "ingestor_parser X config = Inr E"
    "es = [OpenQueue ''ingestor_tasks'', OpenQueue ''events'', RunIngestor E, FlushLogs]"
  using assms by (auto simp: ingestor_run_def prog_ok)

lemma distributor_run_ok:
  assumes "distributor_run P w = (es, Inr ())"
  shows "es = [OpenQueue ''includer_tasks'', OpenQueue ''ingestor_tasks'', SupportTasks [RefundKind, ExecuteKind, GatewayTxKind],
    Heartbeat ''heartbeat:distributor'', CloseQueue ''ingestor_tasks'', CloseQueue ''includer_tasks'', FlushLogs]"
  using assms by (cases w) (auto simp: distributor_run_def prog_ok)

text \<open>The part of the includer before \<open>select!\<close> does not depend on the branch that is taken.\<close>

lemma includer_run_ok:
  assumes "includer_run X entries P w = (es, Inr ())"
  obtains config B client where "config_file P = Inr config" "includer_main X entries (http_client P) config = Inr (B, client)"
    "await_task P (w = Stopped) = Inr ()"
    "es = [OpenQueue ''includer_tasks'', OpenQueue ''construct_proof'', Heartbeat ''heartbeat:includer'', SpawnIncluder B,
       CancelToken, CloseQueue ''includer_tasks'', CloseQueue ''construct_proof'', FlushLogs]"
    "\<And>e. await_task P True = Inl e \<Longrightarrow> includer_run X entries P Stopped = ([OpenQueue ''includer_tasks'', OpenQueue ''construct_proof'',
       Heartbeat ''heartbeat:includer'', SpawnIncluder B, CancelToken, CloseQueue ''includer_tasks'', CloseQueue ''construct_proof''],
       Inl e)"
proof -
  from assms obtain config B client where ok: "network_set P" "config_file P = Inr config" "redis_client P = Inr ()"
      "redis_conn P = Inr ()" "postgres_db P = Inr ()" "pg_pool P = Inr ()" "gmp_api P = Inr ()"
      "includer_main X entries (http_client P) config = Inr (B, client)" "sigint P = Inr ()" "sigterm P = Inr ()" "otel_flush P"
    and rest: "await_task P (w = Stopped) = Inr ()" "es = [OpenQueue ''includer_tasks'', OpenQueue ''construct_proof'', Heartbeat ''heartbeat:includer'',
       SpawnIncluder B, CancelToken, CloseQueue ''includer_tasks'', CloseQueue ''construct_proof'', FlushLogs]"
    by (cases w) (auto simp: includer_run_def prog_ok)
  from ok have "includer_run X entries P Stopped = ([OpenQueue ''includer_tasks'', OpenQueue ''construct_proof'',
       Heartbeat ''heartbeat:includer'', SpawnIncluder B, CancelToken, CloseQueue ''includer_tasks'', CloseQueue ''construct_proof''],
       Inl e)" if "await_task P True = Inl e" for e
    using that by (simp add: includer_run_def prog_then_def load_config_def attempt_def emit_def signals_def redis_def)
  then show thesis by (rule that [OF ok(2) ok(8) rest])
qed

section \<open>Properties\<close>

definition queues_opened :: "run_effect list \<Rightarrow> string list" where
  "queues_opened es = List.map_filter (\<lambda>e. case e of OpenQueue q \<Rightarrow> Some q | _ \<Rightarrow> None) es"

definition queues_closed :: "run_effect list \<Rightarrow> string list" where
  "queues_closed es = List.map_filter (\<lambda>e. case e of CloseQueue q \<Rightarrow> Some q | _ \<Rightarrow> None) es"

fun spawns_poller :: "run_effect \<Rightarrow> bool" where
  "spawns_poller (SpawnPoller a sub) = True"
| "spawns_poller (SpawnRetry a) = True"
| "spawns_poller _ = False"

lemma queues_simps [simp]:
  "queues_opened [] = []" "queues_opened (OpenQueue q # es) = q # queues_opened es"
  "(\<And>q. e \<noteq> OpenQueue q) \<Longrightarrow> queues_opened (e # es) = queues_opened es"
  "queues_closed [] = []" "queues_closed (CloseQueue q # es) = q # queues_closed es"
  "(\<And>q. e \<noteq> CloseQueue q) \<Longrightarrow> queues_closed (e # es) = queues_closed es"
  "queues_opened (es @ es') = queues_opened es @ queues_opened es'"
  "queues_closed (es @ es') = queues_closed es @ queues_closed es'"
  by (auto simp: queues_opened_def queues_closed_def List.map_filter_def split: run_effect.splits)

lemma queues_tasks [simp]:
  "queues_opened (map (case_prod SpawnPoller) subs) = []" "queues_opened (replicate n AbortTask) = []"
  "queues_closed (map (case_prod SpawnPoller) subs) = []" "queues_closed (replicate n AbortTask) = []"
  "filter spawns_poller (map (case_prod SpawnPoller) subs) = map (case_prod SpawnPoller) subs"
  "filter ((=) AbortTask) (map (case_prod SpawnPoller) subs) = []"
  by (auto simp: queues_opened_def queues_closed_def List.map_filter_def filter_empty_conv filter_id_conv)

text \<open>
  Claim C21: start and end of the programs. A run that exits without an error has, in the
  distributor, the subscriber and the includer, closed exactly the queues it opened, and flushed
  its logs last; the subscriber has stopped each of its tasks. The queue that the subscriber
  opens is one that the ingestor opens, and each queue of the distributor is one of the includer or
  the ingestor. A library whose task handles panic when they are awaited after their end, as
  tokio's do, makes a difference to the includer: it then exits without an error only on a signal,
  and in the same surroundings, when its service stops by itself, \<open>select!\<close> has polled the handle
  to its end, the second \<open>await\<close> panics, and the logs are not flushed.
\<close>

theorem programs_shut_down:
  assumes "distributor_run P1 w1 = (de, Inr ())" and "subscriber_run X D d P2 = (se, Inr ())"
    and "includer_run X entries P3 w3 = (ie, Inr ())" and "ingestor_run X P4 = (ge, Inr ())"
  shows "(\<forall>es \<in> {de, se, ie}. mset (queues_opened es) = mset (queues_closed es) \<and> last es = FlushLogs)
    \<and> last ge = FlushLogs
    \<and> length (filter ((=) AbortTask) se) = length (filter spawns_poller se)
    \<and> set (queues_opened se) \<subseteq> set (queues_opened ge)
    \<and> set (queues_opened de) \<subseteq> set (queues_opened ie) \<union> set (queues_opened ge)
    \<and> (await_task P3 True = Inl Panicked \<longrightarrow> w3 \<noteq> Stopped
        \<and> (\<exists>es. includer_run X entries P3 Stopped = (es, Inl Panicked) \<and> FlushLogs \<notin> set es))"
proof -
  obtain c2 S where se: "config_file P2 = Inr c2" "subscriber_main X D d (http_client P2) c2 = Inr S"
    "se = [OpenQueue ''events'', Heartbeat ''heartbeat:subscriber''] @ map (case_prod SpawnPoller) (sp_pollers S)
       @ SpawnRetry (sp_retry_account S) # replicate (Suc (length (sp_pollers S))) AbortTask @ [CloseQueue ''events'', FlushLogs]"
    by (rule subscriber_run_ok [OF assms(2)])
  from se(3) have s: "mset (queues_opened se) = mset (queues_closed se)" "last se = FlushLogs" "queues_opened se = [''events'']"
    "length (filter ((=) AbortTask) se) = length (filter spawns_poller se)"
    by (simp_all del: replicate.simps)
  from distributor_run_ok [OF assms(1)]
  have de: "mset (queues_opened de) = mset (queues_closed de)" "last de = FlushLogs"
    "queues_opened de = [''includer_tasks'', ''ingestor_tasks'']"
    by simp_all
  obtain c4 E where ge: "config_file P4 = Inr c4" "ingestor_parser X c4 = Inr E"
      "ge = [OpenQueue ''ingestor_tasks'', OpenQueue ''events'', RunIngestor E, FlushLogs]"
    by (rule ingestor_run_ok [OF assms(4)])
  then have g: "last ge = FlushLogs" "queues_opened ge = [''ingestor_tasks'', ''events'']" by simp_all
  obtain B where ie: "await_task P3 (w3 = Stopped) = Inr ()"
    "ie = [OpenQueue ''includer_tasks'', OpenQueue ''construct_proof'', Heartbeat ''heartbeat:includer'', SpawnIncluder B,
       CancelToken, CloseQueue ''includer_tasks'', CloseQueue ''construct_proof'', FlushLogs]"
    "\<And>e. await_task P3 True = Inl e \<Longrightarrow> includer_run X entries P3 Stopped = ([OpenQueue ''includer_tasks'', OpenQueue ''construct_proof'',
       Heartbeat ''heartbeat:includer'', SpawnIncluder B, CancelToken, CloseQueue ''includer_tasks'', CloseQueue ''construct_proof''],
       Inl e)"
    by (rule includer_run_ok [OF assms(3)]) (rule that)
  from ie(2) have i: "mset (queues_opened ie) = mset (queues_closed ie)" "last ie = FlushLogs"
    "queues_opened ie = [''includer_tasks'', ''construct_proof'']"
    by simp_all
  have "w3 \<noteq> Stopped \<and> (\<exists>es. includer_run X entries P3 Stopped = (es, Inl Panicked) \<and> FlushLogs \<notin> set es)"
    if "await_task P3 True = Inl Panicked" using ie(1,3) that by auto
  moreover have "set (queues_opened se) \<subseteq> set (queues_opened ge)"
      "set (queues_opened de) \<subseteq> set (queues_opened ie) \<union> set (queues_opened ge)"
    unfolding s(3) de(3) g(2) i(3) by auto
  ultimately show ?thesis using s(1,2,4) de(1,2) g(1) i(1,2) by blast
qed

definition sample_platform :: platform where
  "sample_platform =
     \<lparr>network_set = True, config_file = Inr sample_config, postgres_db = Inr (), pg_pool = Inr (), gmp_api = Inr (),
      redis_client = Inr (), redis_conn = Inr (), sigint = Inr (), sigterm = Inr (), http_client = Inr (),
      service_result = Inr (), await_task = (\<lambda>polled. if polled then Inl Panicked else Inr ()), otel_flush = True\<rparr>"

lemmas run_eval = prog_then_def load_config_def attempt_def emit_def signals_def redis_def force_flush_def
  sample_platform_def

lemma programs_shut_down_witness:
  "\<exists>entries ie es. includer_run sample_crates entries sample_platform SigTerm = (ie, Inr ()) \<and> last ie = FlushLogs
     \<and> includer_run sample_crates entries sample_platform Stopped = (es, Inl Panicked) \<and> FlushLogs \<notin> set es"
proof -
  let ?entries = "\<lambda>m. [(TonAddress 0 (as_bytes ''A''), the (m (TonAddress 0 (as_bytes ''A''))))]"
  obtain de where d: "distributor_run sample_platform Stopped = (de, Inr ())"
    by (simp add: distributor_run_def run_eval)
  obtain se where s: "subscriber_run sample_crates mem_heights None sample_platform = (se, Inr ())"
    by (simp add: subscriber_run_def run_eval subscriber_accounts_def expect_client_def rpc_client_new_def sample_config_def
        subscriber_new_def mem_heights_def sample_crates_def)
  obtain ie where i: "includer_run sample_crates ?entries sample_platform SigTerm = (ie, Inr ())"
    by (simp add: includer_run_def run_eval includer_main_def includer_new_def wallet_manager_new_def load_wallet_def
        sample_config_def sample_crates_def)
  obtain ge where g: "ingestor_run sample_crates sample_platform = (ge, Inr ())"
    by (simp add: ingestor_run_def run_eval ingestor_parser_def sample_config_def sample_crates_def)
  from programs_shut_down [OF d s i g] i show ?thesis by (auto simp: sample_platform_def)
qed

end
