(* ===== verification/Replay_Protection.thy ===== *)
theory Replay_Protection
  imports Query_Id_Store
begin

text \<open>
  The query ids against the replay protection of the wallet contract. The contract is not part of
  the repository: it is the parameter \<open>process\<close>, and the locale \<open>replay_guard\<close> states what the
  relayer relies on, as the module comment of \<open>src/src/high_load_query_id_db_wrapper.rs\<close>
  documents it: an id is not accepted twice within a timeout, and it is refused as used only
  within three timeouts of its use. A contract may decline a message for any other reason, its
  signature or its creation time. The cleaning that the comment quotes is an instance of the
  locale. Shown: messages whose ids are spaced are not refused as used, and the sessions of the
  code are not spaced.
\<close>

section \<open>What the relayer relies on\<close>

datatype verdict = Accepted | AlreadyExecuted | Declined

text \<open>
  The verdicts on a sequence of messages, each with the rest of its content, its id and its time
  of arrival.
\<close>

fun deliver :: "('m \<Rightarrow> int \<Rightarrow> 's \<Rightarrow> u64 \<Rightarrow> verdict \<times> 's) \<Rightarrow> 's \<Rightarrow> ('m \<times> u64 \<times> int) list \<Rightarrow> verdict list" where
  "deliver process c [] = []"
| "deliver process c ((m, qid, t) # ms) = (case process m t c qid of (v, c') \<Rightarrow> v # deliver process c' ms)"

text \<open>\<open>good c used t\<close>: the contract \<open>c\<close> at time \<open>t\<close>, where \<open>used\<close> has the last acceptance of each id.\<close>

locale replay_guard =
  fixes process :: "'m \<Rightarrow> int \<Rightarrow> 's \<Rightarrow> u64 \<Rightarrow> verdict \<times> 's"
    and timeout :: int
    and good :: "'s \<Rightarrow> (u64 \<rightharpoonup> int) \<Rightarrow> int \<Rightarrow> bool"
  assumes good_later: "good c used t \<Longrightarrow> t \<le> t' \<Longrightarrow> good c used t'"
    and accepts: "good c used t \<Longrightarrow> process m t c qid = (Accepted, c') \<Longrightarrow> good c' (used(qid \<mapsto> t)) t"
    and declines: "good c used t \<Longrightarrow> process m t c qid = (v, c') \<Longrightarrow> v \<noteq> Accepted \<Longrightarrow> good c' used t"
    and refuses_recent: "good c used t \<Longrightarrow> process m t c qid = (AlreadyExecuted, c')
          \<Longrightarrow> \<exists>u. used qid = Some u \<and> t \<le> u + 3 * timeout"
    and keeps_recent: "good c used t \<Longrightarrow> used qid = Some u \<Longrightarrow> t \<le> u + timeout
          \<Longrightarrow> fst (process m t c qid) \<noteq> Accepted"
begin

text \<open>Messages with the same id that arrive more than three timeouts apart.\<close>

lemma spaced_not_refused:
  assumes "good c used t0" and "\<forall>(m, qid, t) \<in> set ms. t0 \<le> t"
    and "\<forall>(m, qid, t) \<in> set ms. \<forall>u. used qid = Some u \<longrightarrow> u + 3 * timeout < t"
    and "sorted_wrt (\<lambda>(m, qid, t) (m', qid', t'). t \<le> t' \<and> (qid = qid' \<longrightarrow> t + 3 * timeout < t')) ms"
  shows "AlreadyExecuted \<notin> set (deliver process c ms)"
  using assms
proof (induction ms arbitrary: c used t0)
  case (Cons x ms)
  obtain m qid t where x: "x = (m, qid, t)" by (cases x)
  obtain v c' where p: "process m t c qid = (v, c')" by fastforce
  have g: "good c used t" using good_later [OF Cons.prems(1)] Cons.prems(2) x by auto
  have "\<forall>u. used qid = Some u \<longrightarrow> u + 3 * timeout < t" using Cons.prems(3) x by simp
  with refuses_recent [OF g, of m qid] p have v: "v \<noteq> AlreadyExecuted" by fastforce
  define used' where "used' = (if v = Accepted then used(qid \<mapsto> t) else used)"
  have g': "good c' used' t" using accepts [OF g] declines [OF g p] p by (auto simp: used'_def)
  have later: "\<forall>(m', q, t') \<in> set ms. t \<le> t' \<and> (qid = q \<longrightarrow> t + 3 * timeout < t')" using Cons.prems(4) x by simp
  have "AlreadyExecuted \<notin> set (deliver process c' ms)"
  proof (rule Cons.IH [OF g'])
    show "\<forall>(m', q, t') \<in> set ms. t \<le> t'" using later by blast
    show "\<forall>(m', q, t') \<in> set ms. \<forall>u. used' q = Some u \<longrightarrow> u + 3 * timeout < t'"
      using later Cons.prems(3) by (fastforce simp: used'_def split: if_splits)
  qed (use Cons.prems(4) in simp)
  with p v x show ?case by simp
qed simp

text \<open>A message whose id was accepted less than a timeout ago, whatever arrived in between.\<close>

lemma replay_refused:
  assumes "good c used t0" "used qid = Some u" "\<forall>(m, q, t) \<in> set ms. t0 \<le> t \<and> u \<le> t \<and> t \<le> t'"
    and "sorted (map (\<lambda>(m, q, t). t) ms)" "t0 \<le> t'" "t' \<le> u + timeout"
  shows "last (deliver process c (ms @ [(m', qid, t')])) \<noteq> Accepted"
  using assms
proof (induction ms arbitrary: c used t0 u)
  case Nil
  then have "fst (process m' t' c qid) \<noteq> Accepted" using keeps_recent good_later by blast
  then show ?case by (cases "process m' t' c qid") simp
next
  case (Cons x ms)
  obtain m q t where x: "x = (m, q, t)" by (cases x)
  obtain v c' where p: "process m t c q = (v, c')" by fastforce
  have t: "t0 \<le> t" "u \<le> t" "t \<le> t'" "\<forall>(m, q, s) \<in> set ms. t \<le> s \<and> s \<le> t'" using Cons.prems(3,4) x by auto
  have g: "good c used t" using good_later [OF Cons.prems(1) t(1)] .
  define used' where "used' = (if v = Accepted then used(q \<mapsto> t) else used)"
  have g': "good c' used' t" using accepts [OF g] declines [OF g p] p by (auto simp: used'_def)
  obtain u' where u': "used' qid = Some u'" "u \<le> u'" "u' \<le> t" using Cons.prems(2) t(2) by (cases "v = Accepted \<and> q = qid") (auto simp: used'_def)
  have "last (deliver process c' (ms @ [(m', qid, t')])) \<noteq> Accepted"
  proof (rule Cons.IH [OF g' u'(1)])
    show "\<forall>(m, q, s) \<in> set ms. t \<le> s \<and> u' \<le> s \<and> s \<le> t'" using t(4) u'(3) by fastforce
  qed (use Cons.prems t u' x in auto)
  moreover have "deliver process c' (ms @ [(m', qid, t')]) \<noteq> []" by (cases ms) (auto split: prod.splits)
  ultimately show ?case using p x by simp
qed

end

section \<open>The quoted cleaning is such a contract\<close>

text \<open>
  The collections of used ids of the comment. The rest of a message is whether it passes the other
  checks of the contract; an id in either collection cannot be sent, and any other is marked as
  used (the last columns of the table in the comment).
\<close>

record wallet_contract =
  queries :: "u64 set"
  old_queries :: "u64 set"
  last_clean_time :: int

definition clean_queries :: "int \<Rightarrow> int \<Rightarrow> wallet_contract \<Rightarrow> wallet_contract" where
  "clean_queries timeout now c =
     (if last_clean_time c < now - timeout
      then (let c1 = c\<lparr>old_queries := queries c, queries := {}\<rparr>;
                c2 = (if last_clean_time c1 < now - timeout * 2 then c1\<lparr>old_queries := {}\<rparr> else c1)
            in c2\<lparr>last_clean_time := now\<rparr>)
      else c)"

definition quoted_process :: "int \<Rightarrow> bool \<Rightarrow> int \<Rightarrow> wallet_contract \<Rightarrow> u64 \<Rightarrow> verdict \<times> wallet_contract" where
  "quoted_process timeout passes now c qid =
     (let c' = clean_queries timeout now c in
      if \<not> passes then (Declined, c)
      else if qid \<in> old_queries c' \<union> queries c' then (AlreadyExecuted, c)
      else (Accepted, c'\<lparr>queries := insert qid (queries c')\<rparr>))"

definition no_queries :: wallet_contract where
  "no_queries = \<lparr>queries = {}, old_queries = {}, last_clean_time = 0\<rparr>"

definition remembers :: "int \<Rightarrow> wallet_contract \<Rightarrow> (u64 \<rightharpoonup> int) \<Rightarrow> int \<Rightarrow> bool" where
  "remembers timeout c used t \<longleftrightarrow> 0 \<le> timeout \<and> last_clean_time c \<le> t
     \<and> (\<forall>qid \<in> queries c. \<exists>u. used qid = Some u \<and> last_clean_time c \<le> u)
     \<and> (\<forall>qid \<in> old_queries c. \<exists>u. used qid = Some u \<and> last_clean_time c - 2 * timeout \<le> u)
     \<and> (\<forall>qid u. used qid = Some u \<longrightarrow> u \<le> last_clean_time c + timeout
          \<and> (qid \<in> queries c \<or> (qid \<in> old_queries c \<and> u \<le> last_clean_time c) \<or> u + timeout < last_clean_time c))"

lemma clean_remembers:
  assumes "remembers timeout c used t"
  shows "remembers timeout (clean_queries timeout t c) used t" "t \<le> last_clean_time (clean_queries timeout t c) + timeout"
proof -
  have used: "u \<le> last_clean_time c + timeout \<and>
      (qid \<in> queries c \<or> (qid \<in> old_queries c \<and> u \<le> last_clean_time c) \<or> u + timeout < last_clean_time c)"
    if "used qid = Some u" for qid u using assms that by (simp add: remembers_def)
  show "remembers timeout (clean_queries timeout t c) used t"
  proof (cases "last_clean_time c < t - timeout")
    case True
    have "u \<le> t + timeout \<and> ((qid \<in> queries c \<and> \<not> last_clean_time c < t - timeout * 2 \<and> u \<le> t) \<or> u + timeout < t)"
      if "used qid = Some u" for qid u
      using used [OF that] True assms by (auto simp: remembers_def)
    then show ?thesis using assms True by (fastforce simp: remembers_def clean_queries_def Let_def)
  qed (use assms in \<open>simp add: clean_queries_def\<close>)
  show "t \<le> last_clean_time (clean_queries timeout t c) + timeout"
    using assms by (auto simp: remembers_def clean_queries_def Let_def)
qed

lemma clean_recent:
  assumes "remembers timeout c used t"
    and "qid \<in> old_queries (clean_queries timeout t c) \<union> queries (clean_queries timeout t c)"
  shows "\<exists>u. used qid = Some u \<and> t \<le> u + 3 * timeout"
  using assms by (fastforce simp: remembers_def clean_queries_def Let_def split: if_splits)

lemma clean_keeps:
  assumes "remembers timeout c used t" "used qid = Some u" "t \<le> u + timeout"
  shows "qid \<in> old_queries (clean_queries timeout t c) \<union> queries (clean_queries timeout t c)"
proof -
  have "last_clean_time (clean_queries timeout t c) \<le> t" using clean_remembers(1) [OF assms(1)] by (simp add: remembers_def)
  with clean_remembers(1) [OF assms(1)] assms(2,3) show ?thesis by (fastforce simp: remembers_def)
qed

interpretation quoted: replay_guard "quoted_process timeout" timeout "remembers timeout" for timeout
proof (unfold_locales, goal_cases)
  case (1 c used t t')
  then show ?case by (auto simp: remembers_def)
next
  case (2 c used t m qid c')
  then have "c' = (clean_queries timeout t c)\<lparr>queries := insert qid (queries (clean_queries timeout t c))\<rparr>"
    by (auto simp: quoted_process_def Let_def split: if_splits)
  with clean_remembers [OF 2(1)] show ?case by (auto simp: remembers_def)
next
  case (3 c used t m qid v c')
  then show ?case by (auto simp: quoted_process_def Let_def split: if_splits)
next
  case (4 c used t m qid c')
  with clean_recent [OF 4(1)] show ?case by (auto simp: quoted_process_def Let_def split: if_splits)
next
  case (5 c used t qid u m)
  with clean_keeps [OF 5] show ?case by (auto simp: quoted_process_def Let_def)
qed

lemma no_queries_remembers: "0 \<le> timeout \<Longrightarrow> 0 \<le> t \<Longrightarrow> remembers timeout no_queries Map.empty t"
  by (simp add: remembers_def no_queries_def)

text \<open>
  The factor 3 is the smallest: an id is still refused three timeouts after its use when the
  contract cleaned in between, and accepted at any later time.
\<close>

lemma three_timeouts_needed:
  assumes "0 < timeout" "timeout < t"
  shows "\<exists>c1 c2. quoted_process timeout True t no_queries 0 = (Accepted, c1)
    \<and> quoted_process timeout True (t + 2 * timeout) c1 1 = (Accepted, c2)
    \<and> fst (quoted_process timeout True (t + 3 * timeout) c2 0) = AlreadyExecuted
    \<and> (\<forall>t' > t + 3 * timeout. fst (quoted_process timeout True t' c2 0) = Accepted)"
  using assms by (auto simp: quoted_process_def clean_queries_def no_queries_def Let_def)

section \<open>The ids of a session in a row\<close>

definition plain_call :: "issue_input \<Rightarrow> bool" where
  "plain_call i \<longleftrightarrow> in_read_ok i \<and> in_write_ok i \<and> \<not> in_force i"

lemma plain_call_live:
  assumes "tbl a = Some row" "row_id row = hlq_nth n" "n < 8191 * 1023" "plain_call i" "in_now i \<le> row_expires_at row"
  obtains row' where "wrapper_issue i tbl a = (Inr (hlq_nth (Suc n)), tbl(a \<mapsto> row'))" "row_id row' = hlq_nth (Suc n)"
    "row_expires_at row' = row_expires_at row"
proof -
  have lt: "n < 8192 * 1023" "Suc n < 8192 * 1023" and n: "n < 8191 * 1023 + 1020" using assms(3) by simp_all
  have v: "valid_query_id \<lparr>shift = row_shift row, bitnumber = row_bitnumber row\<rparr>"
    using hlq_nth_valid [OF lt(1)] assms(2) by (simp add: row_id_def)
  have "unat (shift (hlq_nth n)) < 8191"
    using unat_hlq_nth(1) [OF lt(1)] assms(3) by (simp add: less_mult_imp_div_less)
  then have "has_next (hlq_nth n)" by (auto simp: has_next_def query_id_consts)
  then have pick: "pick_query_id (row_shift row) (row_bitnumber row) = Inr (hlq_nth (Suc n))"
    using pick_query_id_valid [OF v] assms(2) hlq_next_nth [OF n] by (simp add: Let_def row_id_def)
  have "query_id (hlq_nth (Suc n)) \<noteq> 0"
    using hlq_next_nonzero [OF hlq_nth_valid [OF lt(1)] hlq_next_nth [OF n]] .
  then have "wrapper_issue i tbl a = (Inr (hlq_nth (Suc n)), tbl(a \<mapsto> row\<lparr>row_shift := shift (hlq_nth (Suc n)),
      row_bitnumber := bitnumber (hlq_nth (Suc n)), row_updated_at := Some (in_now i)\<rparr>))"
    using pick assms(1,4,5)
    by (simp add: wrapper_issue_def wrapper_next_def get_query_id_def plain_call_def update_query_id_def Let_def)
  then show thesis by (rule that) (simp_all add: row_id_def)
qed

lemma session_issues:
  assumes "tbl a = Some row" "row_id row = hlq_nth n" "n + length is \<le> 8191 * 1023"
    and "\<forall>i \<in> set is. plain_call i \<and> in_now i \<le> row_expires_at row"
  shows "issued wrapper_issue tbl (map (\<lambda>i. (i, a)) is) = map (\<lambda>k. (a, query_id (hlq_nth k))) [Suc n..<Suc n + length is]"
  using assms
proof (induction "is" arbitrary: tbl row n)
  case (Cons i "is")
  then have "n < 8191 * 1023" "plain_call i" "in_now i \<le> row_expires_at row" by simp_all
  from plain_call_live [where tbl = tbl and a = a, OF Cons.prems(1,2) this]
  obtain row' where one: "wrapper_issue i tbl a = (Inr (hlq_nth (Suc n)), tbl(a \<mapsto> row'))" "row_id row' = hlq_nth (Suc n)"
    "row_expires_at row' = row_expires_at row" .
  have "issued wrapper_issue (tbl(a \<mapsto> row')) (map (\<lambda>i. (i, a)) is)
      = map (\<lambda>k. (a, query_id (hlq_nth k))) [Suc (Suc n)..<Suc (Suc n) + length is]"
    by (rule Cons.IH [OF _ one(2)]) (use Cons.prems one(3) in auto)
  with one(1) show ?case by (simp add: upt_conv_Cons del: upt_Suc)
qed simp

lemma fresh_session_issues:
  assumes "live_row tbl a (in_now i) = None" "length is \<le> 8191 * 1023" "plain_call i"
    and "\<forall>j \<in> set is. plain_call j
      \<and> in_now j \<le> in_now i + sint (ucast (in_timeout i) * TIMEOUT_BUFFER_MULTIPLIER :: i32) * SECOND"
  shows "issued wrapper_issue tbl (map (\<lambda>i. (i, a)) (i # is)) = map (\<lambda>k. (a, query_id (hlq_nth k))) [0..<Suc (length is)]"
proof -
  obtain r tbl' where w: "wrapper_issue i tbl a = (r, tbl')" by fastforce
  have z: "query_id hlq_zero = 0" by (simp add: query_id_def hlq_zero_def)
  have r: "r = Inr hlq_zero"
    using w assms(1,3) z by (auto simp: wrapper_issue_def wrapper_next_def get_query_id_live pick_query_id_fresh
        plain_call_def upsert_query_id_def Let_def split: option.splits)
  obtain row where row: "tbl' = tbl(a \<mapsto> row)" "row_id row = hlq_zero"
      "row_expires_at row = in_now i + sint (ucast (in_timeout i) * TIMEOUT_BUFFER_MULTIPLIER :: i32) * SECOND"
    using wrapper_next_fresh(2) [OF assms(1) w [unfolded r wrapper_issue_def]] by blast
  have z0: "hlq_zero = hlq_nth 0" by (simp add: hlq_zero_def hlq_nth_def)
  have "issued wrapper_issue tbl' (map (\<lambda>i. (i, a)) is) = map (\<lambda>k. (a, query_id (hlq_nth k))) [Suc 0..<Suc 0 + length is]"
    by (rule session_issues [where row = row]) (use row z0 assms(2,4) in auto)
  with w r z0 show ?thesis by (simp add: upt_conv_Cons del: upt_Suc)
qed

section \<open>Properties\<close>

text \<open>
  Claim C34: the code does not space its sessions. The expiry of a session is fixed when its first
  id is issued, and \<open>update_query_id\<close> does not move it. So let the \<open>n\<close>-th id be stored and a call
  at the end of the session issue the next one, and let \<open>n + 2\<close> calls follow after the expiry,
  within the new session, all of them answered by the database and not forced: they issue the ids
  from 0 again, and the last of them is the id that was issued at the end of the old session. A
  contract that accepted that id does not accept it a second time when it arrives within a
  timeout of its first use, whatever messages arrive in between.
\<close>

theorem session_reset_refused:
  fixes process :: "'m \<Rightarrow> int \<Rightarrow> 's \<Rightarrow> u64 \<Rightarrow> verdict \<times> 's"
  assumes "replay_guard process timeout good" "good c used u"
    and "tbl a = Some row" "row_id row = hlq_nth n" "Suc n < 8191 * 1023"
    and "plain_call i" "in_now i \<le> row_expires_at row"
    and "length is = Suc n" "plain_call j" "row_expires_at row < in_now j"
    and "\<forall>k \<in> set is. plain_call k
      \<and> in_now k \<le> in_now j + sint (ucast (in_timeout j) * TIMEOUT_BUFFER_MULTIPLIER :: i32) * SECOND"
    and "qid = query_id (hlq_nth (Suc n))" "process m u c qid = (Accepted, c')"
    and "\<forall>(m, q, t) \<in> set ms. u \<le> t \<and> t \<le> v" "sorted (map (\<lambda>(m, q, t). t) ms)" "u \<le> v" "v \<le> u + timeout"
  shows "issued wrapper_issue tbl (map (\<lambda>k. (k, a)) (i # j # is))
      = (a, qid) # map (\<lambda>k. (a, query_id (hlq_nth k))) [0..<n + 2]
    \<and> last (issued wrapper_issue tbl (map (\<lambda>k. (k, a)) (i # j # is))) = (a, qid)
    \<and> last (deliver process c ((m, qid, u) # ms @ [(m', qid, v)])) \<noteq> Accepted"
proof -
  obtain row' where one: "wrapper_issue i tbl a = (Inr (hlq_nth (Suc n)), tbl(a \<mapsto> row'))" "row_id row' = hlq_nth (Suc n)"
    "row_expires_at row' = row_expires_at row"
    by (rule plain_call_live [where tbl = tbl and a = a, OF assms(3,4) _ assms(6,7)]) (use assms(5) in auto)
  have "issued wrapper_issue (tbl(a \<mapsto> row')) (map (\<lambda>k. (k, a)) (j # is))
      = map (\<lambda>k. (a, query_id (hlq_nth k))) [0..<Suc (length is)]"
    by (rule fresh_session_issues) (use assms(5,8-11) one(3) in \<open>auto simp: live_row_def\<close>)
  then have ids: "issued wrapper_issue tbl (map (\<lambda>k. (k, a)) (i # j # is))
      = (a, qid) # map (\<lambda>k. (a, query_id (hlq_nth k))) [0..<n + 2]"
    using one(1) assms(8,12) by simp
  have "good c' (used(qid \<mapsto> u)) u" using replay_guard.accepts [OF assms(1,2,13)] .
  then have "last (deliver process c' (ms @ [(m', qid, v)])) \<noteq> Accepted"
    by (rule replay_guard.replay_refused [OF assms(1)]) (use assms(14-17) in auto)
  moreover have "deliver process c' (ms @ [(m', qid, v)]) \<noteq> []" by (cases ms) (auto split: prod.splits)
  ultimately have "last (deliver process c ((m, qid, u) # ms @ [(m', qid, v)])) \<noteq> Accepted" using assms(13) by simp
  moreover have "last (map (\<lambda>k. (a, query_id (hlq_nth k))) [0..<n + 2]) = (a, qid)" using assms(12) by simp
  ultimately show ?thesis using ids by simp
qed

text \<open>A wallet with a timeout of one hour, three hours after its session began.\<close>

lemma session_reset_refused_witness:
  "issued wrapper_issue [''w'' \<mapsto> sample_row\<lparr>row_bitnumber := 0, row_expires_at := 10800 * SECOND\<rparr>]
     [(sample_call 10800 3600 False, ''w''), (sample_call 10801 3600 False, ''w''), (sample_call 10802 3600 False, ''w'')]
     = [(''w'', 1), (''w'', 0), (''w'', 1)]
   \<and> deliver (quoted_process (3600 * SECOND)) no_queries
       [(True, 1, 10800 * SECOND), (True, 0, 10801 * SECOND), (True, 1, 10802 * SECOND)] = [Accepted, Accepted, AlreadyExecuted]"
proof -
  let ?row = "sample_row\<lparr>row_bitnumber := 0, row_expires_at := 10800 * SECOND\<rparr>"
  let ?p = "quoted_process (3600 * SECOND)" and ?now = "10800 * SECOND"
  have "remembers (3600 * SECOND) no_queries Map.empty ?now" by (rule no_queries_remembers) (simp_all add: SECOND_def)
  moreover have "row_id ?row = hlq_nth 0" by (simp add: row_id_def sample_row_def hlq_nth_def)
  moreover obtain c' where "?p True ?now no_queries 1 = (Accepted, c')"
    by (simp add: quoted_process_def clean_queries_def no_queries_def SECOND_def)
  moreover have "(1 :: u64) = query_id (hlq_nth (Suc 0))" by (simp add: query_id_def hlq_nth_def)
  ultimately have "issued wrapper_issue [''w'' \<mapsto> ?row]
      (map (\<lambda>k. (k, ''w'')) (sample_call 10800 3600 False # sample_call 10801 3600 False # [sample_call 10802 3600 False]))
      = (''w'', 1) # map (\<lambda>k. (''w'', query_id (hlq_nth k))) [0..<0 + 2]
    \<and> last (issued wrapper_issue [''w'' \<mapsto> ?row]
      (map (\<lambda>k. (k, ''w'')) (sample_call 10800 3600 False # sample_call 10801 3600 False # [sample_call 10802 3600 False]))) = (''w'', 1)
    \<and> last (deliver ?p no_queries ((True, 1, ?now) # [(True, 0, 10801 * SECOND)] @ [(True, 1, 10802 * SECOND)])) \<noteq> Accepted"
    by (intro session_reset_refused [OF quoted.replay_guard_axioms, where row = ?row and n = 0])
      (auto simp: plain_call_def sample_call_def SECOND_def TIMEOUT_BUFFER_MULTIPLIER_def)
  then show ?thesis
    by (simp add: query_id_def hlq_nth_def quoted_process_def clean_queries_def no_queries_def SECOND_def Let_def)
qed

end
