(* ===== verification/Acceptance.thy ===== *)
theory Acceptance
  imports Broadcast_System Replay_Protection
begin

text \<open>
  The broadcasters and the wallet contract together: the ids that several clients are issued in
  \<open>Broadcast_System\<close> meet the replay protection of \<open>Replay_Protection\<close>. Shown: a contract with
  the documented replay protection refuses none of their messages as used, as long as the
  messages of two sessions of a wallet are three timeouts apart.
\<close>

text \<open>The sessions and ids issued for a wallet, in order.\<close>

definition wallet_log :: "string \<Rightarrow> (string \<times> int \<times> u64) list \<Rightarrow> (int \<times> u64) list" where
  "wallet_log a ids = map snd (filter (\<lambda>x. fst x = a) ids)"

lemma wallet_log_sorted:
  "sorted_wrt (\<lambda>x y. fst x = fst y \<longrightarrow> id_before (snd x) (snd y)) ids \<Longrightarrow> sorted_wrt id_before (wallet_log a ids)"
  unfolding wallet_log_def by (induction ids) auto

text \<open>Two messages with the same id belong to different sessions.\<close>

lemma same_id_other_session:
  assumes "sorted_wrt id_before log" "k < length log" "k' < length log" "k \<noteq> k'" "snd (log ! k) = snd (log ! k')"
  shows "fst (log ! k) \<noteq> fst (log ! k')"
proof -
  have "id_before (log ! k) (log ! k') \<or> id_before (log ! k') (log ! k)"
    using assms(1-4) by (metis linorder_neqE_nat sorted_wrt_nth_less)
  with assms(5) show ?thesis by (auto simp: id_before_def)
qed

lemma arrivals_spaced:
  fixes timeout :: int
  assumes "sorted_wrt id_before log" "distinct (map fst arrivals)" "\<forall>(k, m, t) \<in> set arrivals. k < length log"
    and "sorted_wrt (\<lambda>(k, m, t) (k', m', t'). t \<le> t' \<and> (fst (log ! k) \<noteq> fst (log ! k') \<longrightarrow> t + 3 * timeout < t')) arrivals"
  shows "sorted_wrt (\<lambda>(m, qid, t) (m', qid', t'). t \<le> t' \<and> (qid = qid' \<longrightarrow> t + 3 * timeout < t'))
    (map (\<lambda>(k, m, t). (m, snd (log ! k), t)) arrivals)"
  using assms(2-4)
proof (induction arrivals)
  case (Cons x arrivals)
  obtain k m t where x: "x = (k, m, t)" by (cases x)
  have "t \<le> t' \<and> (snd (log ! k) = snd (log ! k') \<longrightarrow> t + 3 * timeout < t')" if "(k', m', t') \<in> set arrivals" for k' m' t'
  proof -
    have "t \<le> t' \<and> (fst (log ! k) \<noteq> fst (log ! k') \<longrightarrow> t + 3 * timeout < t')" "k < length log" "k' < length log" "k \<noteq> k'"
      using Cons.prems that x by force+
    then show ?thesis using same_id_other_session [OF assms(1)] by blast
  qed
  with Cons x show ?case by fastforce
qed simp

section \<open>Properties\<close>

text \<open>
  Claim C6: no message of the broadcasters is refused for its query id. Several broadcasters are
  issued ids for a wallet in any interleaving of their reads and writes, within the 60 seconds of
  their locks and with timeouts whose triple does not overflow. Their messages may be delayed,
  reordered or lost on the way to the wallet, each is delivered at most once, and messages of
  different sessions arrive more than three timeouts apart. Then a contract that accepted none of
  the wallet's ids before, and whose replay protection is as documented, refuses none of the
  messages that arrive as already executed; what else it may decline a message for is left open.
\<close>

theorem fleet_ids_not_refused:
  assumes "redis_store R live" and "\<forall>(a, v) \<in> set entries. wallet_address v = a"
    and "\<forall>(a, v) \<in> set entries. 0 \<le> session_seconds (wallet_timeout v)" and "table_ok tbl"
    and "fleet_reaches True X (redis_lock R) (redis_unlock R) (60 * SECOND) entries (fleet_start now r tbl) w"
    and log: "log = wallet_log a (fl_issued w)"
    and arrivals: "distinct (map fst arrivals)" "\<forall>(k, m, t) \<in> set arrivals. k < length log \<and> t0 \<le> t"
    and spaced: "sorted_wrt (\<lambda>(k, m, t) (k', m', t'). t \<le> t' \<and> (fst (log ! k) \<noteq> fst (log ! k') \<longrightarrow> t + 3 * timeout < t')) arrivals"
    and guard: "replay_guard process timeout good" "good c Map.empty t0"
  shows "AlreadyExecuted \<notin> set (deliver process c (map (\<lambda>(k, m, t). (m, snd (log ! k), t)) arrivals))"
proof -
  have "fleet_inv X (redis_held live) LOCK_TTL entries w"
    using lock_manager.fleet_reaches_inv [OF redis_store.redis_is_lock_manager [OF assms(1)] _ fleet_start_inv [OF assms(4)]
        assms(2) LOCK_TTL_pos assms(3)] assms(5) by (simp add: LOCK_TTL_def)
  then have "sorted_wrt id_before log"
    unfolding log by (auto intro: wallet_log_sorted simp: fleet_inv_def issued_ok_def)
  then have "sorted_wrt (\<lambda>(m, qid, t) (m', qid', t'). t \<le> t' \<and> (qid = qid' \<longrightarrow> t + 3 * timeout < t'))
      (map (\<lambda>(k, m, t). (m, snd (log ! k), t)) arrivals)"
    by (rule arrivals_spaced [OF _ arrivals(1) _ spaced]) (use arrivals(2) in fastforce)
  then show ?thesis
    by (rule replay_guard.spaced_not_refused [OF guard, rotated 2]) (use arrivals(2) in fastforce)+
qed

lemma fleet_ids_not_refused_witness:
  "\<exists>w a. fleet_reaches True sample_crates (redis_lock mem_redis) (redis_unlock mem_redis) (60 * SECOND) sample_entries
       (fleet_start 0 Map.empty Map.empty) w
     \<and> wallet_log a (fl_issued w) \<noteq> []
     \<and> AlreadyExecuted \<notin> set (deliver (quoted_process 60) no_queries [(True, snd (wallet_log a (fl_issued w) ! 0), 7)])"
proof -
  obtain w where w: "fleet_reaches True sample_crates (redis_lock mem_redis) (redis_unlock mem_redis) (60 * SECOND) sample_entries
       (fleet_start 0 Map.empty Map.empty) w" "length (fl_issued w) = 2"
    using sample_fleet_run by blast
  let ?a = "fst (fl_issued w ! 0)" and ?arr = "[(0 :: nat, True, 7 :: int)]"
  have "fl_issued w ! 0 \<in> set (fl_issued w)" using w(2) by simp
  then have some: "0 < length (wallet_log ?a (fl_issued w))" by (auto simp: wallet_log_def filter_empty_conv)
  then have arr: "distinct (map fst ?arr)" "\<forall>(k, m, t) \<in> set ?arr. k < length (wallet_log ?a (fl_issued w)) \<and> 0 \<le> t" by simp_all
  have "table_ok Map.empty" by (simp add: table_ok_def)
  moreover have "remembers 60 no_queries Map.empty 0" by (rule no_queries_remembers) simp_all
  ultimately have "AlreadyExecuted \<notin> set (deliver (quoted_process 60) no_queries
      (map (\<lambda>(k, m, t). (m, snd (wallet_log ?a (fl_issued w) ! k), t)) ?arr))"
    using fleet_ids_not_refused [OF mem.redis_store_axioms sample_fleet_entries _ w(1) refl arr _ quoted.replay_guard_axioms]
    by simp
  with w(1) some show ?thesis by (intro exI [of _ w] exI [of _ ?a]) simp
qed

end
