(* ===== verification/Recovery.thy ===== *)
theory Recovery
  imports Acceptance
begin

text \<open>
  The retries of \<open>send_to_chain\<close>. When the wallet contract knows an id
  already (\<open>THROWIF 36\<close>), the broadcaster tries again and forces the shift of the query id up,
  as the section on the forced increase in \<open>src/src/high_load_query_id_db_wrapper.rs\<close>
  explains. Shown: the retries leave the used ids behind, when these reach at most ten shifts
  above the stored one; and ids in the upper half of their range are never sent, because the
  wallet stores them as signed numbers.
\<close>

section \<open>The ids of a live session\<close>

text \<open>A call on a live row with room above: it succeeds, and a forced call raises the shift.\<close>

lemma pick_query_id_room:
  assumes "valid_query_id \<lparr>shift = s, bitnumber = b\<rparr>" "unat s < 8191"
  obtains q where "pick_query_id s b = Inr q" "unat s \<le> unat (shift q)" "unat (shift q) \<le> Suc (unat s)"
proof -
  let ?q = "\<lparr>shift = s, bitnumber = b\<rparr>"
  have "has_next ?q" using assms(2) by (auto simp: has_next_def query_id_consts)
  then have "pick_query_id s b = map_err (\<lambda>_. ConstructionError) (hlq_next ?q)"
    using pick_query_id_valid [OF assms(1)] by (simp add: Let_def)
  moreover have "unat (s + 1) = Suc (unat s)" using assms(2) by (simp add: unat_word_ariths)
  ultimately show thesis
    using hlq_next_cases [OF assms(1)] assms(2) that by (auto split: if_splits)
qed

lemma force_shift_room:
  assumes "valid_query_id \<lparr>shift = s, bitnumber = b\<rparr>" "unat s < 8190"
  shows "unat (force_shift s) = Suc (unat s)"
proof -
  have s1: "unat (s + 1) = Suc (unat s)" using assms(2) by (simp add: unat_word_ariths)
  have "\<not> sint s < 0" using valid_sint [OF assms(1)] by simp
  moreover have "sint (s + 1) = int (unat (s + 1))" using s1 assms(2) by (intro sint_small) simp
  moreover have "sint MAX_SHIFT = 8191" by (simp add: MAX_SHIFT_def)
  ultimately have "\<not> sint s < 0" "sint (s + 1) < sint MAX_SHIFT" using s1 assms(2) by linarith+
  then show ?thesis using s1 by (simp add: force_shift_def)
qed

lemma wrapper_next_room:
  assumes "table_ok tbl" "live_row tbl a now = Some row" "unat (row_shift row) < 8190"
  obtains q where "valid_query_id q" "wrapper_next True True now tbl a timeout f =
      (Inr q, tbl(a \<mapsto> row\<lparr>row_shift := shift q, row_bitnumber := bitnumber q, row_updated_at := Some now\<rparr>))"
    "unat (row_shift row) + (if f then 1 else 0) \<le> unat (shift q)" "unat (shift q) \<le> unat (row_shift row) + 2"
proof -
  let ?s = "if f then force_shift (row_shift row) else row_shift row" and ?b = "row_bitnumber row"
  have v: "valid_query_id \<lparr>shift = row_shift row, bitnumber = ?b\<rparr>"
    using assms(1,2) by (auto simp: live_row_Some table_ok_def row_id_def)
  have vs: "valid_query_id \<lparr>shift = ?s, bitnumber = ?b\<rparr>" using v force_shift_valid(1) [OF v] by simp
  have s: "unat ?s = unat (row_shift row) + (if f then 1 else 0)" using force_shift_room [OF v assms(3)] by simp
  then obtain q where q: "pick_query_id ?s ?b = Inr q" "unat ?s \<le> unat (shift q)" "unat (shift q) \<le> Suc (unat ?s)"
    using pick_query_id_room [OF vs, of thesis] assms(3) by (auto split: if_splits)
  obtain res tbl' where w: "wrapper_next True True now tbl a timeout f = (res, tbl')" by fastforce
  moreover have "tbl a = Some row" using assms(2) by (simp add: live_row_Some)
  ultimately have "res = Inr q"
    using q(1) assms(2) by (auto simp: wrapper_next_def get_query_id_live upsert_query_id_def update_query_id_def Let_def
        split: if_splits)
  note live = wrapper_next_live [OF assms(1,2) w [unfolded this]]
  show thesis
    by (rule that [OF live(1)]) (use w \<open>res = Inr q\<close> live(3) q(2,3) s in \<open>simp_all split: if_splits\<close>)
qed

lemma query_id_ge_shift: "valid_query_id q \<Longrightarrow> unat (query_id q) = 1024 * unat (shift q) + unat (bitnumber q)"
  by (simp add: unat_query_id)

section \<open>The answer to a post\<close>

text \<open>
  The ids in \<open>used\<close> are known to the wallet contract: a post with one of them may be answered
  with \<open>already executed\<close>, any other is answered with a response.
\<close>

definition refuses_only ::
    "crates \<Rightarrow> ('c, 'p, 'b) tonlib \<Rightarrow> gas_estimates \<Rightarrow> ton_wallet_high_load_v3 \<Rightarrow> 'c out_action list \<Rightarrow> u64 set \<Rightarrow> attempt \<Rightarrow> bool" where
  "refuses_only X T ge v actions used at \<longleftrightarrow>
     (\<forall>n boc. boc_of_id X T ge (at_unix at) v actions n = Inr boc \<longrightarrow>
        is_ok (at_answer at boc) \<or> (n \<in> used \<and> already_executed (at_answer at boc)))"

text \<open>An attempt that finds the database, the session and the library working.\<close>

definition healthy ::
    "crates \<Rightarrow> ('c, 'p, 'b) tonlib \<Rightarrow> gas_estimates \<Rightarrow> ton_wallet_high_load_v3 \<Rightarrow> 'c out_action list \<Rightarrow> int \<Rightarrow> attempt \<Rightarrow> bool" where
  "healthy X T ge v actions until at \<longleftrightarrow> at_read_ok at \<and> at_write_ok at \<and> at_now at \<le> until
     \<and> (\<forall>n. unat n < 2 ^ 22 \<longrightarrow> (\<exists>boc. boc_of_id X T ge (at_unix at) v actions n = Inr boc))"

section \<open>Retries\<close>

lemma one_attempt:
  assumes "table_ok (query_ids st)" "query_ids st (wallet_key X v) = Some row" "unat (row_shift row) + 2 < 4096"
    and "healthy X T ge v actions (row_expires_at row) (env 0)"
    and "refuses_only X T ge v actions used (env 0)"
  obtains q row' st' where "valid_query_id q" "row_expires_at row' = row_expires_at row" "row_shift row' = shift q"
    "table_ok (query_ids st')" "query_ids st' (wallet_key X v) = Some row'"
    "unat (row_shift row) + (if r = None then 0 else 1) \<le> unat (shift q)" "unat (shift q) \<le> unat (row_shift row) + 2"
    "query_id q \<notin> used \<Longrightarrow> \<exists>resp. send_to_chain X T ge env v actions r st = (Inr resp, st')"
    "next_retries r = Some r' \<Longrightarrow> (\<exists>resp. send_to_chain X T ge env v actions r st = (Inr resp, st'))
       \<or> send_to_chain X T ge env v actions r st = send_to_chain X T ge (env \<circ> Suc) v actions (Some r') st'"
proof -
  let ?a = "wallet_key X v" and ?at = "env 0" and ?f = "r \<noteq> None"
  have h: "at_read_ok ?at" "at_write_ok ?at" "at_now ?at \<le> row_expires_at row"
    using assms(4) by (simp_all add: healthy_def)
  have "live_row (query_ids st) ?a (at_now ?at) = Some row" using assms(2) h(3) by (simp add: live_row_Some)
  moreover have "unat (row_shift row) < 8190" using assms(3) by simp
  ultimately obtain q where q: "valid_query_id q" "wrapper_next True True (at_now ?at) (query_ids st) ?a (wallet_timeout v) ?f =
      (Inr q, (query_ids st)(?a \<mapsto> row\<lparr>row_shift := shift q, row_bitnumber := bitnumber q, row_updated_at := Some (at_now ?at)\<rparr>))"
    "unat (row_shift row) + (if ?f then 1 else 0) \<le> unat (shift q)" "unat (shift q) \<le> unat (row_shift row) + 2"
    using wrapper_next_room [OF assms(1), of ?a "at_now ?at" row "wallet_timeout v" ?f thesis] by metis
  let ?row = "row\<lparr>row_shift := shift q, row_bitnumber := bitnumber q, row_updated_at := Some (at_now ?at)\<rparr>"
  have "unat (query_id q) < 2 ^ 22"
    using query_id_ge_shift [OF q(1)] q(1,4) assms(3) by (simp add: valid_query_id_unat)
  then obtain boc where boc: "boc_of_id X T ge (at_unix ?at) v actions (query_id q) = Inr boc"
    using assms(4) by (auto simp: healthy_def)
  let ?st = "st\<lparr>query_ids := (query_ids st)(?a \<mapsto> ?row), posted := posted st @ [boc]\<rparr>"
  have prep: "prepare_boc X T ge ?at v actions ?f (query_ids st) = (Inr boc, (query_ids st)(?a \<mapsto> ?row))"
    using q(2) h(1,2) boc by (simp add: prepare_boc_id)
  have ok: "table_ok (query_ids ?st)" using wrapper_next_table_ok [OF assms(1) q(2)] by simp
  have ans: "(\<exists>resp. at_answer ?at boc = Inr resp) \<or> (query_id q \<in> used \<and> already_executed (at_answer ?at boc))"
    using assms(5) boc unfolding refuses_only_def is_ok_iff by blast
  have yes: "send_to_chain X T ge env v actions r st = (Inr resp, ?st)" if "at_answer ?at boc = Inr resp" for resp
    using that prep by (simp add: send_to_chain.simps [of X T ge env v actions r st] Let_def)
  have no: "send_to_chain X T ge env v actions r st = send_to_chain X T ge (env \<circ> Suc) v actions (Some r') ?st"
    if "already_executed (at_answer ?at boc)" "next_retries r = Some r'"
    using that prep by (auto simp: send_to_chain.simps [of X T ge env v actions r st] Let_def already_executed_def split: sum.splits)
  show thesis
  proof (rule that [of q ?row ?st])
    show "\<exists>resp. send_to_chain X T ge env v actions r st = (Inr resp, ?st)" if "query_id q \<notin> used"
      using ans yes that by blast
    show "(\<exists>resp. send_to_chain X T ge env v actions r st = (Inr resp, ?st))
       \<or> send_to_chain X T ge env v actions r st = send_to_chain X T ge (env \<circ> Suc) v actions (Some r') ?st"
      if "next_retries r = Some r'" using ans yes no [OF _ that] by blast
  qed (use q ok in \<open>simp_all split: if_splits\<close>)
qed

text \<open>
  A retry with \<open>r\<close> more to come makes \<open>r + 1\<close> attempts, the last of them at least as many
  shifts up.
\<close>

lemma retries_recover:
  assumes "table_ok (query_ids st)" "query_ids st (wallet_key X v) = Some row" "unat (row_shift row) + 2 * Suc (unat r) < 4096"
    and "\<forall>i. healthy X T ge v actions (row_expires_at row) (env i)"
    and "\<forall>i. refuses_only X T ge v actions used (env i)"
    and "\<forall>n \<in> used. unat n < 1024 * (unat (row_shift row) + Suc (unat r))"
  shows "is_ok (fst (send_to_chain X T ge env v actions (Some r) st))"
  using assms
proof (induction "unat r" arbitrary: r st row env)
  case 0
  note h = spec [OF "0.prems"(4), of 0] spec [OF "0.prems"(5), of 0]
  show ?case
  proof (rule one_attempt [where env = env and r = "Some r" and r' = r, OF "0.prems"(1,2) _ h])
    show "unat (row_shift row) + 2 < 4096" using "0.prems"(3) "0.hyps" by simp
    fix q row' st'
    assume q: "valid_query_id q" "unat (row_shift row) + (if Some r = None then 0 else 1) \<le> unat (shift q)"
      and ok: "query_id q \<notin> used \<Longrightarrow> \<exists>resp. send_to_chain X T ge env v actions (Some r) st = (Inr resp, st')"
    have "\<not> unat (query_id q) < 1024 * (unat (row_shift row) + Suc (unat r))"
      using query_id_ge_shift [OF q(1)] q(2) "0.hyps" by simp
    with "0.prems"(6) have "query_id q \<notin> used" by blast
    from ok [OF this] show ?case by auto
  qed
next
  case (Suc k)
  note h = spec [OF Suc.prems(4), of 0] spec [OF Suc.prems(5), of 0]
  have "r \<noteq> 0" using Suc.hyps(2) by auto
  have r: "next_retries (Some r) = Some (r - 1)" "unat (r - 1) = k"
    using \<open>r \<noteq> 0\<close> Suc.hyps(2) by (simp_all add: next_retries_def unat_minus_one word_gt_0)
  show ?case
  proof (rule one_attempt [where env = env and r = "Some r" and r' = "r - 1", OF Suc.prems(1,2) _ h])
    show "unat (row_shift row) + 2 < 4096" using Suc.prems(3) by simp
    fix q row' st'
    assume q: "row_expires_at row' = row_expires_at row" "row_shift row' = shift q" "table_ok (query_ids st')"
        "query_ids st' (wallet_key X v) = Some row'"
        "unat (row_shift row) + (if Some r = None then 0 else 1) \<le> unat (shift q)" "unat (shift q) \<le> unat (row_shift row) + 2"
      and step: "next_retries (Some r) = Some (r - 1) \<Longrightarrow>
        (\<exists>resp. send_to_chain X T ge env v actions (Some r) st = (Inr resp, st'))
        \<or> send_to_chain X T ge env v actions (Some r) st = send_to_chain X T ge (env \<circ> Suc) v actions (Some (r - 1)) st'"
    have "is_ok (fst (send_to_chain X T ge (env \<circ> Suc) v actions (Some (r - 1)) st'))"
    proof (rule Suc.hyps(1) [OF r(2) [symmetric] q(3,4)])
      show "unat (row_shift row') + 2 * Suc (unat (r - 1)) < 4096" using Suc.prems(3) q(2,6) r(2) Suc.hyps(2) by simp
      have "1024 * (unat (row_shift row) + Suc (unat r)) \<le> 1024 * (unat (row_shift row') + Suc (unat (r - 1)))"
        using q(2,5) r(2) Suc.hyps(2) by simp
      then show "\<forall>n \<in> used. unat n < 1024 * (unat (row_shift row') + Suc (unat (r - 1)))"
        using Suc.prems(6) by (meson less_le_trans)
      show "\<forall>i. healthy X T ge v actions (row_expires_at row') ((env \<circ> Suc) i)"
        "\<forall>i. refuses_only X T ge v actions used ((env \<circ> Suc) i)"
        using Suc.prems(4,5) by (simp_all add: q(1))
    qed
    with step [OF r(1)] show ?case by auto
  qed
qed

section \<open>Properties\<close>

text \<open>A message is built when the library builds its parts.\<close>

lemma boc_of_id_built:
  assumes tn: "ton_numbers T V" and "length actions \<le> 254" "unat n < 2 ^ 22" "unat (wallet_timeout v) < 2 ^ 21"
    and ol: "\<exists>ob oc. write_out_list T actions (new_builder T) = Inr ob \<and> build_cell T ob = Inr oc"
    and tm: "\<And>im c. is_ok (transfer_message T im c)" and sg: "\<And>h k. \<exists>s. nacl_signature T h k = Inr s \<and> length s = 64"
    and ei: "\<And>a fee c. is_ok (ext_in_message T a fee c)" and ser: "\<And>c. is_ok (boc_serialize T c)"
  shows "\<exists>boc. boc_of_id X T ge unix v actions n = Inr boc"
proof -
  let ?amount = "unat (highload_wallet_send ge (word_of_nat (length actions)))"
  from ol obtain body where body: "internal_transfer_body T actions n = Inr body"
    using ton_numbers.internal_transfer_body_cell [OF tn, of actions _ _ n] assms(2) by (auto simp: MAX_ACTIONS_def)
  from tm obtain tr where tr: "internal_transfer_message_cell T v body ?amount = Inr tr"
    unfolding internal_transfer_message_cell_def by (metis is_ok_def old.sum.exhaust sum.case(1))
  obtain inner where inner: "message_inner T v tr SEND_MODE_IGNORE_ERRORS n (created_at unix v) (wallet_timeout v) = Inr inner"
    using ton_numbers.message_inner_cell [OF tn assms(3,4)] by blast
  from sg obtain sig where "nacl_signature T (cell_hash T inner) (kp_secret_key (wallet_key_pair v)) = Inr sig" "length sig = 64"
    by blast
  then obtain signed where signed: "sign_external_body T v inner = Inr signed"
    using ton_numbers.sign_external_body_cell [OF tn] by blast
  from ei obtain m where m: "wrap_signed_body T v signed = Inr m"
    unfolding wrap_signed_body_def by (metis is_ok_def old.sum.exhaust sum.case(1))
  from ser obtain bytes where "boc_serialize T m = Inr bytes" by (metis is_ok_def old.sum.exhaust sum.case(1))
  with body tr inner signed m show ?thesis by (simp add: boc_of_id_def outgoing_message_def)
qed

lemma boc_of_id_stores:
  assumes "boc_of_id X T ge unix v actions n = Inr boc"
  shows "\<exists>b. is_ok (store_int T 23 (uint n) b)"
proof -
  obtain m where "outgoing_message T unix v actions n (unat (highload_wallet_send ge (word_of_nat (length actions)))) = Inr m"
    using assms by (auto simp: boc_of_id_def and_then_eq_Inr_iff split: sum.splits exn.splits)
  then obtain d mode t timeout c where "message_inner T v d mode n t timeout = Inr c"
    by (auto simp: outgoing_message_def and_then_eq_Inr_iff map_err_eq_Inr_iff)
  then obtain b b' where "store_int T 23 (uint n) b = Inr b'"
    by (auto simp: message_inner_def and_then_eq_Inr_iff)
  then show ?thesis by (metis is_ok_Inr)
qed

text \<open>
  Claim C7: the retries of a send recover from used ids. The wallet has a live session and room for
  24 more shifts below 4096, the database answers until the session ends, the library builds the
  messages, and a post is refused only as already executed and only for an id in \<open>used\<close>. If the
  used ids reach at most ten shifts above the stored one, left there by another deployment or by
  a reset, the send succeeds: the first attempt and its eleven retries, each at least one shift
  up, get past them.
\<close>

theorem send_recovers:
  assumes "table_ok (query_ids st)" "query_ids st (wallet_key X v) = Some row" "unat (row_shift row) + 24 < 4096"
    and "\<forall>i. healthy X T ge v actions (row_expires_at row) (env i)"
    and "\<forall>i. refuses_only X T ge v actions used (env i)"
    and "\<forall>n \<in> used. unat n < 1024 * (unat (row_shift row) + 11)"
  shows "\<exists>resp st'. send_to_chain X T ge env v actions None st = (Inr resp, st')"
proof (rule one_attempt [where env = env and r = None and r' = 10, OF assms(1,2) _ spec [OF assms(4)] spec [OF assms(5)]])
  show "unat (row_shift row) + 2 < 4096" using assms(3) by simp
  fix q row' st'
  assume q: "row_expires_at row' = row_expires_at row" "row_shift row' = shift q" "table_ok (query_ids st')"
      "query_ids st' (wallet_key X v) = Some row'" "unat (row_shift row) + (if (None :: u32 option) = None then 0 else 1) \<le> unat (shift q)"
      "unat (shift q) \<le> unat (row_shift row) + 2"
    and step: "next_retries None = Some 10 \<Longrightarrow> (\<exists>resp. send_to_chain X T ge env v actions None st = (Inr resp, st'))
      \<or> send_to_chain X T ge env v actions None st = send_to_chain X T ge (env \<circ> Suc) v actions (Some 10) st'"
  have "is_ok (fst (send_to_chain X T ge (env \<circ> Suc) v actions (Some 10) st'))"
  proof (rule retries_recover [OF q(3,4)])
    show "unat (row_shift row') + 2 * Suc (unat (10 :: u32)) < 4096" using assms(3) q(2,6) by simp
    have "1024 * (unat (row_shift row) + 11) \<le> 1024 * (unat (row_shift row') + Suc (unat (10 :: u32)))" using q(2,5) by simp
    then show "\<forall>n \<in> used. unat n < 1024 * (unat (row_shift row') + Suc (unat (10 :: u32)))"
      using assms(6) by (meson less_le_trans)
    show "\<forall>i. healthy X T ge v actions (row_expires_at row') ((env \<circ> Suc) i)"
      "\<forall>i. refuses_only X T ge v actions used ((env \<circ> Suc) i)"
      using assms(4,5) by (simp_all add: q(1))
  qed
  then obtain resp s where "send_to_chain X T ge (env \<circ> Suc) v actions (Some 10) st' = (Inr resp, s)"
    by (cases "send_to_chain X T ge (env \<circ> Suc) v actions (Some 10) st'") (auto simp: is_ok_def split: sum.splits)
  with step show ?thesis by (auto simp: next_retries_def)
qed

text \<open>
  A wallet that stored the id 1, an indexer that answers every post, and a library that prints the
  signed part of a message bit by bit.
\<close>

definition sample_live_state :: "redis_mem broadcast_state" where
  "sample_live_state = \<lparr>locks = Map.empty, query_ids = [sample_key 65 \<mapsto> sample_row], posted = []\<rparr>"

definition sample_attempt :: attempt where
  "sample_attempt = \<lparr>at_now = 9 * SECOND, at_unix = 1000, at_read_ok = True, at_write_ok = True,
     at_answer = (\<lambda>_. Inr \<lparr>message_hash = ''h'', message_hash_norm = ''h''\<rparr>)\<rparr>"

fun signed_bits :: "rcell \<Rightarrow> bool list" where
  "signed_bits m = (case rc_refs m of [] \<Rightarrow> [] | ext # _ \<Rightarrow> (case rc_refs ext of [] \<Rightarrow> [] | inner # _ \<Rightarrow> rc_bits inner))"

definition printing_tonlib :: "(rcell, rparser, rparser) tonlib" where
  "printing_tonlib = (tree_tonlib Inl)\<lparr>boc_serialize := (\<lambda>m. Inr (map (\<lambda>b. if b then 1 else 0) (signed_bits m)))\<rparr>"

abbreviation sample_boc :: "u64 \<Rightarrow> broadcaster_error exn + string" where
  "sample_boc \<equiv> boc_of_id sample_crates printing_tonlib sample_gas_estimates 1000 (sample_wallet 65) [SendMsg 2 (leaf [])]"

lemma printing_numbers: "ton_numbers printing_tonlib tree_view"
proof -
  have "ton_numbers (T\<lparr>boc_serialize := f\<rparr>) V = ton_numbers T V" for T :: "(rcell, rparser, rparser) tonlib" and f V
    by (cases T) (simp only: ton_numbers_def ton_numbers_axioms_def ton_cells_def tonlib.simps)
  then show ?thesis unfolding printing_tonlib_def using tree.ton_numbers_axioms by blast
qed

lemma sample_boc_built: "unat n < 2 ^ 22 \<Longrightarrow> \<exists>boc. sample_boc n = Inr boc"
  by (rule boc_of_id_built [OF printing_numbers]) (auto simp: printing_tonlib_def tree_tonlib_def sample_wallet_def)

definition sample_bits :: "u64 \<Rightarrow> bool list" where
  "sample_bits n = bits_be 32 (unat (subwallet_id (sample_wallet 65))) @ bits_be 8 (unat SEND_MODE_IGNORE_ERRORS) @ bits_be 23 (unat n)
     @ bits_be 64 (unat (created_at 1000 (sample_wallet 65))) @ bits_be 22 (unat (wallet_timeout (sample_wallet 65)))"

definition print_bit :: "bool \<Rightarrow> char" where
  "print_bit b = char_of_byte (if b then 1 else 0)"

lemma sample_boc_printed:
  assumes "sample_boc n = Inr boc"
  shows "unat n < 2 ^ 22" "boc = map print_bit (sample_bits n)"
proof -
  let ?T = printing_tonlib and ?v = "sample_wallet 65"
  obtain b where "is_ok (store_int ?T 23 (uint n) b)" using boc_of_id_stores [OF assms] by blast
  then have "uint n < 2 ^ 22" by (auto simp: printing_tonlib_def tree_tonlib_def is_ok_def split: if_splits)
  then have "int (unat n) < int (2 ^ 22)" unfolding uint_nat by simp
  then show n: "unat n < 2 ^ 22" by (simp only: of_nat_less_iff)
  have ser: "boc_serialize ?T c = Inr (map (\<lambda>b. if b then 1 else 0) (signed_bits c))" "base64_encode sample_crates bs = str_of_bytes bs" for c bs
    by (simp_all add: printing_tonlib_def sample_crates_def del: signed_bits.simps)
  obtain amount m where m: "outgoing_message ?T 1000 ?v [SendMsg 2 (leaf [])] n amount = Inr m"
      "boc = str_of_bytes (map (\<lambda>b. if b then 1 else 0) (signed_bits m))"
    using assms by (auto simp: boc_of_id_def and_then_eq_Inr_iff map_err_eq_Inr_iff ser simp del: signed_bits.simps
        split: sum.splits exn.splits)
  from m(1) obtain tr inner ext where built:
      "message_inner ?T ?v tr SEND_MODE_IGNORE_ERRORS n (created_at 1000 ?v) (wallet_timeout ?v) = Inr inner"
      "sign_external_body ?T ?v inner = Inr ext" "wrap_signed_body ?T ?v ext = Inr m"
    by (auto simp: outgoing_message_def and_then_eq_Inr_iff map_err_eq_Inr_iff)
  have "unat (wallet_timeout ?v) < 2 ^ 21" by (simp add: sample_wallet_def)
  then obtain c where "message_inner ?T ?v tr SEND_MODE_IGNORE_ERRORS n (created_at 1000 ?v) (wallet_timeout ?v) = Inr c"
      "bits_of tree_view c = sample_bits n"
    using ton_numbers.message_inner_cell [OF printing_numbers n, of _ ?v tr SEND_MODE_IGNORE_ERRORS "created_at 1000 ?v"]
    unfolding sample_bits_def by metis
  then have "bits_of tree_view inner = sample_bits n" using built(1) by (simp only: sum.inject)
  moreover have "nacl_signature ?T h k = Inr (replicate 64 0)" for h k by (simp add: printing_tonlib_def tree_tonlib_def)
  then obtain c where "sign_external_body ?T ?v inner = Inr c" "refs_of tree_view c = [inner]"
    using ton_numbers.sign_external_body_cell [OF printing_numbers, of inner ?v "replicate 64 0"] by (metis length_replicate)
  then have "refs_of tree_view ext = [inner]" using built(2) by (simp only: sum.inject)
  moreover have "rc_refs m = [ext]" using built(3) by (auto simp: wrap_signed_body_def printing_tonlib_def tree_tonlib_def)
  ultimately have "signed_bits m = sample_bits n" by (simp add: tree_view_def)
  then show "boc = map print_bit (sample_bits n)" using m(2) by (simp only: str_of_bytes_def map_map comp_def print_bit_def [abs_def])
qed

lemma sample_boc_inject:
  assumes "sample_boc n = Inr boc" "sample_boc n' = Inr boc"
  shows "n = n'"
proof -
  have "inj print_bit" by (auto simp: inj_def print_bit_def split: if_splits)
  moreover have "map print_bit (sample_bits n) = map print_bit (sample_bits n')"
    using sample_boc_printed(2) [OF assms(1)] sample_boc_printed(2) [OF assms(2)] by (rule subst)
  ultimately have "sample_bits n = sample_bits n'" by (simp only: inj_map_eq_map)
  then have "bits_be 23 (unat n) = bits_be 23 (unat n')"
    unfolding sample_bits_def by (simp only: same_append_eq append_eq_append_conv length_bits_be disj_commute refl simp_thms)
  moreover have "unat n < 2 ^ 23" "unat n' < 2 ^ 23"
    using sample_boc_printed(1) [OF assms(1)] sample_boc_printed(1) [OF assms(2)] by simp_all
  ultimately have "unat n = unat n'" by (metis bits_val_be_small)
  then show ?thesis by (simp add: word_unat_eq_iff)
qed

text \<open>The indexer refuses the message with the id 2, the first that the wallet is issued.\<close>

definition refusing_attempt :: "string \<Rightarrow> attempt" where
  "refusing_attempt b = sample_attempt\<lparr>at_answer :=
     (\<lambda>boc. if boc = b then Inl HIGHLOAD_WALLET_ALREADY_EXECUTED else Inr \<lparr>message_hash = ''h'', message_hash_norm = ''h''\<rparr>)\<rparr>"

lemma send_recovers_witness:
  "\<exists>b tbl resp st'. prepare_boc sample_crates printing_tonlib sample_gas_estimates (refusing_attempt b) (sample_wallet 65)
       [SendMsg 2 (leaf [])] False (query_ids sample_live_state) = (Inr b, tbl)
     \<and> already_executed (at_answer (refusing_attempt b) b)
     \<and> send_to_chain sample_crates printing_tonlib sample_gas_estimates (\<lambda>_. refusing_attempt b) (sample_wallet 65)
         [SendMsg 2 (leaf [])] None sample_live_state = (Inr resp, st')"
proof -
  obtain b where b: "sample_boc 2 = Inr b" using sample_boc_built [of 2] by auto
  let ?at = "refusing_attempt b"
  have at: "at_now ?at = 9 * SECOND" "at_unix ?at = 1000" "at_read_ok ?at" "at_write_ok ?at"
    by (simp_all add: refusing_attempt_def sample_attempt_def)
  have key: "wallet_key sample_crates (sample_wallet 65) = sample_key 65"
    by (simp add: wallet_key_def sample_simps sample_key_def)
  have refused: "already_executed (at_answer ?at b)"
    by (simp add: refusing_attempt_def already_executed_def HIGHLOAD_WALLET_ALREADY_EXECUTED_def)
  have "\<exists>resp st'. send_to_chain sample_crates printing_tonlib sample_gas_estimates (\<lambda>_. ?at) (sample_wallet 65)
      [SendMsg 2 (leaf [])] None sample_live_state = (Inr resp, st')"
  proof (rule send_recovers [where row = sample_row and used = "{2}"])
    show "table_ok (query_ids sample_live_state)"
      by (auto simp: sample_live_state_def table_ok_def sample_row_def row_id_def valid_query_id_def query_id_consts split: if_splits)
    show "query_ids sample_live_state (wallet_key sample_crates (sample_wallet 65)) = Some sample_row"
      by (simp add: key sample_live_state_def)
    show "unat (row_shift sample_row) + 24 < 4096" by (simp add: sample_row_def)
    show "\<forall>i. healthy sample_crates printing_tonlib sample_gas_estimates (sample_wallet 65) [SendMsg 2 (leaf [])]
        (row_expires_at sample_row) ?at"
      using sample_boc_built at by (simp add: healthy_def sample_row_def SECOND_def)
    have "is_ok (at_answer ?at boc) \<or> (n = 2 \<and> already_executed (at_answer ?at boc))" if "sample_boc n = Inr boc" for n boc
    proof (cases "boc = b")
      case True
      then have "n = 2" using sample_boc_inject that b by blast
      with True refused show ?thesis by simp
    qed (simp add: refusing_attempt_def)
    then show "\<forall>i. refuses_only sample_crates printing_tonlib sample_gas_estimates (sample_wallet 65) [SendMsg 2 (leaf [])] {2} ?at"
      by (simp add: refuses_only_def at(2))
    show "\<forall>n \<in> {2}. unat n < 1024 * (unat (row_shift sample_row) + 11)" by (simp add: sample_row_def)
  qed
  moreover obtain tbl where "wrapper_next True True (9 * SECOND) [sample_key 65 \<mapsto> sample_row] (sample_key 65)
      (wallet_timeout (sample_wallet 65)) False = (Inr \<lparr>shift = 0, bitnumber = 2\<rparr>, tbl)"
    by (simp add: wrapper_eval)
  then have "prepare_boc sample_crates printing_tonlib sample_gas_estimates ?at (sample_wallet 65)
      [SendMsg 2 (leaf [])] False (query_ids sample_live_state) = (Inr b, tbl)"
    using b by (simp add: prepare_boc_id at key sample_live_state_def query_id_def)
  ultimately show ?thesis using refused by blast
qed

text \<open>
  Claim C35: the upper half of the query ids is never sent. The wallet stores the id as a signed
  number of 23 bits, and the library refuses a value that needs the sign bit. So from shift 4096
  on, half of \<open>MAX_SHIFT\<close>, every send of a wallet fails before it posts anything, with an error
  that is not retried, as long as its session lives.
\<close>

theorem upper_ids_unsendable:
  assumes "\<forall>n b. 2 ^ 22 \<le> n \<longrightarrow> \<not> is_ok (store_int T 23 n b)" and "length actions \<le> 254"
    and "table_ok (query_ids st)" "live_row (query_ids st) (wallet_key X v) (at_now (env 0)) = Some row"
    and "4096 \<le> unat (row_shift row)"
  shows "\<exists>e st'. send_to_chain X T ge env v actions r st = (Inl (Err e), st') \<and> posted st' = posted st"
proof -
  obtain p tbl where prep: "prepare_boc X T ge (env 0) v actions (r \<noteq> None) (query_ids st) = (p, tbl)" by fastforce
  have "p \<noteq> Inr boc" for boc
  proof
    assume "p = Inr boc"
    then obtain q where w: "wrapper_next (at_read_ok (env 0)) (at_write_ok (env 0)) (at_now (env 0)) (query_ids st)
        (wallet_key X v) (wallet_timeout v) (r \<noteq> None) = (Inr q, tbl)"
      and boc: "boc_of_id X T ge (at_unix (env 0)) v actions (query_id q) = Inr boc"
      using prep by (cases "wrapper_next (at_read_ok (env 0)) (at_write_ok (env 0)) (at_now (env 0)) (query_ids st)
        (wallet_key X v) (wallet_timeout v) (r \<noteq> None)") (auto simp: prepare_boc_id split: sum.splits)
    have "valid_query_id (row_id row)" using assms(3,4) unfolding table_ok_def live_row_Some by blast
    then have "unat (query_id (row_id row)) = 1024 * unat (row_shift row) + unat (row_bitnumber row)"
      using query_id_ge_shift [of "row_id row"] by (simp only: row_id_def high_load_query_id.select_convs)
    moreover have "unat (query_id (row_id row)) < unat (query_id q)" by (rule wrapper_next_live(2) [OF assms(3,4) w])
    ultimately have "4194304 \<le> unat (query_id q)" using assms(5) by linarith
    moreover have "uint (query_id q) = int (unat (query_id q))" by (rule uint_nat)
    moreover have "(2 :: int) ^ 22 = 4194304" by simp
    ultimately have "2 ^ 22 \<le> uint (query_id q)" by linarith
    with assms(1) boc_of_id_stores [OF boc] show False by blast
  qed
  moreover have "p \<noteq> Inl Panicked" using prepare_boc_panics [OF assms(2)] prep by (metis fst_conv)
  ultimately obtain e where "p = Inl (Err e)" by (metis exn.exhaust sum.exhaust)
  with prep show ?thesis by (simp add: send_to_chain.simps [of X T ge env v actions r st])
qed

lemma upper_ids_unsendable_witness:
  "\<exists>e st'. send_to_chain sample_crates (tree_tonlib Inl) sample_gas_estimates (\<lambda>_. sample_attempt) (sample_wallet 65)
     [SendMsg 2 (leaf [])] None
     (sample_live_state\<lparr>query_ids := [sample_key 65 \<mapsto> sample_row\<lparr>row_shift := 4096\<rparr>]\<rparr>) = (Inl (Err e), st') \<and> posted st' = []"
proof -
  let ?row = "sample_row\<lparr>row_shift := 4096\<rparr>"
  let ?st = "sample_live_state\<lparr>query_ids := [sample_key 65 \<mapsto> ?row]\<rparr>"
  have "\<forall>n b. 2 ^ 22 \<le> n \<longrightarrow> \<not> is_ok (store_int (tree_tonlib Inl) 23 n b)" by (simp add: tree_tonlib_def)
  moreover have "table_ok (query_ids ?st)"
    by (auto simp: table_ok_def sample_row_def row_id_def valid_query_id_def query_id_consts split: if_splits)
  moreover have "live_row (query_ids ?st) (wallet_key sample_crates (sample_wallet 65)) (at_now ((\<lambda>_ :: nat. sample_attempt) 0)) = Some ?row"
    by (simp add: live_row_def wallet_key_def sample_simps sample_key_def sample_row_def sample_attempt_def SECOND_def)
  ultimately have "\<exists>e st'. send_to_chain sample_crates (tree_tonlib Inl) sample_gas_estimates (\<lambda>_. sample_attempt) (sample_wallet 65)
      [SendMsg 2 (leaf [])] None ?st = (Inl (Err e), st') \<and> posted st' = posted ?st"
    by (intro upper_ids_unsendable [where row = ?row]) simp_all
  then show ?thesis by (simp add: sample_live_state_def)
qed

end
