(* ===== verification/Recognition.thy ===== *)
theory Recognition
  imports Trace_Parser
begin

text \<open>
  Which parser of \<open>src/src/transaction_parser/parser.rs\<close> takes which transaction. The chain of
  \<open>create_parsers\<close> is summed up in one function, \<open>kind_of\<close>, that looks at the transaction
  only: the kinds are tried in the order of the code and the first match wins. One step of the
  loop then adds exactly one parser object of that kind, with the decoded log, and the loop fills
  each collection with the objects of its kinds, in the order of the trace. At the end, when
  parsing a trace panics.
\<close>

section \<open>Kinds of transactions\<close>

datatype log_kind =
    Call_Log | Execution_Log | Approval_Log | Payment_Log | Top_Up_Log | Jetton_Top_Up_Log | Jetton_Payment_Log
  | Refund_Log | Metadata_Log | Deployment_Log | Transfer_Log | Link_Log | Rotation_Log

text \<open>The message that holds the log of each kind.\<close>

fun source_of ::
    "('c, 'p, 'b) tonlib \<Rightarrow> trace_parser \<Rightarrow> log_kind \<Rightarrow> transaction \<Rightarrow> transaction_message option" where
  "source_of T E Call_Log = in_opcode_source {OP_CALL_CONTRACT} 0 (tp_gateway_address E)"
| "source_of T E Execution_Log = executed_source (tp_gateway_address E)"
| "source_of T E Approval_Log = in_opcode_source {OP_MESSAGE_APPROVED} 0 (tp_gateway_address E)"
| "source_of T E Payment_Log =
     in_opcode_source {OP_PAY_NATIVE_GAS_FOR_CONTRACT_CALL, OP_PAY_GAS} 0 (tp_gas_service_address E)"
| "source_of T E Top_Up_Log = in_opcode_source {OP_ADD_NATIVE_GAS} 0 (tp_gas_service_address E)"
| "source_of T E Jetton_Top_Up_Log = jetton_source (jetton_gas_added_from_boc_b64 T) (tp_gas_service_address E)"
| "source_of T E Jetton_Payment_Log = jetton_source (jetton_gas_paid_from_boc_b64 T) (tp_gas_service_address E)"
| "source_of T E Refund_Log = in_opcode_source {OP_NATIVE_REFUND} 1 (tp_gas_service_address E)"
| "source_of T E Metadata_Log = in_opcode_source {OP_REGISTER_TOKEN_METADATA} 0 (tp_its_address E)"
| "source_of T E Deployment_Log = position_source OP_INTERCHAIN_TOKEN_DEPLOYMENT_STARTED_LOG (tp_its_address E)"
| "source_of T E Transfer_Log = position_source OP_INTERCHAIN_TRANSFER_LOG (tp_its_address E)"
| "source_of T E Link_Log = position_source OP_LINK_TOKEN_STARTED_LOG (tp_its_address E)"
| "source_of T E Rotation_Log = position_source OP_SIGNERS_ROTATED_LOG (tp_gateway_address E)"

text \<open>The order in which the kinds are tried.\<close>

definition kinds_in_order :: "log_kind list" where
  "kinds_in_order =
     [Call_Log, Execution_Log, Approval_Log, Payment_Log, Top_Up_Log, Jetton_Top_Up_Log, Jetton_Payment_Log,
      Refund_Log, Metadata_Log, Deployment_Log, Transfer_Log, Link_Log, Rotation_Log]"

definition kind_of :: "('c, 'p, 'b) tonlib \<Rightarrow> trace_parser \<Rightarrow> transaction \<Rightarrow> log_kind option" where
  "kind_of T E tx = find (\<lambda>k. source_of T E k tx \<noteq> None) kinds_in_order"

fun parser_log_kind :: "dyn_parser \<Rightarrow> log_kind option" where
  "parser_log_kind (PExecuteInsufficientGas p) = None"
| "parser_log_kind (PCallContract p) = Some Call_Log"
| "parser_log_kind (PMessageExecuted p) = Some Execution_Log"
| "parser_log_kind (PMessageApproved p) = Some Approval_Log"
| "parser_log_kind (PNativeGasPaid p) = Some Payment_Log"
| "parser_log_kind (PNativeGasAdded p) = Some Top_Up_Log"
| "parser_log_kind (PJettonGasAdded p) = Some Jetton_Top_Up_Log"
| "parser_log_kind (PJettonGasPaid p) = Some Jetton_Payment_Log"
| "parser_log_kind (PNativeGasRefunded p) = Some Refund_Log"
| "parser_log_kind (PITSTokenMetadataRegistered p) = Some Metadata_Log"
| "parser_log_kind (PITSInterchainTokenDeploymentStarted p) = Some Deployment_Log"
| "parser_log_kind (PITSInterchainTransfer p) = Some Transfer_Log"
| "parser_log_kind (PITSLinkTokenStarted p) = Some Link_Log"
| "parser_log_kind (PSignersRotated p) = Some Rotation_Log"

section \<open>The object of a transaction\<close>

definition ok_of :: "'e + 'a \<Rightarrow> 'a option" where
  "ok_of r = (case r of Inl _ \<Rightarrow> None | Inr a \<Rightarrow> Some a)"

lemma ok_of_simps [simp]: "ok_of (Inl e) = None" "ok_of (Inr a) = Some a"
  by (simp_all add: ok_of_def)

text \<open>The log of a transaction: the body of its source message, decoded.\<close>

definition logged :: "(transaction \<Rightarrow> transaction_message option) \<Rightarrow> (string \<Rightarrow> 'e + 'm) \<Rightarrow> transaction \<Rightarrow> 'm option" where
  "logged source decode tx = Option.bind (source tx) (\<lambda>m. ok_of (decode (body (msg_content m))))"

definition holds_log ::
    "(transaction \<Rightarrow> transaction_message option) \<Rightarrow> (string \<Rightarrow> 'e + 'm) \<Rightarrow> transaction \<Rightarrow> ('m, 'z) log_parser_scheme \<Rightarrow> bool" where
  "holds_log source decode tx p \<longleftrightarrow>
     lp_tx p = tx \<and> (\<exists>log. logged source decode tx = Some log \<and> lp_log p = Some log)"

fun recognised :: "crates \<Rightarrow> ('c, 'p, 'b) tonlib \<Rightarrow> trace_parser \<Rightarrow> transaction \<Rightarrow> dyn_parser \<Rightarrow> bool" where
  "recognised X T E tx (PCallContract p) \<longleftrightarrow>
     holds_log (source_of T E Call_Log) (call_contract_from_boc_b64 X T) tx p \<and> lp_chain_name p = tp_chain_name E"
| "recognised X T E tx (PMessageExecuted p) = holds_log (source_of T E Execution_Log) (nullified_from_boc_b64 X T) tx p"
| "recognised X T E tx (PMessageApproved p) = holds_log (source_of T E Approval_Log) (cc_message_from_boc_b64 X T) tx p"
| "recognised X T E tx (PNativeGasPaid p) = holds_log (source_of T E Payment_Log) (native_gas_paid_from_boc_b64 T) tx p"
| "recognised X T E tx (PNativeGasAdded p) = holds_log (source_of T E Top_Up_Log) (native_gas_added_from_boc_b64 T) tx p"
| "recognised X T E tx (PJettonGasAdded p) = holds_log (source_of T E Jetton_Top_Up_Log) (jetton_gas_added_from_boc_b64 T) tx p"
| "recognised X T E tx (PJettonGasPaid p) = holds_log (source_of T E Jetton_Payment_Log) (jetton_gas_paid_from_boc_b64 T) tx p"
| "recognised X T E tx (PNativeGasRefunded p) = holds_log (source_of T E Refund_Log) (native_gas_refunded_from_boc_b64 T) tx p"
| "recognised X T E tx (PITSTokenMetadataRegistered p) =
     holds_log (source_of T E Metadata_Log) (token_metadata_registered_from_boc_b64 X T) tx p"
| "recognised X T E tx (PITSInterchainTokenDeploymentStarted p) =
     holds_log (source_of T E Deployment_Log) (its_deployment_started_from_boc_b64 X T) tx p"
| "recognised X T E tx (PITSInterchainTransfer p) =
     holds_log (source_of T E Transfer_Log) (its_interchain_transfer_from_boc_b64 X T) tx p"
| "recognised X T E tx (PITSLinkTokenStarted p) =
     holds_log (source_of T E Link_Log) (its_link_token_started_from_boc_b64 X T) tx p"
| "recognised X T E tx (PSignersRotated p) = holds_log (source_of T E Rotation_Log) (signers_rotated_from_boc_b64 X T) tx p"
| "recognised X T E tx (PExecuteInsufficientGas p) = False"

text \<open>Where \<open>create_parsers\<close> puts an object.\<close>

fun add_parser :: "dyn_parser \<Rightarrow> parser_lists \<Rightarrow> parser_lists parsed" where
  "add_parser (PCallContract p) ls = Inr (ls\<lparr>pl_call_contract := pl_call_contract ls @ [PCallContract p]\<rparr>)"
| "add_parser (PMessageApproved p) ls =
     Inr ((push_parser (PMessageApproved p) ls)\<lparr>pl_message_approved_count := pl_message_approved_count ls + 1\<rparr>)"
| "add_parser (PNativeGasPaid p) ls = insert_gas_credit (PNativeGasPaid p) ls"
| "add_parser (PJettonGasPaid p) ls = insert_gas_credit (PJettonGasPaid p) ls"
| "add_parser (PITSTokenMetadataRegistered p) ls = Inr (push_its (PITSTokenMetadataRegistered p) ls)"
| "add_parser (PITSInterchainTokenDeploymentStarted p) ls = Inr (push_its (PITSInterchainTokenDeploymentStarted p) ls)"
| "add_parser (PITSInterchainTransfer p) ls = Inr (push_its (PITSInterchainTransfer p) ls)"
| "add_parser (PITSLinkTokenStarted p) ls = Inr (push_its (PITSLinkTokenStarted p) ls)"
| "add_parser p ls = Inr (push_parser p ls)"

context tx_parser
begin

lemma run_none: "try_parser check_match parse (fresh tx) = Inr None \<longleftrightarrow> source tx = None"
  by (cases "source tx") (auto simp: run_no_match run_match split: sum.splits)

lemma run_some:
  "try_parser check_match parse (fresh tx) = Inr (Some p) \<Longrightarrow> holds_log source decode tx p \<and> (\<exists>m. source tx = Some m)"
  by (drule run_result) (auto simp: holds_log_def logged_def)

lemma run_error:
  "try_parser check_match parse (fresh tx) = Inl e \<Longrightarrow> logged source decode tx = None \<and> (\<exists>m. source tx = Some m)"
  by (cases "source tx") (auto simp: run_no_match run_match logged_def split: sum.splits)

end

lemmas runs_error = call_contract.run_error message_executed.run_error message_approved.run_error
  native_gas_paid.run_error native_gas_added.run_error jetton_gas_added.run_error jetton_gas_paid.run_error
  native_gas_refunded.run_error its_metadata.run_error its_deployment.run_error its_transfer.run_error
  its_link.run_error signers_rotated.run_error

lemmas runs_none = call_contract.run_none message_executed.run_none message_approved.run_none
  native_gas_paid.run_none native_gas_added.run_none jetton_gas_added.run_none jetton_gas_paid.run_none
  native_gas_refunded.run_none its_metadata.run_none its_deployment.run_none its_transfer.run_none
  its_link.run_none signers_rotated.run_none

lemmas runs_some = message_executed.run_some message_approved.run_some
  native_gas_paid.run_some native_gas_added.run_some jetton_gas_added.run_some jetton_gas_paid.run_some
  native_gas_refunded.run_some its_metadata.run_some its_deployment.run_some its_transfer.run_some
  its_link.run_some signers_rotated.run_some

lemma call_run_some:
  assumes "try_parser call_contract_check_match (call_contract_parse X T) (call_contract_new tx a c) = Inr (Some p)"
  shows "holds_log (in_opcode_source {OP_CALL_CONTRACT} 0 a) (call_contract_from_boc_b64 X T) tx p
    \<and> (\<exists>m. in_opcode_source {OP_CALL_CONTRACT} 0 a tx = Some m) \<and> lp_chain_name p = c"
proof -
  note r = call_contract.run_some [OF assms]
  then obtain m where "in_opcode_source {OP_CALL_CONTRACT} 0 a tx = Some m" by blast
  from call_contract.run_match [OF this, of X T c] assms have "lp_chain_name p = c"
    by (auto simp: call_contract_check_match_def check_in_opcode_def call_contract_new_def split: sum.splits)
  with r show ?thesis by simp
qed

text \<open>One step of the loop: the first kind that matches adds its object, and nothing else happens.\<close>

lemma create_parsers_tx_chain:
  "create_parsers_tx X T E tx ls =
     (let gateway = tp_gateway_address E; gas_service = tp_gas_service_address E; its = tp_its_address E in
      or_else (try_parser call_contract_check_match (call_contract_parse X T) (call_contract_new tx gateway (tp_chain_name E)))
        (\<lambda>p. add_parser (PCallContract p) ls)
     (or_else (try_parser message_executed_check_match (message_executed_parse X T) (new_log_parser tx gateway))
        (\<lambda>p. add_parser (PMessageExecuted p) ls)
     (or_else (try_parser message_approved_check_match (message_approved_parse X T) (new_log_parser tx gateway))
        (\<lambda>p. add_parser (PMessageApproved p) ls)
     (or_else (try_parser native_gas_paid_check_match (native_gas_paid_parse T) (new_log_parser tx gas_service))
        (\<lambda>p. add_parser (PNativeGasPaid p) ls)
     (or_else (try_parser native_gas_added_check_match (native_gas_added_parse T) (new_log_parser tx gas_service))
        (\<lambda>p. add_parser (PNativeGasAdded p) ls)
     (or_else (try_parser (jetton_gas_added_check_match T) (jetton_gas_added_parse T) (new_log_parser tx gas_service))
        (\<lambda>p. add_parser (PJettonGasAdded p) ls)
     (or_else (try_parser (jetton_gas_paid_check_match T) (jetton_gas_paid_parse T) (new_log_parser tx gas_service))
        (\<lambda>p. add_parser (PJettonGasPaid p) ls)
     (or_else (try_parser native_gas_refunded_check_match (native_gas_refunded_parse T) (new_log_parser tx gas_service))
        (\<lambda>p. add_parser (PNativeGasRefunded p) ls)
     (or_else (try_parser its_metadata_check_match (its_metadata_parse X T) (new_log_parser tx its))
        (\<lambda>p. add_parser (PITSTokenMetadataRegistered p) ls)
     (or_else (try_parser its_deployment_check_match (its_deployment_parse X T) (new_pos_parser tx its))
        (\<lambda>p. add_parser (PITSInterchainTokenDeploymentStarted p) ls)
     (or_else (try_parser its_transfer_check_match (its_transfer_parse X T) (new_pos_parser tx its))
        (\<lambda>p. add_parser (PITSInterchainTransfer p) ls)
     (or_else (try_parser its_link_check_match (its_link_parse X T) (new_pos_parser tx its))
        (\<lambda>p. add_parser (PITSLinkTokenStarted p) ls)
     (or_else (try_parser signers_rotated_check_match (signers_rotated_parse X T) (new_pos_parser tx gateway))
        (\<lambda>p. add_parser (PSignersRotated p) ls)
     (Inr ls))))))))))))))"
  by (simp only: create_parsers_tx_def Let_def add_parser.simps)

lemma create_parsers_tx_adds:
  assumes "create_parsers_tx X T E tx ls = Inr ls'"
  shows "case kind_of T E tx of
      None \<Rightarrow> ls' = ls
    | Some k \<Rightarrow> (\<exists>p. add_parser p ls = Inr ls' \<and> parser_log_kind p = Some k \<and> recognised X T E tx p)"
  using assms unfolding create_parsers_tx_chain Let_def kind_of_def kinds_in_order_def
  by (elim or_elseE; safe dest!: call_run_some runs_some; simp add: runs_none del: One_nat_def add_parser.simps)
    (intro exI conjI, assumption, simp, simp del: One_nat_def)+

text \<open>The step fails only on a log that does not decode.\<close>

definition readable :: "crates \<Rightarrow> ('c, 'p, 'b) tonlib \<Rightarrow> trace_parser \<Rightarrow> transaction \<Rightarrow> bool" where
  "readable X T E tx \<longleftrightarrow>
     (case kind_of T E tx of
        None \<Rightarrow> True
      | Some k \<Rightarrow>
          (case k of
             Call_Log \<Rightarrow> logged (source_of T E k) (call_contract_from_boc_b64 X T) tx \<noteq> None
           | Execution_Log \<Rightarrow> logged (source_of T E k) (nullified_from_boc_b64 X T) tx \<noteq> None
           | Approval_Log \<Rightarrow> logged (source_of T E k) (cc_message_from_boc_b64 X T) tx \<noteq> None
           | Payment_Log \<Rightarrow> logged (source_of T E k) (native_gas_paid_from_boc_b64 T) tx \<noteq> None
           | Top_Up_Log \<Rightarrow> logged (source_of T E k) (native_gas_added_from_boc_b64 T) tx \<noteq> None
           | Jetton_Top_Up_Log \<Rightarrow> logged (source_of T E k) (jetton_gas_added_from_boc_b64 T) tx \<noteq> None
           | Jetton_Payment_Log \<Rightarrow> logged (source_of T E k) (jetton_gas_paid_from_boc_b64 T) tx \<noteq> None
           | Refund_Log \<Rightarrow> logged (source_of T E k) (native_gas_refunded_from_boc_b64 T) tx \<noteq> None
           | Metadata_Log \<Rightarrow> logged (source_of T E k) (token_metadata_registered_from_boc_b64 X T) tx \<noteq> None
           | Deployment_Log \<Rightarrow> logged (source_of T E k) (its_deployment_started_from_boc_b64 X T) tx \<noteq> None
           | Transfer_Log \<Rightarrow> logged (source_of T E k) (its_interchain_transfer_from_boc_b64 X T) tx \<noteq> None
           | Link_Log \<Rightarrow> logged (source_of T E k) (its_link_token_started_from_boc_b64 X T) tx \<noteq> None
           | Rotation_Log \<Rightarrow> logged (source_of T E k) (signers_rotated_from_boc_b64 X T) tx \<noteq> None))"

lemma recognised_readable: "recognised X T E tx p \<Longrightarrow> kind_of T E tx = parser_log_kind p \<Longrightarrow> readable X T E tx"
  by (cases p) (auto simp: readable_def holds_log_def)

lemma add_parser_returns: "recognised X T E tx p \<Longrightarrow> \<exists>ls'. add_parser p ls = Inr ls'"
  by (cases p) (auto simp: holds_log_def insert_gas_credit_def native_gas_paid_key_def jetton_gas_paid_key_def take_log_def)

lemma or_else_InlE:
  assumes "or_else a f r = Inl e"
  obtains "a = Inl e" | p where "a = Inr (Some p)" "f p = Inl e" | "a = Inr None" "r = Inl e"
  using assms by (cases a; cases "projr a") (auto simp: or_else_def)

lemma create_parsers_tx_returns:
  assumes "readable X T E tx"
  shows "\<exists>ls'. create_parsers_tx X T E tx ls = Inr ls'"
proof (rule ccontr)
  assume "\<not> ?thesis"
  then obtain e where "create_parsers_tx X T E tx ls = Inl e" by (cases "create_parsers_tx X T E tx ls") auto
  then have "(\<exists>p. recognised X T E tx p \<and> add_parser p ls = Inl e) \<or> \<not> readable X T E tx"
    unfolding create_parsers_tx_chain Let_def readable_def kind_of_def kinds_in_order_def
    by (elim or_else_InlE; safe dest!: call_run_some runs_some runs_error;
        simp add: runs_none del: One_nat_def add_parser.simps)
      ((intro exI conjI; (assumption | simp del: One_nat_def))+)?
  with assms add_parser_returns [of X T E tx _ ls] show False by fastforce
qed

lemma create_parsers_txs_returns:
  "(\<exists>ls'. create_parsers_txs X T E txs ls = Inr ls') \<longleftrightarrow> (\<forall>tx \<in> set txs. readable X T E tx)"
proof (induction txs arbitrary: ls)
  case (Cons tx txs)
  show ?case
  proof (cases "readable X T E tx")
    case True
    then obtain l where "create_parsers_tx X T E tx ls = Inr l" using create_parsers_tx_returns by blast
    with Cons.IH [of l] True show ?thesis by simp
  next
    case False
    have "create_parsers_tx X T E tx ls \<noteq> Inr l" for l
    proof
      assume "create_parsers_tx X T E tx ls = Inr l"
      note adds = create_parsers_tx_adds [OF this]
      have "kind_of T E tx \<noteq> None" using False by (rule contrapos_nn) (simp add: readable_def)
      with adds False recognised_readable [of X T E tx] show False by (fastforce split: option.splits)
    qed
    with False show ?thesis by (auto simp: and_then_eq_Inr_iff)
  qed
qed simp

section \<open>What the collections hold\<close>

definition of_kinds :: "('c, 'p, 'b) tonlib \<Rightarrow> trace_parser \<Rightarrow> log_kind list \<Rightarrow> transaction list \<Rightarrow> transaction list" where
  "of_kinds T E ks txs = filter (\<lambda>tx. case kind_of T E tx of None \<Rightarrow> False | Some k \<Rightarrow> k \<in> set ks) txs"

lemma of_kinds_simps [simp]:
  "of_kinds T E ks [] = []"
  "of_kinds T E ks (tx # txs) =
     (case kind_of T E tx of None \<Rightarrow> of_kinds T E ks txs
      | Some k \<Rightarrow> if k \<in> set ks then tx # of_kinds T E ks txs else of_kinds T E ks txs)"
  by (auto simp: of_kinds_def split: option.splits)

text \<open>An object of the kind of the transaction, with its log.\<close>

definition object_of :: "crates \<Rightarrow> ('c, 'p, 'b) tonlib \<Rightarrow> trace_parser \<Rightarrow> transaction \<Rightarrow> dyn_parser \<Rightarrow> bool" where
  "object_of X T E tx p \<longleftrightarrow> kind_of T E tx = parser_log_kind p \<and> recognised X T E tx p"

text \<open>
  A collection for some kinds of objects: adding an object appends it where its kind belongs to
  the collection and leaves the collection alone otherwise. The loop is covered once for all of
  them.
\<close>

locale parser_collection =
  fixes view :: "parser_lists \<Rightarrow> dyn_parser list" and kinds :: "log_kind list"
  assumes added: "add_parser p ls = Inr ls' \<Longrightarrow> parser_log_kind p = Some k \<Longrightarrow>
      view ls' = (if k \<in> set kinds then view ls @ [p] else view ls)"
begin

lemma tx_kept:
  assumes "create_parsers_tx X T E tx ls = Inr ls'"
  shows "\<exists>ps. view ls' = view ls @ ps \<and> list_all2 (object_of X T E) (of_kinds T E kinds [tx]) ps"
  using create_parsers_tx_adds [OF assms] added
  by (fastforce simp: object_of_def split: option.splits)

lemma txs_kept:
  assumes "create_parsers_txs X T E txs ls = Inr ls'"
  shows "\<exists>ps. view ls' = view ls @ ps \<and> list_all2 (object_of X T E) (of_kinds T E kinds txs) ps"
  using assms
proof (induction txs arbitrary: ls)
  case (Cons tx txs)
  then obtain l where l: "create_parsers_tx X T E tx ls = Inr l" "create_parsers_txs X T E txs l = Inr ls'"
    by (auto simp: and_then_eq_Inr_iff)
  from tx_kept [OF l(1)] Cons.IH [OF l(2)] obtain ps qs where
    "view ls' = view ls @ ps @ qs" "list_all2 (object_of X T E) (of_kinds T E kinds [tx]) ps"
    "list_all2 (object_of X T E) (of_kinds T E kinds txs) qs" by auto
  moreover have "of_kinds T E kinds (tx # txs) = of_kinds T E kinds [tx] @ of_kinds T E kinds txs"
    by (simp split: option.splits)
  ultimately show ?case by (metis list_all2_appendI)
qed simp

end

lemmas list_updates = push_parser_def push_its_def no_parsers_def

lemma insert_gas_credit_keeps:
  "insert_gas_credit p ls = Inr ls' \<Longrightarrow>
     pl_call_contract ls' = pl_call_contract ls \<and> pl_parsers ls' = pl_parsers ls \<and> pl_its ls' = pl_its ls"
  by (auto simp: insert_gas_credit_def and_then_eq_Inr_iff)

definition its_kinds :: "log_kind list" where
  "its_kinds = [Metadata_Log, Deployment_Log, Transfer_Log, Link_Log]"

definition plain_kinds :: "log_kind list" where
  "plain_kinds = [Execution_Log, Approval_Log, Top_Up_Log, Jetton_Top_Up_Log, Refund_Log, Rotation_Log]"

definition payment_kinds :: "log_kind list" where
  "payment_kinds = [Payment_Log, Jetton_Payment_Log]"

lemma added_views:
  assumes "add_parser p ls = Inr ls'" "parser_log_kind p = Some k"
  shows "pl_call_contract ls' = (if k \<in> set [Call_Log] then pl_call_contract ls @ [p] else pl_call_contract ls)"
    and "pl_its ls' = (if k \<in> set its_kinds then pl_its ls @ [p] else pl_its ls)"
    and "pl_parsers ls' = (if k \<in> set plain_kinds then pl_parsers ls @ [p] else pl_parsers ls)"
  using assms
  by (cases p; auto simp: its_kinds_def plain_kinds_def list_updates dest: insert_gas_credit_keeps)+

interpretation calls: parser_collection pl_call_contract "[Call_Log]"
  by unfold_locales (rule added_views(1))

interpretation its: parser_collection pl_its its_kinds
  by unfold_locales (rule added_views(2))

interpretation plain: parser_collection pl_parsers plain_kinds
  by unfold_locales (rule added_views(3))

text \<open>The map of the payments: a later payment replaces an earlier one with the same key.\<close>

definition keyed :: "dyn_parser list \<Rightarrow> (message_matching_key \<times> dyn_parser) list" where
  "keyed ps = map (\<lambda>p. (projr (parser_key p), p)) ps"

lemma added_payment:
  assumes "add_parser p ls = Inr ls'" "parser_log_kind p = Some k"
  shows "pl_gas_credit_map ls' =
    (if k \<in> set payment_kinds then (pl_gas_credit_map ls)(projr (parser_key p) \<mapsto> p) else pl_gas_credit_map ls)"
  using assms
  by (cases p) (auto simp: payment_kinds_def list_updates insert_gas_credit_def and_then_eq_Inr_iff)

lemma txs_payments:
  assumes "create_parsers_txs X T E txs ls = Inr ls'"
  shows "\<exists>ps. pl_gas_credit_map ls' = pl_gas_credit_map ls ++ map_of (rev (keyed ps))
    \<and> list_all2 (object_of X T E) (of_kinds T E payment_kinds txs) ps"
  using assms
proof (induction txs arbitrary: ls)
  case (Cons tx txs)
  then obtain l where l: "create_parsers_tx X T E tx ls = Inr l" "create_parsers_txs X T E txs l = Inr ls'"
    by (auto simp: and_then_eq_Inr_iff)
  from Cons.IH [OF l(2)] obtain ps where ps: "pl_gas_credit_map ls' = pl_gas_credit_map l ++ map_of (rev (keyed ps))"
    "list_all2 (object_of X T E) (of_kinds T E payment_kinds txs) ps" by blast
  show ?case
  proof (cases "\<exists>k \<in> set payment_kinds. kind_of T E tx = Some k")
    case True
    then obtain k p where p: "k \<in> set payment_kinds" "kind_of T E tx = Some k" "add_parser p ls = Inr l"
        "parser_log_kind p = Some k" "recognised X T E tx p"
      using create_parsers_tx_adds [OF l(1)] by (auto split: option.splits)
    have "pl_gas_credit_map ls' = pl_gas_credit_map ls ++ map_of (rev (keyed (p # ps)))"
      using ps(1) added_payment [OF p(3, 4)] p(1) by (simp add: keyed_def map_add_upd_left map_add_assoc [symmetric])
    moreover have "object_of X T E tx p" using p by (simp add: object_of_def)
    ultimately show ?thesis using p(1, 2) ps(2) by (intro exI [of _ "p # ps"]) simp
  next
    case False
    then have "pl_gas_credit_map l = pl_gas_credit_map ls"
      using create_parsers_tx_adds [OF l(1)] added_payment by (fastforce split: option.splits)
    with False ps show ?thesis by (auto split: option.splits)
  qed
qed (simp add: keyed_def)

text \<open>The parser of failed executions, which comes first.\<close>

definition failed_parsers :: "('c, 'p, 'b) tonlib \<Rightarrow> trace_parser \<Rightarrow> trace \<Rightarrow> dyn_parser list" where
  "failed_parsers T E tr =
     (case try_parser insufficient_gas_check_match (insufficient_gas_parse T)
             (insufficient_gas_new tr (tp_gateway_address E) (tp_chain_name E)) of
        Inr (Some p) \<Rightarrow> [PExecuteInsufficientGas p]
      | _ \<Rightarrow> [])"

lemma create_parsers_collects:
  assumes "create_parsers X T E tr = Inr ls"
  obtains payments others where
    "list_all2 (object_of X T E) (of_kinds T E [Call_Log] (transactions tr)) (pl_call_contract ls)"
    "list_all2 (object_of X T E) (of_kinds T E its_kinds (transactions tr)) (pl_its ls)"
    "list_all2 (object_of X T E) (of_kinds T E plain_kinds (transactions tr)) others"
    "pl_parsers ls = failed_parsers T E tr @ others"
    "list_all2 (object_of X T E) (of_kinds T E payment_kinds (transactions tr)) payments"
    "pl_gas_credit_map ls = map_of (rev (keyed payments))"
proof -
  obtain l where l: "create_parsers_txs X T E (transactions tr) l = Inr ls"
      and e: "pl_call_contract l = []" "pl_its l = []" "pl_parsers l = failed_parsers T E tr"
        "pl_gas_credit_map l = Map.empty"
    using assms
    by (fastforce simp: create_parsers_def and_then_eq_Inr_iff failed_parsers_def list_updates split: option.split_asm)
  show thesis
    using calls.txs_kept [OF l] its.txs_kept [OF l] plain.txs_kept [OF l] txs_payments [OF l] e that by auto
qed

section \<open>Kinds that exclude each other\<close>

text \<open>
  Seven kinds are told apart by the op code of the incoming message alone: for them the order of
  the chain does not matter.
\<close>

lemma in_opcode_source_opcode:
  "in_opcode_source ops i a tx = Some m \<Longrightarrow> \<exists>n op. in_msg tx = Some n \<and> opcode n = Some op \<and> op \<in> ops"
  by (auto simp: in_opcode_source_def split: if_splits)

lemma executed_source_opcode:
  "executed_source a tx = Some m \<Longrightarrow> \<exists>n. in_msg tx = Some n \<and> opcode n = Some OP_NULLIFIED_SUCCESSFULLY"
  by (auto simp: executed_source_def split: option.splits if_splits)

lemma other_source:
  assumes "in_msg tx = Some n" "opcode n = Some op"
  shows "op \<notin> ops \<Longrightarrow> in_opcode_source ops i a tx = None"
    and "op \<noteq> OP_NULLIFIED_SUCCESSFULLY \<Longrightarrow> executed_source a tx = None"
    and "op \<noteq> OP_TRANSFER_NOTIFICATION \<Longrightarrow> jetton_source d a tx = None"
  using assms by (auto simp: in_opcode_source_def executed_source_def jetton_source_def)

lemma kind_of_source: "kind_of T E tx = Some k \<Longrightarrow> source_of T E k tx \<noteq> None"
  by (auto simp: kind_of_def find_Some_iff)

lemma kind_of_opcode:
  assumes "k \<in> {Call_Log, Execution_Log, Approval_Log, Payment_Log, Top_Up_Log, Refund_Log, Metadata_Log}"
  shows "kind_of T E tx = Some k \<longleftrightarrow> source_of T E k tx \<noteq> None"
proof
  assume "source_of T E k tx \<noteq> None"
  then obtain m where m: "source_of T E k tx = Some m" by blast
  with assms obtain n op where n: "in_msg tx = Some n" "opcode n = Some op"
      and op: "k = Call_Log \<and> op = OP_CALL_CONTRACT \<or> k = Execution_Log \<and> op = OP_NULLIFIED_SUCCESSFULLY
        \<or> k = Approval_Log \<and> op = OP_MESSAGE_APPROVED \<or> k = Payment_Log \<and> op = OP_PAY_NATIVE_GAS_FOR_CONTRACT_CALL
        \<or> k = Payment_Log \<and> op = OP_PAY_GAS \<or> k = Top_Up_Log \<and> op = OP_ADD_NATIVE_GAS
        \<or> k = Refund_Log \<and> op = OP_NATIVE_REFUND \<or> k = Metadata_Log \<and> op = OP_REGISTER_TOKEN_METADATA"
    by (cases k) (auto dest!: in_opcode_source_opcode executed_source_opcode simp del: One_nat_def)
  then show "kind_of T E tx = Some k"
    using m unfolding kind_of_def kinds_in_order_def
    by (elim disjE conjE) (simp_all add: other_source [OF n] op_codes del: One_nat_def)
qed (rule kind_of_source)

lemma of_kinds_source:
  assumes "k \<in> {Call_Log, Execution_Log, Approval_Log, Payment_Log, Top_Up_Log, Refund_Log, Metadata_Log}"
  shows "of_kinds T E [k] txs = filter (\<lambda>tx. source_of T E k tx \<noteq> None) txs"
  unfolding of_kinds_def kind_of_opcode [OF assms, symmetric] by (rule filter_cong) (auto split: option.splits)

section \<open>Panics of the trace parser\<close>

text \<open>A transaction of the gas service that logs an amount of jettons.\<close>

definition jetton_logged :: "('c, 'p, 'b) tonlib \<Rightarrow> trace_parser \<Rightarrow> transaction \<Rightarrow> ton_address \<Rightarrow> nat \<Rightarrow> bool" where
  "jetton_logged T E tx minter n \<longleftrightarrow>
     account tx = tp_gas_service_address E
     \<and> ((\<exists>log. logged (source_of T E Jetton_Payment_Log) (jetton_gas_paid_from_boc_b64 T) tx = Some log
           \<and> minter = jgp_minter log \<and> n = jgp_amount log)
        \<or> (\<exists>log. logged (source_of T E Jetton_Top_Up_Log) (jetton_gas_added_from_boc_b64 T) tx = Some log
           \<and> minter = jga_minter log \<and> n = jga_amount log))"

lemma jetton_source_account: "logged (jetton_source d a) d' tx = Some log \<Longrightarrow> account tx = a"
  by (auto simp: logged_def jetton_source_def bind_eq_Some_conv dest: in_opcode_source_index split: option.splits if_splits)

lemma jetton_event:
  assumes "parser_event X ts mid p = Inr (GasCredit c i refund payment)" "amt_token_id payment = Some tok" "recognised X T E tx p"
  obtains minter n where "jetton_logged T E tx minter n" "tok = address_to_hex X minter" "amt_amount payment = nat_to_string n"
proof -
  from assms consider q log where "p = PJettonGasPaid q" "logged (source_of T E Jetton_Payment_Log) (jetton_gas_paid_from_boc_b64 T) tx = Some log"
      "tok = address_to_hex X (jgp_minter log)" "amt_amount payment = nat_to_string (jgp_amount log)"
    | q log where "p = PJettonGasAdded q" "logged (source_of T E Jetton_Top_Up_Log) (jetton_gas_added_from_boc_b64 T) tx = Some log"
      "tok = address_to_hex X (jga_minter log)" "amt_amount payment = nat_to_string (jga_amount log)"
    by (cases p) (auto simp: event_defs and_then_eq_Inr_iff ok_or_eq_Inr_iff gas_credit_def native_amount_def holds_log_def
        take_log_def Let_def)
  then show thesis
  proof cases
    case (1 q log)
    then show ?thesis using jetton_source_account by (intro that [of "jgp_minter log" "jgp_amount log"]) (auto simp: jetton_logged_def)
  next
    case (2 q log)
    then show ?thesis using jetton_source_account by (intro that [of "jga_minter log" "jga_amount log"]) (auto simp: jetton_logged_def)
  qed
qed

lemma list_all2_other: "list_all2 R xs ys \<Longrightarrow> y \<in> set ys \<Longrightarrow> \<exists>x \<in> set xs. R x y"
  by (induction rule: list_all2_induct) auto

lemma create_parsers_objects:
  assumes "create_parsers X T E tr = Inr ls"
    and "p \<in> set (pl_call_contract ls) \<or> p \<in> ran (pl_gas_credit_map ls) \<or> p \<in> set (pl_its ls) \<or> p \<in> set (pl_parsers ls)"
  shows "(\<exists>tx \<in> set (transactions tr). recognised X T E tx p) \<or> p \<in> set (failed_parsers T E tr)"
proof -
  have obj: "\<exists>tx \<in> set (transactions tr). recognised X T E tx p"
    if "list_all2 (object_of X T E) (of_kinds T E ks (transactions tr)) ps" "p \<in> set ps" for ks ps
    using list_all2_other [OF that] by (auto simp: object_of_def of_kinds_def)
  from assms(1) obtain payments others where
    c: "list_all2 (object_of X T E) (of_kinds T E [Call_Log] (transactions tr)) (pl_call_contract ls)"
    "list_all2 (object_of X T E) (of_kinds T E its_kinds (transactions tr)) (pl_its ls)"
    "list_all2 (object_of X T E) (of_kinds T E plain_kinds (transactions tr)) others"
    "pl_parsers ls = failed_parsers T E tr @ others"
    "list_all2 (object_of X T E) (of_kinds T E payment_kinds (transactions tr)) payments"
    "pl_gas_credit_map ls = map_of (rev (keyed payments))"
    by (rule create_parsers_collects)
  have "p \<in> set payments" if "p \<in> ran (pl_gas_credit_map ls)"
    using that by (auto simp: c(6) ran_def keyed_def dest!: map_of_SomeD)
  with assms(2) c obj show ?thesis by (auto simp: c(4))
qed

text \<open>
  Claim C19: when parsing a trace panics. It does if the trace looks like an execution that failed
  for lack of gas and its first transaction has no outgoing message; and apart from that only if
  a transaction of the trace, on the gas service, logs an amount of jettons whose conversion
  panics: both prices are known, the amount is a number, and the product or the quotient has no
  decimal value (an overflow, or a price of zero). Every parser of a single transaction, the
  pairing of events and the gas computation are free of panics, whatever the trace contains.
\<close>

theorem parse_trace_panics:
  "(insufficient_gas_matches E tr \<and> out_msgs (hd (transactions tr)) = [] \<longrightarrow> panics (parse_trace X T D E ts tr))
   \<and> (panics (parse_trace X T D E ts tr) \<longrightarrow>
       insufficient_gas_matches E tr \<and> out_msgs (hd (transactions tr)) = []
       \<or> (\<exists>tx \<in> set (transactions tr). \<exists>minter n m. jetton_logged T E tx minter n
            \<and> biguint_from_str X (nat_to_string n) = Inr m \<and> conversion_panics D (address_to_hex X minter) m))"
proof -
  let ?failed = "insufficient_gas_matches E tr \<and> out_msgs (hd (transactions tr)) = []"
  obtain total refund where g: "gas_used E tr = Inr (total, refund)" using gas_used_ok by blast
  have c: "panics (create_parsers X T E tr) \<longleftrightarrow> ?failed"
    by (simp add: create_parsers_def insufficient_gas_panics create_parsers_txs_no_panic)
  have "\<exists>tx \<in> set (transactions tr). \<exists>minter n m. jetton_logged T E tx minter n
      \<and> biguint_from_str X (nat_to_string n) = Inr m \<and> conversion_panics D (address_to_hex X minter) m"
    if panic: "panics (parse_trace X T D E ts tr)" and other: "\<not> ?failed"
  proof -
    obtain ls where ls: "create_parsers X T E tr = Inr ls"
      using panic other c by (auto simp: parse_trace_def g)
    have "\<forall>p \<in> set (pl_call_contract ls). call_parser_ok E (transactions tr) p"
      using create_parsers_ok [OF ls] by (simp add: lists_ok_def)
    then have "\<not> panics (call_events X ts (pl_call_contract ls) m)" "\<not> panics (its_events X ts (pl_call_contract ls) i ps)" for m i ps
      by (rule call_events_no_panic its_events_no_panic)+
    with panic obtain calls its others where p:
        "call_events X ts (pl_call_contract ls) (pl_gas_credit_map ls) = Inr calls"
        "its_events X ts (pl_call_contract ls) 0 (pl_its ls) = Inr its"
        "try_map (parser_event X ts None) (pl_parsers ls) = Inr others"
        "panics (add_gas_used_and_convert X D total refund (pl_message_approved_count ls) (calls @ its @ others))"
      by (auto simp: parse_trace_def g ls try_map_no_panic)
    obtain e where e: "e \<in> set (calls @ its @ others)" "panics (convert_event X D total refund (pl_message_approved_count ls) e)"
      using p(4) try_map_no_panic unfolding add_gas_used_and_convert_def by metis
    from e(2) obtain cf mid rcpt payment tok m where credit: "e = GasCredit cf mid rcpt payment" "amt_token_id payment = Some tok"
        "biguint_from_str X (amt_amount payment) = Inr m" "conversion_panics D tok m"
      by (rule convert_event_panics)
    obtain q i where q: "q \<in> set (pl_call_contract ls) \<or> q \<in> ran (pl_gas_credit_map ls) \<or> q \<in> set (pl_its ls) \<or> q \<in> set (pl_parsers ls)"
        "parser_event X ts i q = Inr e"
      using e(1) call_events_from [OF p(1)] its_events_from [OF p(2)] try_map_from [OF p(3)] by fastforce
    have "q \<notin> set (failed_parsers T E tr)"
      using q(2) credit(1) by (auto simp: failed_parsers_def insufficient_gas_event_def and_then_eq_Inr_iff split: sum.splits option.splits)
    with create_parsers_objects [OF ls q(1)] obtain tx where tx: "tx \<in> set (transactions tr)" "recognised X T E tx q" by blast
    obtain minter n where "jetton_logged T E tx minter n" "tok = address_to_hex X minter" "amt_amount payment = nat_to_string n"
      by (rule jetton_event [OF q(2) [unfolded credit(1)] credit(2) tx(2)])
    with tx(1) credit(3,4) show ?thesis by auto
  qed
  moreover have "?failed \<longrightarrow> panics (parse_trace X T D E ts tr)" using c by (simp add: parse_trace_def g)
  ultimately show ?thesis by blast
qed

definition sample_failed_trace :: trace where
  "sample_failed_trace =
     sample_trace
       [sample_transaction (TonAddress 0 [9]) 0 None [],
        sample_transaction (TonAddress 0 [8]) 0 None [sample_message None (Some OP_RELAYER_EXECUTE) [] None],
        (sample_transaction (TonAddress 0 [1]) 0 None [])\<lparr>description := sample_description (Some 106) None\<rparr>]"

lemma parse_trace_panics_witness:
  "panics (parse_trace sample_crates sample_tonlib sample_prices sample_env [] sample_failed_trace)"
proof -
  have "insufficient_gas_matches sample_env sample_failed_trace"
    by (simp add: insufficient_gas_matches_def execute_failed_for_gas_def sample_failed_trace_def sample_trace_def
        sample_env_def sample_transaction_def sample_message_def sample_description_def EXIT_CODE_INSUFFICIENT_GAS_def)
  moreover have "out_msgs (hd (transactions sample_failed_trace)) = []"
    by (simp add: sample_failed_trace_def sample_trace_def sample_transaction_def)
  ultimately show ?thesis
    using parse_trace_panics [of sample_env sample_failed_trace sample_crates sample_tonlib sample_prices "[]"] by blast
qed

end
