(* ===== verification/Log_Decoders.thy ===== *)
theory Log_Decoders
  imports High_Load_Wallet
begin

text \<open>
  What the decoders of \<open>Boc_Messages\<close> read from cells laid out as the contracts write them. A
  read is described by the bits and references the parser has before and after
  (\<open>feeds\<close>); each read of the library has one rule that takes a decoder a step further, and
  the theorems on the decoders follow by applying these rules in the order of the reads. The
  last part is the round trip of the relayer's own message: the execute message it sends through
  a wallet is recognised again in a trace.
\<close>

section \<open>Stepping through a decoder\<close>

definition feeds :: "('c, 'p, 'b) cell_view \<Rightarrow> 'p \<Rightarrow> bool list \<Rightarrow> 'c list \<Rightarrow> bool" where
  "feeds V p bs cs \<longleftrightarrow> bits_left V p = bs \<and> refs_left V p = cs"

definition cell_is :: "('c, 'p, 'b) cell_view \<Rightarrow> 'c \<Rightarrow> bool list \<Rightarrow> 'c list \<Rightarrow> bool" where
  "cell_is V c bs cs \<longleftrightarrow> bits_of V c = bs \<and> refs_of V c = cs"

named_theorems reads

context ton_cells
begin

lemma feeds_parser: "cell_is V c bs cs \<Longrightarrow> feeds V (cell_parser T c) bs cs"
  by (simp add: feeds_def cell_is_def parser_view)

lemma then_open:
  assumes "from_boc_b64 T boc = Inr c" "cell_is V c bs cs" "\<And>q. feeds V q bs cs \<Longrightarrow> f q = R"
  shows "and_then (open_boc_b64 T boc) f = R"
  using assms feeds_parser [OF assms(2)] by (simp add: open_boc_b64_def)

lemma then_address [reads]:
  assumes "feeds V p (address_bits V a @ bs) cs" "std_address a" "\<And>q. feeds V q bs cs \<Longrightarrow> f a q = R"
  shows "and_then (boc_read (load_address T) p) (case_prod f) = R"
  using read_address [OF assms(2), of p bs] assms(1,3) by (auto simp: feeds_def)

lemma then_coins [reads]:
  assumes "feeds V p (coins_bits V m @ bs) cs" "m < 2 ^ 120" "\<And>q. feeds V q bs cs \<Longrightarrow> f m q = R"
  shows "and_then (boc_read (load_coins T) p) (case_prod f) = R"
  using read_coins [OF assms(2), of p bs] assms(1,3) by (auto simp: feeds_def)

lemma then_tonhash [reads]:
  assumes "feeds V p (bytes_bits h @ bs) cs" "length h = 32" "\<And>q. feeds V q bs cs \<Longrightarrow> f h q = R"
  shows "and_then (boc_read (load_tonhash T) p) (case_prod f) = R"
  using read_tonhash [OF assms(2), of p bs] assms(1,3) by (auto simp: feeds_def)

lemma then_array [reads]:
  assumes "feeds V p (bytes_bits h @ bs) cs" "length h = 32" "\<And>q. feeds V q bs cs \<Longrightarrow> f h q = R"
  shows "and_then (read_array32 T msg p) (case_prod f) = R"
  using read_array [OF assms(2), of p bs msg] assms(1,3) by (auto simp: feeds_def)

lemma then_uint [reads]:
  assumes "feeds V p (bits_be n v @ bs) cs" "v < 2 ^ n" "\<And>q. feeds V q bs cs \<Longrightarrow> f v q = R"
  shows "and_then (boc_read (load_uint T n) p) (case_prod f) = R"
  using uint_ok [of p "bits_be n v" bs n] assms by (auto simp: feeds_def boc_read_def)

lemma then_string [reads]:
  assumes "feeds V p bs (c # cs)" "holds_string V c s" "\<And>q. feeds V q bs cs \<Longrightarrow> f s q = R"
  shows "and_then (ref_string T p) (case_prod f) = R"
  using read_string [of p c cs s] assms by (auto simp: feeds_def)

lemma then_buffer [reads]:
  assumes "feeds V p bs (c # cs)" "holds_bytes V c b" "\<And>q. feeds V q bs cs \<Longrightarrow> f b q = R"
  shows "and_then (ref_buffer T p) (case_prod f) = R"
  using read_buffer [of p c cs b] assms by (auto simp: feeds_def)

lemma then_parser [reads]:
  assumes "feeds V p bs (c # cs)" "cell_is V c bs' cs'"
    "\<And>i q. feeds V q bs cs \<Longrightarrow> feeds V i bs' cs' \<Longrightarrow> f i q = R"
  shows "and_then (ref_parser T p) (case_prod f) = R"
  using read_parser [of p c cs] feeds_parser [OF assms(2)] assms(1,3) by (auto simp: feeds_def)

lemma then_ref_address [reads]:
  assumes "feeds V p bs (c # cs)" "cell_is V c (address_bits V a @ r) rs" "std_address a"
    "\<And>q. feeds V q bs cs \<Longrightarrow> f a q = R"
  shows "and_then (ref_address T p) (case_prod f) = R"
  using read_ref_address [of p c cs a r] assms by (auto simp: feeds_def cell_is_def)

lemma then_reference [reads]:
  assumes "feeds V p bs (c # cs)" "\<And>q. feeds V q bs cs \<Longrightarrow> f c q = R"
  shows "and_then (boc_read (next_reference T) p) (case_prod f) = R"
  using read_reference [of p c cs] assms by (auto simp: feeds_def)

text \<open>The op code: the 32 bits are four bytes, which the check compares.\<close>

lemma then_op_code [reads]:
  assumes "feeds V p (bits_be 32 (unat op) @ bs) cs" "\<And>q. feeds V q bs cs \<Longrightarrow> f () q = R"
  shows "and_then (check_op_code X T op p) (case_prod f) = R"
proof -
  obtain bytes where b: "bits_be 32 (unat op) = bytes_bits bytes" "length bytes = 4"
    using bytes_bits_surj [of "bits_be 32 (unat op)" 4] by auto
  obtain q where "load_bits T 32 p = (Inr bytes, q)" "feeds V q bs cs"
    using bits_ok [of p bytes bs 32] assms(1) b by (auto simp: feeds_def)
  then show ?thesis
    using assms(2) b by (simp add: check_op_code_def boc_read_def compare_op_code_iff)
qed

end

section \<open>Gas service\<close>

context ton_cells
begin

lemma native_gas_paid_decode:
  assumes "from_boc_b64 T boc = Inr c" "std_address a" "std_address b" "length h = 32" "length v = 32"
    "cell_is V c (address_bits V a @ bytes_bits h @ bytes_bits v @ r) (c1 # c2 # c3 # cs)"
    "cell_is V c1 (address_bits V b @ r1) cs1" "holds_string V c2 chain" "holds_string V c3 dest"
  shows "native_gas_paid_from_boc_b64 T boc =
    Inr \<lparr>ngp_sender = a, ngp_payload_hash = h, ngp_msg_value = from_bytes_be v, ngp_refund_address = b,
         ngp_destination_chain = chain, ngp_destination_address = dest\<rparr>"
  unfolding native_gas_paid_from_boc_b64_def
  by (rule then_open [OF assms(1,6)]) (erule reads | rule assms | simp)+

lemma native_gas_added_decode:
  assumes "from_boc_b64 T boc = Inr c" "std_address a" "length h = 32" "length v = 32"
    "cell_is V c (bytes_bits h @ address_bits V a @ bytes_bits v @ r) cs"
  shows "native_gas_added_from_boc_b64 T boc =
    Inr \<lparr>nga_tx_hash = h, nga_refund_address = a, nga_msg_value = from_bytes_be v\<rparr>"
  unfolding native_gas_added_from_boc_b64_def
  by (rule then_open [OF assms(1,5)]) (erule reads | rule assms | simp)+

lemma native_gas_refunded_decode:
  assumes "from_boc_b64 T boc = Inr c" "std_address a" "length h = 32" "n < 2 ^ 120"
    "cell_is V c (bytes_bits h @ address_bits V a @ coins_bits V n @ r) cs"
  shows "native_gas_refunded_from_boc_b64 T boc = Inr \<lparr>ngr_tx_hash = h, ngr_address = a, ngr_amount = n\<rparr>"
  unfolding native_gas_refunded_from_boc_b64_def
  by (rule then_open [OF assms(1,5)]) (erule reads | rule assms | simp)+

lemma jetton_gas_paid_decode:
  assumes "from_boc_b64 T boc = Inr c" "std_address a" "std_address b" "length h = 32" "n < 2 ^ 120"
    "cell_is V c (address_bits V a @ coins_bits V n @ bytes_bits h @ r) (c1 # c2 # c3 # cs)"
    "cell_is V c1 (address_bits V b @ r1) cs1" "holds_string V c2 chain" "holds_string V c3 dest"
  shows "jetton_gas_paid_from_boc_b64 T boc =
    Inr \<lparr>jgp_minter = a, jgp_payload_hash = h, jgp_amount = n, jgp_refund_address = b,
         jgp_destination_chain = chain, jgp_destination_address = dest\<rparr>"
  unfolding jetton_gas_paid_from_boc_b64_def
  by (rule then_open [OF assms(1,6)]) (erule reads | rule assms | simp)+

lemma jetton_gas_added_decode:
  assumes "from_boc_b64 T boc = Inr c" "std_address a" "std_address b" "std_address s" "length h = 32" "n < 2 ^ 120"
    "cell_is V c (address_bits V a @ address_bits V s @ coins_bits V n @ bytes_bits h @ r) (c1 # cs)"
    "cell_is V c1 (address_bits V b @ r1) cs1"
  shows "jetton_gas_added_from_boc_b64 T boc =
    Inr \<lparr>jga_minter = a, jga_sender = s, jga_tx_hash = h, jga_amount = n, jga_refund_address = b\<rparr>"
  unfolding jetton_gas_added_from_boc_b64_def
  by (rule then_open [OF assms(1,7)]) (erule reads | rule assms | simp)+

end

section \<open>Gateway\<close>

context ton_cells
begin

lemma call_contract_decoded:
  assumes "from_boc_b64 T boc = Inr c" "std_address a" "length h = 32"
    "cell_is V c (address_bits V a @ bytes_bits h @ r) (c1 # c2 # c3 # cs)"
    "holds_string V c1 chain" "holds_string V c2 dest" "holds_bytes V c3 pay"
  shows "call_contract_from_boc_b64 X T boc =
    Inr \<lparr>ccm_destination_chain = chain, ccm_destination_address = dest, ccm_payload = hex_encode X pay,
         ccm_source_address = a, ccm_payload_hash = h\<rparr>"
  unfolding call_contract_from_boc_b64_def
  by (rule then_open [OF assms(1,4)]) (erule reads | rule assms | simp)+

lemma cc_message_decode:
  assumes "from_boc_b64 T boc = Inr c" "cell_is V c r (c1 # c2 # c3 # c4 # cs)"
    "holds_string V c1 mid" "holds_string V c2 chain" "holds_string V c3 sender"
    "cell_is V c4 (bytes_bits h @ r4) (c5 # c6 # cs4)" "length h = 32" "holds_bytes V c5 dest" "length dest = 32"
    "holds_string V c6 dest_chain"
  shows "cc_message_from_boc_b64 X T boc =
    Inr \<lparr>cc_message_id = mid, cc_destination_address = address_to_hex X (TonAddress WORKCHAIN dest),
         cc_destination_chain = dest_chain, cc_source_address = sender, cc_source_chain = chain, cc_log_event = [],
         cc_payload_hash = h\<rparr>"
proof -
  have a: "array32 msg dest = Inr dest" for msg by (simp add: array32_def assms(9))
  show ?thesis
    unfolding cc_message_from_boc_b64_def Let_def
    by (rule then_open [OF assms(1,2)]) (erule reads | rule assms | simp only: a and_then_Inr)+
qed

lemma signers_rotated_decode:
  assumes "from_boc_b64 T boc = Inr c" "h < 2 ^ 256" "e < 2 ^ 64"
    "cell_is V c (bits_be 32 (unat OP_SIGNERS_ROTATED_LOG) @ bits_be 256 h @ bits_be 256 e @ r) (c1 # cs)"
  shows "signers_rotated_from_boc_b64 X T boc =
    Inr \<lparr>sr_signers_hash = ''0x'' @ hex_encode X (to_bytes_be h), sr_epoch = word_of_nat e\<rparr>"
proof -
  have e: "e < 2 ^ 256" by (rule order_less_le_trans [OF assms(3)]) simp
  show ?thesis
    unfolding signers_rotated_from_boc_b64_def
    by (rule then_open [OF assms(1,4)]) (erule reads | rule assms e | simp add: assms(3) [simplified])+
qed

end

section \<open>Token service\<close>

context ton_reads
begin

lemma then_u8 [reads]:
  assumes "feeds V p (bits_be 8 (unat b) @ bs) cs" "\<And>q. feeds V q bs cs \<Longrightarrow> f b q = R"
  shows "and_then (boc_read (load_u8 T 8) p) (case_prod f) = R"
  using u8_ok [of p b bs] assms by (auto simp: feeds_def boc_read_def)

lemma then_i16 [reads]:
  assumes "feeds V p (bits_be 8 (unat (b :: 8 word)) @ bs) cs" "\<And>q. feeds V q bs cs \<Longrightarrow> f (scast b) q = R"
  shows "and_then (boc_read (load_i16 T 8) p) (case_prod f) = R"
  using i16_ok [of p b bs] assms by (auto simp: feeds_def boc_read_def)

lemma metadata_decode:
  assumes "from_boc_b64 T boc = Inr c" "std_address a"
    "cell_is V c (bits_be 32 (unat OP_TOKEN_METADATA_REGISTERED_LOG) @ address_bits V a @ bits_be 8 (unat d) @ r) cs"
  shows "token_metadata_registered_from_boc_b64 X T boc = Inr \<lparr>tm_address = a, tm_decimals = d\<rparr>"
proof -
  have u: "ucast (scast (d :: 8 word) :: 16 word) = d" by (rule bit_word_eqI) (auto simp: bit_simps)
  show ?thesis
    unfolding token_metadata_registered_from_boc_b64_def
    by (rule then_open [OF assms(1,3)]) (erule reads | rule assms | simp add: u)+
qed

lemma deployment_decode:
  assumes "from_boc_b64 T boc = Inr c" "n < 2 ^ 256"
    "cell_is V c (bits_be 32 (unat OP_INTERCHAIN_TOKEN_DEPLOYMENT_STARTED_LOG) @ bits_be 256 n @ bits_be 8 (unat d) @ r)
       (c1 # c2 # c3 # c4 # cs)"
    "holds_string V c1 name" "holds_string V c2 symbol" "holds_string V c4 chain"
  shows "its_deployment_started_from_boc_b64 X T boc =
    Inr \<lparr>ds_destination_chain = chain, ds_token_id = n, ds_token_name = name, ds_token_symbol = symbol, ds_decimals = d\<rparr>"
  unfolding its_deployment_started_from_boc_b64_def
  by (rule then_open [OF assms(1,3)]) (erule reads | rule assms | simp)+

lemma transfer_decode:
  assumes "from_boc_b64 T boc = Inr c" "n < 2 ^ 256" "s < 2 ^ 256" "m < 2 ^ 256"
    "cell_is V c (bits_be 32 (unat OP_INTERCHAIN_TRANSFER_LOG) @ bits_be 256 n @ bits_be 256 m @ r)
       (c1 # c2 # c3 # c4 # cs)"
    "cell_is V c1 (bits_be 256 s @ r1) cs1" "address_of_uint X s = Inr a" "holds_string V c2 chain" "holds_bytes V c3 dest"
  shows "its_interchain_transfer_from_boc_b64 X T boc =
    Inr \<lparr>it_token_id = n, it_sender_address = a, it_destination_chain = chain,
         it_destination_address = ''0x'' @ hex_encode X dest, it_jetton_amount = m, it_data = cell_data T c4\<rparr>"
  unfolding its_interchain_transfer_from_boc_b64_def
  by (rule then_open [OF assms(1,5)]) (erule reads | rule assms | simp only: assms(7) and_then_Inr)+

lemma link_decode:
  assumes "from_boc_b64 T boc = Inr c" "n < 2 ^ 256" "s < 2 ^ 256" "token_manager_type_of k = Inr kind"
    "cell_is V c (bits_be 32 (unat OP_LINK_TOKEN_STARTED_LOG) @ bits_be 256 n @ bits_be 8 (unat k) @ r)
       (c1 # c2 # c3 # cs)"
    "cell_is V c2 (bits_be 256 s @ r2) cs2" "address_of_uint X s = Inr a" "holds_string V c1 chain" "holds_bytes V c3 dest"
  shows "its_link_token_started_from_boc_b64 X T boc =
    Inr \<lparr>lt_token_id = n, lt_destination_chain = chain, lt_source_token_address = a,
         lt_destination_token_address = ''0x'' @ hex_encode X dest, lt_token_manager_type = kind\<rparr>"
  unfolding its_link_token_started_from_boc_b64_def
  by (rule then_open [OF assms(1,5)]) (erule reads | rule assms | simp only: assms(4,7) and_then_Inr)+

end

section \<open>The relayer's own messages\<close>

lemma fmt_08X_5: "fmt_08X 0x00000005 = ''00000005''"
proof -
  have "replicate 7 CHR ''0'' = ''0000000''" by (simp add: eval_nat_numeral)
  then show ?thesis
    by (simp add: fmt_08X_def to_str_radix_def radix_digits.simps upper_hex_char_def digit_char_def char_of_def bit_0)
qed

context ton_cells
begin

lemma nullified_decode:
  assumes "from_boc_b64 T boc = Inr c" "hex_encode X [0, 0, 0, 5] = ''00000005''"
    "cell_is V c (bits_be 32 (unat OP_NULLIFIED_SUCCESSFULLY) @ r) (c1 # c2 # c3 # c4 # cs)"
    "holds_string V c1 mid" "holds_string V c2 chain" "holds_string V c3 sender"
    "cell_is V c4 r4 (c5 # c6 # c7 # cs4)" "holds_bytes V c5 pay" "holds_bytes V c6 dest" "holds_string V c7 dest_chain"
  shows "nullified_from_boc_b64 X T boc =
    Inr \<lparr>nm_message_id = mid, nm_source_chain = chain, nm_source_address = sender, nm_destination_chain = dest_chain,
         nm_destination_address = dest, nm_payload = hex_encode X pay\<rparr>"
proof -
  have op: "bits_be 32 (unat OP_NULLIFIED_SUCCESSFULLY) = bytes_bits [0, 0, 0, 5]"
    by (rule bits_val_inject) (simp_all add: bits_val_be OP_NULLIFIED_SUCCESSFULLY_def bits_val_bytes_bits from_bytes_be_def
        del: bytes_bits_Cons bytes_bits_append)
  have hex: "hex_encode X [0, 0, 0, 5] = fmt_08X OP_NULLIFIED_SUCCESSFULLY"
    by (simp only: assms(2) OP_NULLIFIED_SUCCESSFULLY_def fmt_08X_5)
  have rd: "and_then (boc_read (load_bits T 32) p) (case_prod f) = R"
    if "feeds V p (bytes_bits [0, 0, 0, 5] @ bs) ds" "\<And>q. feeds V q bs ds \<Longrightarrow> f [0, 0, 0, 5] q = R"
    for p R bs ds and f :: "_ \<Rightarrow> _ \<Rightarrow> boc_error + nullified_message"
    using bits_ok [of p "[0, 0, 0, 5]" bs 32] that by (auto simp: feeds_def boc_read_def)
  show ?thesis
    unfolding nullified_from_boc_b64_def
    by (rule then_open [OF assms(1) assms(3) [unfolded op]])
      (erule rd reads | rule assms | simp only: hex if_False not_True_eq_False refl)+
qed

text \<open>
  The path of the wrapped decoder: action list, message, body, execute message, and its first two
  references.
\<close>

lemma relayer_execute_wrapped_decode:
  assumes "from_boc_b64 T boc = Inr c" "cell_is V c r (l # cs)" "cell_is V l r1 (prev # tm # cs1)"
    "cell_is V tm r2 (body # cs2)" "cell_is V body r3 (msg # cs3)" "cell_is V msg r4 (c1 # c2 # cs4)"
    "cell_to_string T c1 = Inr mid" "cell_to_string T c2 = Inr chain"
  shows "relayer_execute_wrapped_from_boc_b64 T boc = Inr \<lparr>rew_message_id = mid, rew_source_chain = chain\<rparr>"
  unfolding relayer_execute_wrapped_from_boc_b64_def
  by (rule then_open [OF assms(1,2)]) (erule reads | rule assms | simp only: assms(7,8) map_err_Inr and_then_Inr)+

end

lemma cell_to_string_of_buffer:
  "cell_to_buffer T c = Inr (as_bytes s) \<Longrightarrow> utf8_valid (as_bytes s) \<Longrightarrow> cell_to_string T c = Inr s"
  by (simp add: cell_to_string_def from_utf8_as_bytes)

section \<open>Properties\<close>

text \<open>
  Claim C25: The decoders of the gateway's logs read what the gateway writes. From a cell with
  the layout of a contract call, an approved message, an executed message or a rotation of the
  signers, each decoder returns exactly the values the cell holds: strings and payloads of any
  length, standard addresses, hashes and destinations of 32 bytes, a signers hash below
  \<open>2^256\<close> and an epoch below \<open>2^64\<close>.
\<close>

theorem gateway_logs_decode:
  assumes tc: "ton_cells T V" and boc: "from_boc_b64 T boc = Inr c"
    and "std_address a" "length h = 32" "length dest = 32" "n < 2 ^ 256" "e < 2 ^ 64"
    and "holds_string V c1 s1" "holds_string V c2 s2" "holds_string V c3 s3" "holds_string V c4 s4"
    and "holds_bytes V p pay" "holds_bytes V d dest" and "hex_encode X [0, 0, 0, 5] = ''00000005''"
  shows "(cell_is V c (address_bits V a @ bytes_bits h @ r) (c1 # c2 # p # cs) \<longrightarrow>
      call_contract_from_boc_b64 X T boc =
        Inr \<lparr>ccm_destination_chain = s1, ccm_destination_address = s2, ccm_payload = hex_encode X pay,
             ccm_source_address = a, ccm_payload_hash = h\<rparr>)
    \<and> (cell_is V c r (c1 # c2 # c3 # i # cs) \<and> cell_is V i (bytes_bits h @ r') (d # c4 # cs') \<longrightarrow>
      cc_message_from_boc_b64 X T boc =
        Inr \<lparr>cc_message_id = s1, cc_destination_address = address_to_hex X (TonAddress WORKCHAIN dest),
             cc_destination_chain = s4, cc_source_address = s3, cc_source_chain = s2, cc_log_event = [],
             cc_payload_hash = h\<rparr>)
    \<and> (cell_is V c (bits_be 32 5 @ r) (c1 # c2 # c3 # i # cs) \<and> cell_is V i r' (p # d # c4 # cs') \<longrightarrow>
      nullified_from_boc_b64 X T boc =
        Inr \<lparr>nm_message_id = s1, nm_source_chain = s2, nm_source_address = s3, nm_destination_chain = s4,
             nm_destination_address = dest, nm_payload = hex_encode X pay\<rparr>)
    \<and> (cell_is V c (bits_be 32 0x2A @ bits_be 256 n @ bits_be 256 e @ r) (c1 # cs) \<longrightarrow>
      signers_rotated_from_boc_b64 X T boc =
        Inr \<lparr>sr_signers_hash = ''0x'' @ hex_encode X (to_bytes_be n), sr_epoch = word_of_nat e\<rparr>)"
  using ton_cells.call_contract_decoded [OF tc boc, of a h r c1 c2 p cs s1 s2 pay X]
    ton_cells.cc_message_decode [OF tc boc, of r c1 c2 c3 i cs s1 s2 s3 h r' d c4 cs' dest s4 X]
    ton_cells.nullified_decode [OF tc boc, of X r c1 c2 c3 i cs s1 s2 s3 r' p d c4 cs' pay dest s4]
    ton_cells.signers_rotated_decode [OF tc boc, of n e r c1 cs X] assms
  by (intro conjI impI; (elim conjE)?) (simp_all add: OP_NULLIFIED_SUCCESSFULLY_def OP_SIGNERS_ROTATED_LOG_def)

definition hex_crates :: crates where
  "hex_crates = sample_crates\<lparr>hex_encode := (\<lambda>bs. if bs = [0, 0, 0, 5] then ''00000005'' else str_of_bytes bs)\<rparr>"

lemma gateway_logs_decode_witness:
  "call_contract_from_boc_b64 hex_crates (tree_tonlib (\<lambda>_. Inr sample_call_cell)) [] =
     Inr \<lparr>ccm_destination_chain = ''avalanche'', ccm_destination_address = ''0xd7'',
          ccm_payload = hex_encode hex_crates [1, 2, 3], ccm_source_address = sample_std_address,
          ccm_payload_hash = replicate 32 1\<rparr>"
proof -
  let ?s = "leaf (as_bytes ''0xd7'')" and ?c = sample_call_cell
  have hs: "holds_string tree_view (leaf (as_bytes ''avalanche'')) ''avalanche''" "holds_string tree_view ?s ''0xd7''"
    by (simp_all add: leaf_holds_string utf8_valid_avalanche)
  have hb: "holds_bytes tree_view (leaf [1, 2, 3]) [1, 2, 3]" "holds_bytes tree_view (leaf (replicate 32 0)) (replicate 32 0)"
    by (simp_all add: leaf_holds_bytes)
  have c: "cell_is tree_view ?c (address_bits tree_view sample_std_address @ bytes_bits (replicate 32 1) @ [])
      (leaf (as_bytes ''avalanche'') # ?s # leaf [1, 2, 3] # [])"
    by (simp add: cell_is_def sample_call_cell_view)
  show ?thesis
    by (rule gateway_logs_decode [OF tree.ton_cells_axioms sample_call_cell_view(1) sample_std_address_std _ _ _ _ hs hs(2) hs(2) hb,
        where n = 0 and e = 0, THEN conjunct1, rule_format, OF _ _ _ _ _ c])
      (simp_all add: hex_crates_def)
qed

text \<open>
  Claim C26: The decoders of the gas service's logs read what the gas service writes: gas paid
  and added, in the native coin or in jettons, and refunds, with amounts below 2^120 where they
  are coins and below 2^256 where they are numbers of 32 bytes.
\<close>

theorem gas_logs_decode:
  assumes tc: "ton_cells T V" and boc: "from_boc_b64 T boc = Inr c"
    and "std_address a" "std_address b" "std_address s" "length h = 32" "length v = 32" "n < 2 ^ 120"
    and "cell_is V c1 (address_bits V b @ r1) cs1" "holds_string V c2 chain" "holds_string V c3 dest"
  shows "(cell_is V c (address_bits V a @ bytes_bits h @ bytes_bits v @ r) (c1 # c2 # c3 # cs) \<longrightarrow>
      native_gas_paid_from_boc_b64 T boc =
        Inr \<lparr>ngp_sender = a, ngp_payload_hash = h, ngp_msg_value = from_bytes_be v, ngp_refund_address = b,
             ngp_destination_chain = chain, ngp_destination_address = dest\<rparr>)
    \<and> (cell_is V c (bytes_bits h @ address_bits V a @ bytes_bits v @ r) cs \<longrightarrow>
      native_gas_added_from_boc_b64 T boc =
        Inr \<lparr>nga_tx_hash = h, nga_refund_address = a, nga_msg_value = from_bytes_be v\<rparr>)
    \<and> (cell_is V c (bytes_bits h @ address_bits V a @ coins_bits V n @ r) cs \<longrightarrow>
      native_gas_refunded_from_boc_b64 T boc = Inr \<lparr>ngr_tx_hash = h, ngr_address = a, ngr_amount = n\<rparr>)
    \<and> (cell_is V c (address_bits V a @ coins_bits V n @ bytes_bits h @ r) (c1 # c2 # c3 # cs) \<longrightarrow>
      jetton_gas_paid_from_boc_b64 T boc =
        Inr \<lparr>jgp_minter = a, jgp_payload_hash = h, jgp_amount = n, jgp_refund_address = b,
             jgp_destination_chain = chain, jgp_destination_address = dest\<rparr>)
    \<and> (cell_is V c (address_bits V a @ address_bits V s @ coins_bits V n @ bytes_bits h @ r) (c1 # cs) \<longrightarrow>
      jetton_gas_added_from_boc_b64 T boc =
        Inr \<lparr>jga_minter = a, jga_sender = s, jga_tx_hash = h, jga_amount = n, jga_refund_address = b\<rparr>)
    \<and> from_bytes_be v < 2 ^ 256"
  using from_bytes_be_less [of v] assms(7)
    ton_cells.native_gas_paid_decode [OF tc boc, of a b h v r c1 c2 c3 cs r1 cs1 chain dest]
    ton_cells.native_gas_added_decode [OF tc boc, of a h v r cs]
    ton_cells.native_gas_refunded_decode [OF tc boc, of a h n r cs]
    ton_cells.jetton_gas_paid_decode [OF tc boc, of a b h n r c1 c2 c3 cs r1 cs1 chain dest]
    ton_cells.jetton_gas_added_decode [OF tc boc, of a b s h n r c1 cs r1 cs1] assms
  by (intro conjI impI) simp_all

lemma gas_logs_decode_witness:
  "native_gas_refunded_from_boc_b64 (tree_tonlib (\<lambda>_. Inr
      (RCell (bytes_bits (replicate 32 1) @ rc_address sample_std_address @ rc_coins 5) []))) []
   = Inr \<lparr>ngr_tx_hash = replicate 32 1, ngr_address = sample_std_address, ngr_amount = 5\<rparr>"
proof -
  let ?c = "RCell (bytes_bits (replicate 32 1) @ rc_address sample_std_address @ rc_coins 5) []"
  have hs: "holds_string tree_view (leaf (as_bytes ''0xd7'')) ''0xd7''"
    by (simp add: leaf_holds_string utf8_valid_avalanche)
  have c: "cell_is tree_view ?c (bytes_bits (replicate 32 1) @ address_bits tree_view sample_std_address
      @ coins_bits tree_view 5 @ []) []"
    by (simp add: cell_is_def tree_view_def)
  have i: "cell_is tree_view (RCell (rc_address sample_std_address) []) (address_bits tree_view sample_std_address @ []) []"
    by (simp add: cell_is_def tree_view_def)
  show ?thesis
    by (rule gas_logs_decode [OF tree.ton_cells_axioms sample_call_cell_view(1) sample_std_address_std sample_std_address_std
        sample_std_address_std _ _ _ i hs hs, where v = "replicate 32 0", THEN conjunct2, THEN conjunct2, THEN conjunct1,
        rule_format, OF _ _ _ c]) simp_all
qed

text \<open>
  Claim C27: The decoders of the token service's logs read what the token service writes:
  registered metadata and started deployments, with any number of decimals, transfers, and links
  with one of the types of token managers, provided the account id of the sender or the token,
  printed without leading zeros, is an address the library parses.
\<close>

theorem its_logs_decode:
  assumes tr: "ton_reads T V" and boc: "from_boc_b64 T boc = Inr c"
    and "std_address a" "n < 2 ^ 256" "k < 2 ^ 256" "m < 2 ^ 256" "address_of_uint X k = Inr b"
    and "token_manager_type_of y = Inr kind" and "cell_is V i (bits_be 256 k @ r') cs'"
    and "holds_string V c1 s1" "holds_string V c2 s2" "holds_string V c3 s3" "holds_bytes V p dest"
  shows "(cell_is V c (bits_be 32 0x104 @ address_bits V a @ bits_be 8 (unat d) @ r) cs \<longrightarrow>
      token_metadata_registered_from_boc_b64 X T boc = Inr \<lparr>tm_address = a, tm_decimals = d\<rparr>)
    \<and> (cell_is V c (bits_be 32 (unat OP_INTERCHAIN_TOKEN_DEPLOYMENT_STARTED_LOG) @ bits_be 256 n @ bits_be 8 (unat d) @ r)
         (c1 # c2 # x # c3 # cs) \<longrightarrow>
      its_deployment_started_from_boc_b64 X T boc =
        Inr \<lparr>ds_destination_chain = s3, ds_token_id = n, ds_token_name = s1, ds_token_symbol = s2, ds_decimals = d\<rparr>)
    \<and> (cell_is V c (bits_be 32 0x110 @ bits_be 256 n @ bits_be 256 m @ r) (i # c1 # p # x # cs) \<longrightarrow>
      its_interchain_transfer_from_boc_b64 X T boc =
        Inr \<lparr>it_token_id = n, it_sender_address = b, it_destination_chain = s1,
             it_destination_address = ''0x'' @ hex_encode X dest, it_jetton_amount = m, it_data = cell_data T x\<rparr>)
    \<and> (cell_is V c (bits_be 32 0x105 @ bits_be 256 n @ bits_be 8 (unat y) @ r) (c1 # i # p # cs) \<longrightarrow>
      its_link_token_started_from_boc_b64 X T boc =
        Inr \<lparr>lt_token_id = n, lt_destination_chain = s1, lt_source_token_address = b,
             lt_destination_token_address = ''0x'' @ hex_encode X dest, lt_token_manager_type = kind\<rparr>)"
  using ton_reads.metadata_decode [OF tr boc, of a d r cs X]
    ton_reads.deployment_decode [OF tr boc, of n d r c1 c2 x c3 cs s1 s2 s3 X]
    ton_reads.transfer_decode [OF tr boc, of n k m r i c1 p x cs r' cs' X b s1 dest]
    ton_reads.link_decode [OF tr boc, of n k y kind r c1 i p cs r' cs' X b s1 dest] assms
  by (intro conjI impI)
    (simp_all add: OP_TOKEN_METADATA_REGISTERED_LOG_def OP_INTERCHAIN_TRANSFER_LOG_def OP_LINK_TOKEN_STARTED_LOG_def)

lemma its_logs_decode_witness:
  "token_metadata_registered_from_boc_b64 sample_crates
     (tree_tonlib (\<lambda>_. Inr (RCell (bits_be 32 0x104 @ rc_address sample_std_address @ bits_be 8 18) []))) []
   = Inr \<lparr>tm_address = sample_std_address, tm_decimals = 18\<rparr>"
proof -
  let ?c = "RCell (bits_be 32 0x104 @ rc_address sample_std_address @ bits_be 8 18) []"
  have hs: "holds_string tree_view (leaf (as_bytes ''0xd7'')) ''0xd7''"
    by (simp add: leaf_holds_string utf8_valid_avalanche)
  have c: "cell_is tree_view ?c (bits_be 32 0x104 @ address_bits tree_view sample_std_address @ bits_be 8 (unat (18 :: u8)) @ []) []"
    by (simp add: cell_is_def tree_view_def)
  have i: "cell_is tree_view (RCell (bits_be 256 0) []) (bits_be 256 0 @ []) []"
    by (simp add: cell_is_def tree_view_def)
  have k: "address_of_uint sample_crates 0 = Inr (TonAddress 0 (as_bytes (''0:'' @ to_str_radix 16 0)))"
    by (simp add: address_of_uint_def)
  have d: "token_manager_type_of 4 = Inr MintBurn" by (simp add: token_manager_type_of_def)
  show ?thesis
    by (rule its_logs_decode [OF tree.ton_reads_axioms sample_call_cell_view(1) sample_std_address_std _ _ _ k d i hs hs hs
        leaf_holds_bytes [of "[]"], where n = 0 and m = 0, THEN conjunct1, rule_format, OF _ _ _ _ c]) simp_all
qed

text \<open>
  The relayer recognises its own message. The execute message that the broadcaster
  puts into an action, and the wallet into the body of its internal transfer, is read back from
  that body by the decoder the ingestor uses for failed executions: the same message id and the
  same source chain.
\<close>

theorem wrapped_execute_roundtrip:
  assumes tm: "ton_messages T V" and hex: "hex_decode X (rem_payload m) = Inr pay"
    and keccak: "length (keccak256 X pay) = 32" and std: "std_address (rem_relayer_address m)"
    and utf8: "utf8_valid (as_bytes (rem_message_id m))" "utf8_valid (as_bytes (rem_source_chain m))"
    and cell: "relayer_execute_to_cell X T m = Inr exec" and ser: "from_boc_hex T boc_hex = Inr exec"
    and act: "out_action T boc_hex value destination = Inr act"
    and body: "internal_transfer_body T [act] qid = Inr body" and boc: "from_boc_b64 T boc = Inr body"
  shows "relayer_execute_wrapped_from_boc_b64 T boc =
    Inr \<lparr>rew_message_id = rem_message_id m, rew_source_chain = rem_source_chain m\<rparr>"
proof -
  have tn: "ton_numbers T V" and tc: "ton_cells T V"
    using tm by (simp_all add: ton_messages_def ton_numbers_def)
  obtain msg inner c1 c2 c3 where exec: "refs_of V exec = [msg]" "refs_of V msg = [c1, c2, c3, inner]"
      "cell_to_buffer T c1 = Inr (as_bytes (rem_message_id m))" "cell_to_buffer T c2 = Inr (as_bytes (rem_source_chain m))"
    using relayer_execute_cell [OF tc hex keccak std] cell by fastforce
  obtain tmc where tmc: "act = SendMsg SEND_MODE_IGNORE_ERRORS tmc" "refs_of V tmc = [exec]"
    using act ser ton_messages.transfer_ok [OF tm] by (auto simp: out_action_def and_then_eq_Inr_iff)
  obtain ob prev where ob: "write_out_list T [act] (new_builder T) = Inr ob" "length (bits_built V ob) \<le> 1023"
      "refs_built V ob = [prev, tmc]"
    using ton_messages.out_list_ok [OF tm] tmc(1) by blast
  obtain oc where oc: "build_cell T ob = Inr oc" "refs_of V oc = [prev, tmc]"
    using ton_cells.build_ok [OF tc, of ob] ob by auto
  have "refs_of V body = [oc]"
    using ton_numbers.internal_transfer_body_cell [OF tn _ ob(1) oc(1), of qid] body by (auto simp: MAX_ACTIONS_def)
  moreover have "cell_to_string T c1 = Inr (rem_message_id m)" "cell_to_string T c2 = Inr (rem_source_chain m)"
    by (rule cell_to_string_of_buffer [OF exec(3) utf8(1)], rule cell_to_string_of_buffer [OF exec(4) utf8(2)])
  ultimately show ?thesis
    using ton_cells.relayer_execute_wrapped_decode [OF tc boc, of _ oc "[]" _ prev tmc "[]" _ exec "[]" _ msg "[]" _ c1 c2 "[c3, inner]"]
      exec(1,2) tmc(2) oc(2) by (simp add: cell_is_def)
qed

text \<open>The encoder depends on the writing half of the library only.\<close>

definition same_builder :: "('c, 'p, 'b) tonlib \<Rightarrow> ('c, 'p, 'b) tonlib \<Rightarrow> bool" where
  "same_builder T T' \<longleftrightarrow> new_builder T = new_builder T' \<and> store_uint T = store_uint T'
     \<and> store_reference T = store_reference T' \<and> store_address T = store_address T' \<and> build_cell T = build_cell T'"

lemma store_bytes_same: "same_builder T T' \<Longrightarrow> store_bytes T bs b = store_bytes T' bs b"
  by (induction bs arbitrary: b) (auto simp: same_builder_def and_then_def split: sum.split)

lemma store_references_same: "same_builder T T' \<Longrightarrow> store_references T cs b = store_references T' cs b"
  by (induction cs arbitrary: b) (auto simp: same_builder_def and_then_def split: sum.split)

lemma build_cell_chain_same:
  assumes "same_builder T T'"
  shows "build_cell_chain T i buf = build_cell_chain T' i buf"
proof (induction "length buf - i" arbitrary: i rule: less_induct)
  case less
  let ?e = "min (i + BYTES_PER_CELL) (length buf)"
  note sel = assms [unfolded same_builder_def, THEN conjunct1] assms [unfolded same_builder_def, THEN conjunct2, THEN conjunct2, THEN conjunct1]
    assms [unfolded same_builder_def, THEN conjunct2, THEN conjunct2, THEN conjunct2, THEN conjunct2]
  show ?case
  proof (cases "?e < length buf")
    case True
    then have rec: "build_cell_chain T ?e buf = build_cell_chain T' ?e buf"
      by (intro less) (auto simp: BYTES_PER_CELL_def)
    show ?thesis
      unfolding build_cell_chain.simps [of _ i] Let_def store_bytes_same [OF assms] sel rec by (rule refl)
  next
    case False
    show ?thesis
      unfolding build_cell_chain.simps [of _ i] Let_def store_bytes_same [OF assms] sel if_not_P [OF False] by (rule refl)
  qed
qed

lemma relayer_execute_to_cell_same:
  assumes "same_builder T T'"
  shows "relayer_execute_to_cell X T m = relayer_execute_to_cell X T' m"
  using assms unfolding relayer_execute_to_cell_def buffer_to_cell_def build_cell_chain_same [OF assms] store_references_same [OF assms]
  by (simp add: same_builder_def)

lemma tree_tonlib_boc: "from_boc_hex (tree_tonlib D) = D" "from_boc_b64 (tree_tonlib D) = D"
  by (simp_all add: tree_tonlib_def)

lemma relayer_execute_to_cell_tree:
  "relayer_execute_to_cell X (tree_tonlib D) m = relayer_execute_to_cell X (tree_tonlib Inl) m"
  by (rule relayer_execute_to_cell_same) (simp add: same_builder_def tree_tonlib_def)

definition sample_execute :: relayer_execute_message where
  "sample_execute =
     \<lparr>rem_message_id = ''0xd7'', rem_source_chain = ''avalanche'', rem_source_address = ''0xd7'',
      rem_destination_chain = ''ton'', rem_destination_address = sample_std_address,
      rem_payload = ''0a0b'', rem_relayer_address = sample_std_address\<rparr>"

lemma wrapped_execute_roundtrip_witness:
  "\<exists>exec act body. relayer_execute_to_cell sample_crates (tree_tonlib Inl) sample_execute = Inr exec
     \<and> out_action (tree_tonlib (\<lambda>_. Inr exec)) ''exec'' 9 sample_std_address = Inr act
     \<and> internal_transfer_body (tree_tonlib Inl) [act] 7 = Inr body
     \<and> relayer_execute_wrapped_from_boc_b64 (tree_tonlib (\<lambda>s. Inr (if s = ''exec'' then exec else body))) ''body''
         = Inr \<lparr>rew_message_id = ''0xd7'', rew_source_chain = ''avalanche''\<rparr>"
proof -
  let ?m = sample_execute
  have k: "hex_decode sample_crates (rem_payload ?m) = Inr (as_bytes ''0a0b'')" "std_address (rem_relayer_address ?m)"
      "utf8_valid (as_bytes (rem_message_id ?m))" "utf8_valid (as_bytes (rem_source_chain ?m))"
    by (simp_all add: sample_execute_def utf8_valid_avalanche)
  have h: "length (keccak256 sample_crates (as_bytes ''0a0b'')) = 32"
    by (simp add: sample_crates_def as_bytes_def)
  obtain exec where exec: "relayer_execute_to_cell sample_crates (tree_tonlib Inl) ?m = Inr exec"
    using relayer_execute_cell [OF tree.ton_cells_axioms k(1) h k(2), of Inl] by blast
  let ?act = "SendMsg SEND_MODE_IGNORE_ERRORS (RCell (rc_address sample_std_address) [exec])"
  have act: "out_action (tree_tonlib D) s 9 sample_std_address = Inr ?act" if "D s = Inr exec" for D s
    using that by (simp add: out_action_def tree_tonlib_def plain_internal_message_def)
  have indep: "internal_transfer_body (tree_tonlib D) [?act] 7 = internal_transfer_body (tree_tonlib Inl) [?act] 7" for D
    by (simp add: internal_transfer_body_def tree_tonlib_def)
  obtain body where body: "internal_transfer_body (tree_tonlib Inl) [?act] 7 = Inr body"
  proof -
    obtain ob where ob: "write_out_list (tree_tonlib Inl) [?act] (new_builder (tree_tonlib Inl)) = Inr ob"
      by (simp add: tree_tonlib_def)
    moreover obtain oc where "build_cell (tree_tonlib Inl) ob = Inr oc" by (simp add: tree_tonlib_def)
    ultimately show ?thesis
      using tree.internal_transfer_body_cell [of "[?act]" Inl ob oc 7] that by (auto simp: MAX_ACTIONS_def)
  qed
  let ?T = "tree_tonlib (\<lambda>s. Inr (if s = ''exec'' then exec else body))"
  have T: "relayer_execute_to_cell sample_crates ?T ?m = Inr exec" "internal_transfer_body ?T [?act] 7 = Inr body"
    by (rule trans [OF relayer_execute_to_cell_tree exec], rule trans [OF indep body])
  have b: "from_boc_hex ?T ''exec'' = Inr exec" "from_boc_b64 ?T ''body'' = Inr body"
    by (simp_all add: tree_tonlib_boc)
  have a: "out_action ?T ''exec'' 9 sample_std_address = Inr ?act" by (rule act) simp
  have "relayer_execute_wrapped_from_boc_b64 ?T ''body'' =
      Inr \<lparr>rew_message_id = rem_message_id ?m, rew_source_chain = rem_source_chain ?m\<rparr>"
    by (rule wrapped_execute_roundtrip [OF tree.ton_messages_axioms k(1) h k(2-4) T(1) b(1) a T(2) b(2)])
  with exec act [of "\<lambda>_. Inr exec"] body show ?thesis
    by (intro exI [of _ exec] exI [of _ ?act] exI [of _ body]) (simp add: sample_execute_def)
qed

end
