(* ===== verification/Event_Reports.thy ===== *)
theory Event_Reports
  imports Recognition Log_Decoders
begin

text \<open>
  The events of a trace, field by field. \<open>Trace_Parser\<close> shows that every event has a
  transaction behind it; here the converse, and more: the whole list of events is a function of
  the transactions, written without parser objects and collections. Every transaction that a
  parser is for is reported in the order of the trace, with the fields of its decoded log; gas
  payments are the exception, since a payment is only reported after the first call with its
  key.
\<close>

section \<open>Reports of the gateway\<close>

abbreviation call_source :: "trace_parser \<Rightarrow> transaction \<Rightarrow> transaction_message option" where
  "call_source E \<equiv> in_opcode_source {OP_CALL_CONTRACT} 0 (tp_gateway_address E)"

abbreviation approval_source :: "trace_parser \<Rightarrow> transaction \<Rightarrow> transaction_message option" where
  "approval_source E \<equiv> in_opcode_source {OP_MESSAGE_APPROVED} 0 (tp_gateway_address E)"

abbreviation execution_source :: "trace_parser \<Rightarrow> transaction \<Rightarrow> transaction_message option" where
  "execution_source E \<equiv> executed_source (tp_gateway_address E)"

abbreviation refund_source :: "trace_parser \<Rightarrow> transaction \<Rightarrow> transaction_message option" where
  "refund_source E \<equiv> in_opcode_source {OP_NATIVE_REFUND} 1 (tp_gas_service_address E)"

definition message_id_of :: "crates \<Rightarrow> transaction \<Rightarrow> string option" where
  "message_id_of X tx = ok_of (hash_to_message_id X (tx_hash tx))"

definition call_report :: "crates \<Rightarrow> ('c, 'p, 'b) tonlib \<Rightarrow> trace_parser \<Rightarrow> string \<Rightarrow> transaction \<Rightarrow> event option" where
  "call_report X T E ts tx =
     Option.bind (logged (call_source E) (call_contract_from_boc_b64 X T) tx) (\<lambda>log.
     Option.bind (message_id_of X tx) (\<lambda>mid.
     Option.bind (ok_of (hex_decode X (ccm_payload log))) (\<lambda>payload.
     Some (Call
       \<lparr>ev_type = ''CALL'', ev_event_id = tx_hash tx,
        ev_meta = Some (tx_meta ts tx (Some
          [(''source_address'', address_to_hex X (ccm_source_address log)),
           (''destination_address'', ccm_destination_address log),
           (''destination_chain'', ccm_destination_chain log)]))\<rparr>
       \<lparr>gm_message_id = mid, gm_source_chain = tp_chain_name E,
        gm_source_address = address_to_hex X (ccm_source_address log),
        gm_destination_address = ccm_destination_address log,
        gm_payload_hash = base64_encode X (ccm_payload_hash log)\<rparr>
       (ccm_destination_chain log) (base64_encode X payload)))))"

definition execution_report ::
    "crates \<Rightarrow> ('c, 'p, 'b) tonlib \<Rightarrow> trace_parser \<Rightarrow> string \<Rightarrow> u64 \<Rightarrow> transaction \<Rightarrow> event option" where
  "execution_report X T E ts gas tx =
     map_option (\<lambda>log.
       MessageExecuted
         \<lparr>ev_type = ''MESSAGE_EXECUTED'', ev_event_id = tx_hash tx,
          ev_meta = Some \<lparr>mem_common_meta = tx_meta ts tx None, mem_command_id = None,
            mem_child_message_ids = None, mem_revert_reason = None\<rparr>\<rparr>
         (nm_message_id log) (nm_source_chain log) SUCCESSFUL (native_amount (u64_to_string gas)))
     (logged (execution_source E) (nullified_from_boc_b64 X T) tx)"

definition approval_report ::
    "crates \<Rightarrow> ('c, 'p, 'b) tonlib \<Rightarrow> trace_parser \<Rightarrow> string \<Rightarrow> u64 \<Rightarrow> transaction \<Rightarrow> event option" where
  "approval_report X T E ts gas tx =
     map_option (\<lambda>log.
       MessageApproved
         \<lparr>ev_type = ''MESSAGE_APPROVED'', ev_event_id = tx_hash tx,
          ev_meta = Some \<lparr>mam_common_meta = tx_meta ts tx None, mam_command_id = None\<rparr>\<rparr>
         \<lparr>gm_message_id = cc_message_id log, gm_source_chain = cc_source_chain log,
          gm_source_address = cc_source_address log, gm_destination_address = cc_destination_address log,
          gm_payload_hash = hex_encode X (cc_payload_hash log)\<rparr>
         (native_amount (u64_to_string gas)))
     (logged (approval_source E) (cc_message_from_boc_b64 X T) tx)"

definition rotation_report :: "crates \<Rightarrow> ('c, 'p, 'b) tonlib \<Rightarrow> trace_parser \<Rightarrow> string \<Rightarrow> transaction \<Rightarrow> event option" where
  "rotation_report X T E ts tx =
     Option.bind (logged (source_of T E Rotation_Log) (signers_rotated_from_boc_b64 X T) tx) (\<lambda>log.
     map_option (\<lambda>mid.
       SignersRotated
         \<lparr>ev_type = ''SIGNERS_ROTATED'', ev_event_id = tx_hash tx @ ''-signers-rotated'',
          ev_meta = Some \<lparr>srm_common_meta = tx_meta ts tx None,
            srm_signers_hash = Some (sr_signers_hash log), srm_epoch = Some (sr_epoch log)\<rparr>\<rparr> mid)
     (message_id_of X tx))"

text \<open>A failed execution is reported for the trace, from the first message of its first transaction.\<close>

definition failed_report :: "('c, 'p, 'b) tonlib \<Rightarrow> trace_parser \<Rightarrow> trace \<Rightarrow> event option list" where
  "failed_report T E tr =
     (if insufficient_gas_matches E tr
      then [Option.bind (get_opt (transactions tr) 0) (\<lambda>tx.
            Option.bind (get_opt (out_msgs tx) 0) (\<lambda>m.
            map_option (\<lambda>log.
              CannotExecuteMessageV2
                \<lparr>ev_type = ''CANNOT_EXECUTE_MESSAGE/V2'',
                 ev_event_id = ''cannot-execute-task-v2-'' @ i64_to_string (end_lt tr), ev_meta = None\<rparr>
                (rew_message_id log) (rew_source_chain log) InsufficientGas (trace_id tr))
            (ok_of (relayer_execute_wrapped_from_boc_b64 T (body (msg_content m))))))]
      else [])"

section \<open>Reports of the gas service\<close>

definition native_credit :: "crates \<Rightarrow> string \<Rightarrow> string \<Rightarrow> transaction \<Rightarrow> ton_address \<Rightarrow> nat \<Rightarrow> event" where
  "native_credit X ts mid tx refund n =
     GasCredit \<lparr>ev_type = ''GAS_CREDIT'', ev_event_id = tx_hash tx @ ''-gas'', ev_meta = Some (tx_meta ts tx None)\<rparr>
       mid (address_to_hex X refund) (native_amount (nat_to_string n))"

text \<open>An amount of jettons in coins, at the prices of the feed.\<close>

definition jetton_value :: "crates \<Rightarrow> 'd prices \<Rightarrow> ton_address \<Rightarrow> nat \<Rightarrow> nat option" where
  "jetton_value X D minter n =
     Option.bind (ok_of (biguint_from_str X (nat_to_string n))) (\<lambda>n.
     ok_of (convert_jetton_to_native X D (address_to_hex X minter) n))"

definition payment_key :: "('c, 'p, 'b) tonlib \<Rightarrow> trace_parser \<Rightarrow> transaction \<Rightarrow> message_matching_key option" where
  "payment_key T E tx =
     (case kind_of T E tx of
        Some Payment_Log \<Rightarrow>
          map_option (\<lambda>log. \<lparr>key_destination_chain = ngp_destination_chain log,
            key_destination_address = ngp_destination_address log, key_payload_hash = ngp_payload_hash log\<rparr>)
          (logged (source_of T E Payment_Log) (native_gas_paid_from_boc_b64 T) tx)
      | Some Jetton_Payment_Log \<Rightarrow>
          map_option (\<lambda>log. \<lparr>key_destination_chain = jgp_destination_chain log,
            key_destination_address = jgp_destination_address log, key_payload_hash = jgp_payload_hash log\<rparr>)
          (logged (source_of T E Jetton_Payment_Log) (jetton_gas_paid_from_boc_b64 T) tx)
      | _ \<Rightarrow> None)"

definition payment_report ::
    "crates \<Rightarrow> ('c, 'p, 'b) tonlib \<Rightarrow> 'd prices \<Rightarrow> trace_parser \<Rightarrow> string \<Rightarrow> string \<Rightarrow> transaction \<Rightarrow> event option" where
  "payment_report X T D E ts mid tx =
     (case kind_of T E tx of
        Some Payment_Log \<Rightarrow>
          map_option (\<lambda>log. native_credit X ts mid tx (ngp_refund_address log) (ngp_msg_value log))
          (logged (source_of T E Payment_Log) (native_gas_paid_from_boc_b64 T) tx)
      | Some Jetton_Payment_Log \<Rightarrow>
          Option.bind (logged (source_of T E Jetton_Payment_Log) (jetton_gas_paid_from_boc_b64 T) tx) (\<lambda>log.
          map_option (native_credit X ts mid tx (jgp_refund_address log))
            (jetton_value X D (jgp_minter log) (jgp_amount log)))
      | _ \<Rightarrow> None)"

definition top_up_report ::
    "crates \<Rightarrow> ('c, 'p, 'b) tonlib \<Rightarrow> trace_parser \<Rightarrow> string \<Rightarrow> transaction \<Rightarrow> event option" where
  "top_up_report X T E ts tx =
     map_option (\<lambda>log.
       native_credit X ts (''0x'' @ tonhash_to_string X (nga_tx_hash log)) tx (nga_refund_address log) (nga_msg_value log))
     (logged (source_of T E Top_Up_Log) (native_gas_added_from_boc_b64 T) tx)"

definition jetton_top_up_report ::
    "crates \<Rightarrow> ('c, 'p, 'b) tonlib \<Rightarrow> 'd prices \<Rightarrow> trace_parser \<Rightarrow> string \<Rightarrow> transaction \<Rightarrow> event option" where
  "jetton_top_up_report X T D E ts tx =
     Option.bind (logged (source_of T E Jetton_Top_Up_Log) (jetton_gas_added_from_boc_b64 T) tx) (\<lambda>log.
     map_option (native_credit X ts (''0x'' @ tonhash_to_string X (jga_tx_hash log)) tx (jga_refund_address log))
       (jetton_value X D (jga_minter log) (jga_amount log)))"

definition refund_report ::
    "crates \<Rightarrow> ('c, 'p, 'b) tonlib \<Rightarrow> trace_parser \<Rightarrow> u64 \<Rightarrow> transaction \<Rightarrow> event option" where
  "refund_report X T E gas tx =
     map_option (\<lambda>log.
       GasRefunded \<lparr>ev_type = ''GAS_REFUNDED'', ev_event_id = tx_hash tx, ev_meta = None\<rparr>
         (''0x'' @ tonhash_to_string X (ngr_tx_hash log)) (address_to_hex X (ngr_address log))
         (native_amount (nat_to_string (ngr_amount log))) (native_amount (u64_to_string gas)))
     (logged (refund_source E) (native_gas_refunded_from_boc_b64 T) tx)"

section \<open>Reports of the token service\<close>

definition its_report ::
    "crates \<Rightarrow> ('c, 'p, 'b) tonlib \<Rightarrow> trace_parser \<Rightarrow> string \<Rightarrow> string \<Rightarrow> transaction \<Rightarrow> event option" where
  "its_report X T E ts mid tx =
     (case kind_of T E tx of
        Some Metadata_Log \<Rightarrow>
          map_option (\<lambda>log.
            ITSTokenMetadataRegistered (its_common ts ''ITS/TOKEN_METADATA_REGISTERED'' ''-its-metadata'' tx) mid
              (hex_without_workchain X (tm_address log)) (tm_decimals log))
          (logged (source_of T E Metadata_Log) (token_metadata_registered_from_boc_b64 X T) tx)
      | Some Deployment_Log \<Rightarrow>
          map_option (\<lambda>log.
            ITSInterchainTokenDeploymentStarted
              (its_common ts ''ITS/INTERCHAIN_TOKEN_DEPLOYMENT_STARTED'' ''-its-interchain-token-deployment-started'' tx) mid
              (ds_destination_chain log)
              \<lparr>itd_id = ''0x'' @ to_str_radix 16 (ds_token_id log), itd_name = ds_token_name log,
               itd_symbol = ds_token_symbol log, itd_decimals = ds_decimals log\<rparr>)
          (logged (source_of T E Deployment_Log) (its_deployment_started_from_boc_b64 X T) tx)
      | Some Transfer_Log \<Rightarrow>
          map_option (\<lambda>log.
            ITSInterchainTransfer (its_common ts ''ITS/INTERCHAIN_TRANSFER'' ''-its-interchain-transfer'' tx) mid
              (it_destination_chain log)
              \<lparr>amt_token_id = Some (''0x'' @ to_str_radix 16 (it_token_id log)),
               amt_amount = nat_to_string (it_jetton_amount log)\<rparr>
              (address_to_hex X (it_sender_address log)) (it_destination_address log)
              (if it_data log = [] then replicate 32 (CHR ''0'') else nat_to_string (payload_hash X (it_data log))))
          (logged (source_of T E Transfer_Log) (its_interchain_transfer_from_boc_b64 X T) tx)
      | Some Link_Log \<Rightarrow>
          map_option (\<lambda>log.
            ITSLinkTokenStarted (its_common ts ''ITS/LINK_TOKEN_STARTED'' ''-its-link-token-started'' tx) mid
              (''0x'' @ to_str_radix 16 (lt_token_id log)) (lt_destination_chain log)
              (hex_without_workchain X (lt_source_token_address log)) (lt_destination_token_address log)
              (lt_token_manager_type log))
          (logged (source_of T E Link_Log) (its_link_token_started_from_boc_b64 X T) tx)
      | _ \<Rightarrow> None)"

section \<open>The report of a trace\<close>

definition call_key :: "crates \<Rightarrow> ('c, 'p, 'b) tonlib \<Rightarrow> trace_parser \<Rightarrow> transaction \<Rightarrow> message_matching_key option" where
  "call_key X T E tx =
     map_option (\<lambda>log. \<lparr>key_destination_chain = ccm_destination_chain log,
       key_destination_address = ccm_destination_address log, key_payload_hash = ccm_payload_hash log\<rparr>)
     (logged (call_source E) (call_contract_from_boc_b64 X T) tx)"

text \<open>The last payment with a key.\<close>

definition payment_for :: "('c, 'p, 'b) tonlib \<Rightarrow> trace_parser \<Rightarrow> transaction list \<Rightarrow> message_matching_key \<Rightarrow> transaction option" where
  "payment_for T E txs k = find (\<lambda>tx. payment_key T E tx = Some k) (rev txs)"

text \<open>
  The calls with their payments: a call takes the payment with its key, and a later call with the
  same key finds none.
\<close>

fun charged_calls ::
    "crates \<Rightarrow> ('c, 'p, 'b) tonlib \<Rightarrow> 'd prices \<Rightarrow> trace_parser \<Rightarrow> string \<Rightarrow> (message_matching_key \<rightharpoonup> transaction)
     \<Rightarrow> transaction list \<Rightarrow> event option list" where
  "charged_calls X T D E ts payment [] = []"
| "charged_calls X T D E ts payment (tx # txs) =
     call_report X T E ts tx #
     (case Option.bind (call_key X T E tx) payment of
        None \<Rightarrow> charged_calls X T D E ts payment txs
      | Some paid \<Rightarrow>
          Option.bind (message_id_of X tx) (\<lambda>mid. payment_report X T D E ts mid paid) #
          charged_calls X T D E ts (payment(the (call_key X T E tx) := None)) txs)"

definition its_reports ::
    "crates \<Rightarrow> ('c, 'p, 'b) tonlib \<Rightarrow> trace_parser \<Rightarrow> string \<Rightarrow> transaction list \<Rightarrow> transaction list \<Rightarrow> event option list" where
  "its_reports X T E ts calls txs =
     map (\<lambda>(call, tx). Option.bind (message_id_of X call) (\<lambda>mid. its_report X T E ts mid tx)) (zip calls txs)"

text \<open>What each of \<open>k\<close> approvals is charged; the count is kept in 64 bits.\<close>

definition approval_share :: "u64 \<Rightarrow> nat \<Rightarrow> u64" where
  "approval_share gas k = (let n = word_of_nat k in if n = 0 then 0 else gas div n)"

definition plain_report ::
    "crates \<Rightarrow> ('c, 'p, 'b) tonlib \<Rightarrow> 'd prices \<Rightarrow> trace_parser \<Rightarrow> string \<Rightarrow> u64 \<Rightarrow> u64 \<Rightarrow> u64 \<Rightarrow> transaction \<Rightarrow> event option" where
  "plain_report X T D E ts gas share refund tx =
     (case kind_of T E tx of
        Some Execution_Log \<Rightarrow> execution_report X T E ts gas tx
      | Some Approval_Log \<Rightarrow> approval_report X T E ts share tx
      | Some Top_Up_Log \<Rightarrow> top_up_report X T E ts tx
      | Some Jetton_Top_Up_Log \<Rightarrow> jetton_top_up_report X T D E ts tx
      | Some Refund_Log \<Rightarrow> refund_report X T E refund tx
      | Some Rotation_Log \<Rightarrow> rotation_report X T E ts tx
      | _ \<Rightarrow> None)"

definition trace_report ::
    "crates \<Rightarrow> ('c, 'p, 'b) tonlib \<Rightarrow> 'd prices \<Rightarrow> trace_parser \<Rightarrow> string \<Rightarrow> u64 \<Rightarrow> u64 \<Rightarrow> trace \<Rightarrow> event option list" where
  "trace_report X T D E ts gas refund tr =
     (let txs = transactions tr;
          calls = of_kinds T E [Call_Log] txs;
          share = approval_share gas (length (of_kinds T E [Approval_Log] txs)) in
      charged_calls X T D E ts (payment_for T E txs) calls
      @ its_reports X T E ts calls (of_kinds T E its_kinds txs)
      @ failed_report T E tr
      @ map (plain_report X T D E ts gas share refund) (of_kinds T E plain_kinds txs))"

section \<open>From the objects to the reports\<close>

lemma convert_event_simps [simp]:
  "convert_event X D g r n (Call c m chain pay) = Inr (Call c m chain pay)"
  "convert_event X D g r n (MessageApproved c' m a) =
     Inr (MessageApproved c' m (a\<lparr>amt_amount := u64_to_string (if n = 0 then 0 else g div n)\<rparr>))"
  "convert_event X D g r n (MessageExecuted c'' mid chain st a) =
     Inr (MessageExecuted c'' mid chain st (a\<lparr>amt_amount := u64_to_string g\<rparr>))"
  "convert_event X D g r n (GasRefunded c mid rcpt v a) =
     Inr (GasRefunded c mid rcpt v (a\<lparr>amt_amount := u64_to_string r\<rparr>))"
  "convert_event X D g r n (SignersRotated c''' mid) = Inr (SignersRotated c''' mid)"
  "convert_event X D g r n (CannotExecuteMessageV2 c mid chain reason t) = Inr (CannotExecuteMessageV2 c mid chain reason t)"
  "its_id e \<noteq> None \<Longrightarrow> convert_event X D g r n e = Inr e"
  by (simp_all add: convert_event_def) (cases e; simp)

lemma convert_credit:
  "convert_event X D g r n (gas_credit X ts tx mid refund (native_amount (nat_to_string v)))
     = Inr (native_credit X ts mid tx refund v)"
  by (simp add: convert_event_def gas_credit_def native_amount_def native_credit_def)

lemma convert_jetton_credit:
  "convert_event X D g r n (gas_credit X ts tx mid refund
      \<lparr>amt_token_id = Some (address_to_hex X minter), amt_amount = nat_to_string v\<rparr>) = Inr e
    \<longleftrightarrow> map_option (native_credit X ts mid tx refund) (jetton_value X D minter v) = Some e"
proof (cases "biguint_from_str X (nat_to_string v)")
  case (Inr a)
  then show ?thesis
    by (cases "convert_jetton_to_native X D (address_to_hex X minter) a")
      (auto simp: convert_event_def gas_credit_def native_credit_def jetton_value_def split: exn.splits)
qed (simp add: convert_event_def gas_credit_def jetton_value_def)

lemma hash_message_id_iff: "hash_message_id X tx = Inr r \<longleftrightarrow> (\<exists>mid. message_id_of X tx = Some mid \<and> r = Some mid)"
  by (cases "hash_to_message_id X (tx_hash tx)") (auto simp: hash_message_id_def message_id_of_def)

lemmas event_facts = event_defs message_id_defs own_message_id_def given_message_id_def hash_message_id_iff take_log_def
  and_then_eq_Inr_iff map_err_eq_Inr_iff ok_or_eq_Inr_iff

lemma ok_of_iff: "ok_of r = Some a \<longleftrightarrow> r = Inr a"
  by (cases r) auto

lemma call_object:
  assumes "object_of X T E tx p" "kind_of T E tx = Some Call_Log"
  shows "\<exists>k. parser_key p = Inr k \<and> call_key X T E tx = Some k"
    and "parser_event X ts None p = Inr e \<longleftrightarrow> call_report X T E ts tx = Some e"
    and "parser_message_id X p = Inr r \<longleftrightarrow> (\<exists>mid. message_id_of X tx = Some mid \<and> r = Some mid)"
proof -
  obtain q log where q: "p = PCallContract q" "lp_tx q = tx" "lp_log q = Some log" "lp_chain_name q = tp_chain_name E"
      "logged (call_source E) (call_contract_from_boc_b64 X T) tx = Some log"
    using assms by (cases p) (auto simp: object_of_def holds_log_def)
  then show "\<exists>k. parser_key p = Inr k \<and> call_key X T E tx = Some k"
      "parser_message_id X p = Inr r \<longleftrightarrow> (\<exists>mid. message_id_of X tx = Some mid \<and> r = Some mid)"
    by (simp_all add: call_key_def call_contract_key_def event_facts)
  from q show "parser_event X ts None p = Inr e \<longleftrightarrow> call_report X T E ts tx = Some e"
    by (auto simp: call_report_def event_facts bind_eq_Some_conv ok_of_iff Let_def)
qed

lemma payment_object:
  assumes "object_of X T E tx p" "kind_of T E tx \<in> Some ` set payment_kinds"
  shows "payment_key T E tx = Some (projr (parser_key p))"
    and "(\<exists>e. parser_event X ts (Some mid) p = Inr e \<and> convert_event X D g r n e = Inr e')
      \<longleftrightarrow> payment_report X T D E ts mid tx = Some e'"
  using assms
  by (cases p; auto simp: object_of_def holds_log_def payment_kinds_def payment_key_def payment_report_def
      convert_credit convert_jetton_credit native_gas_paid_key_def jetton_gas_paid_key_def event_facts)+

lemma its_object:
  assumes "object_of X T E tx p" "kind_of T E tx \<in> Some ` set its_kinds"
  shows "\<exists>e. parser_event X ts (Some mid) p = Inr e \<and> its_report X T E ts mid tx = Some e"
  using assms
  by (cases p) (auto simp: object_of_def holds_log_def its_kinds_def its_report_def event_facts split del: if_split)

lemma its_report_kept: "its_report X T E ts mid tx = Some e \<Longrightarrow> convert_event X D g r n e = Inr e' \<longleftrightarrow> e' = e"
  by (auto simp: its_report_def split: option.splits log_kind.splits)

lemma call_report_kept: "call_report X T E ts tx = Some e \<Longrightarrow> convert_event X D g r n e = Inr e' \<longleftrightarrow> e' = e"
  by (auto simp: call_report_def bind_eq_Some_conv)

lemma plain_object:
  assumes "object_of X T E tx p" "kind_of T E tx \<in> Some ` set plain_kinds"
  shows "(\<exists>e. parser_event X ts None p = Inr e \<and> convert_event X D g r n e = Inr e')
    \<longleftrightarrow> plain_report X T D E ts g (if n = 0 then 0 else g div n) r tx = Some e'"
  using assms
  by (cases p; auto simp: object_of_def holds_log_def plain_kinds_def plain_report_def event_facts
      convert_credit convert_jetton_credit
      execution_report_def approval_report_def top_up_report_def jetton_top_up_report_def refund_report_def rotation_report_def
      native_amount_def [where a = "''0''"] native_amount_def [where a = "u64_to_string _"])

section \<open>From the loops to the report\<close>

lemma of_kinds_all: "tx \<in> set (of_kinds T E ks txs) \<Longrightarrow> kind_of T E tx \<in> Some ` set ks"
  by (auto simp: of_kinds_def split: option.splits)

lemma list_all2_kinds:
  assumes "list_all2 (object_of X T E) (of_kinds T E ks txs) ps"
  shows "list_all2 (\<lambda>tx p. object_of X T E tx p \<and> kind_of T E tx \<in> Some ` set ks) (of_kinds T E ks txs) ps"
  using assms by (auto simp: list_all2_conv_all_nth intro!: of_kinds_all [OF nth_mem])

lemma map_Some_iff: "map Some ys = map f xs \<longleftrightarrow> list_all2 (\<lambda>x y. f x = Some y) xs ys"
  by (induction xs arbitrary: ys) (auto simp: list_all2_Cons1 map_eq_Cons_conv)

text \<open>The map of the payments and the payments of the trace.\<close>

definition payments_match ::
    "crates \<Rightarrow> ('c, 'p, 'b) tonlib \<Rightarrow> trace_parser \<Rightarrow> (message_matching_key \<rightharpoonup> dyn_parser)
     \<Rightarrow> (message_matching_key \<rightharpoonup> transaction) \<Rightarrow> bool" where
  "payments_match X T E m payment \<longleftrightarrow>
     (\<forall>k. rel_option (\<lambda>p tx. object_of X T E tx p \<and> kind_of T E tx \<in> Some ` set payment_kinds) (m k) (payment k))"

lemma find_filter: "(\<And>x. P x \<Longrightarrow> Q x) \<Longrightarrow> find P (filter Q xs) = find P xs"
  by (induction xs) auto

lemma payment_key_kind: "payment_key T E tx = Some k \<Longrightarrow> kind_of T E tx \<in> Some ` set payment_kinds"
  by (auto simp: payment_key_def payment_kinds_def split: option.splits log_kind.splits)

lemma payments_match_trace:
  assumes "list_all2 (object_of X T E) (of_kinds T E payment_kinds txs) ps"
  shows "payments_match X T E (map_of (rev (keyed ps))) (payment_for T E txs)"
proof -
  have "list_all2 (\<lambda>tx p. object_of X T E tx p \<and> kind_of T E tx \<in> Some ` set payment_kinds)
      (rev (of_kinds T E payment_kinds txs)) (rev ps)"
    using list_all2_kinds [OF assms] by (simp add: list_all2_rev)
  then have "rel_option (\<lambda>p tx. object_of X T E tx p \<and> kind_of T E tx \<in> Some ` set payment_kinds)
      (map_of (keyed (rev ps)) k) (find (\<lambda>tx. payment_key T E tx = Some k) (rev (of_kinds T E payment_kinds txs)))" for k
    by (induction rule: list_all2_induct) (auto simp: keyed_def payment_object)
  moreover have "find (\<lambda>tx. payment_key T E tx = Some k) (rev (of_kinds T E payment_kinds txs)) = payment_for T E txs k" for k
    unfolding payment_for_def of_kinds_def rev_filter
    by (rule find_filter) (auto dest!: payment_key_kind)
  moreover have "rev (keyed ps) = keyed (rev ps)" by (simp add: keyed_def rev_map)
  ultimately show ?thesis by (simp add: payments_match_def)
qed

lemma payments_match_taken: "payments_match X T E m payment \<Longrightarrow> payments_match X T E (m(k := None)) (payment(k := None))"
  by (simp add: payments_match_def)

abbreviation conv_all :: "crates \<Rightarrow> 'd prices \<Rightarrow> u64 \<Rightarrow> u64 \<Rightarrow> u64 \<Rightarrow> event list \<Rightarrow> event list \<Rightarrow> bool" where
  "conv_all X D g r n \<equiv> list_all2 (\<lambda>e e'. convert_event X D g r n e = Inr e')"

lemma conv_all_Cons: "conv_all X D g r n (e # es) es' \<longleftrightarrow>
    (\<exists>e' es''. es' = e' # es'' \<and> convert_event X D g r n e = Inr e' \<and> conv_all X D g r n es es'')"
  by (auto simp: list_all2_Cons1)

text \<open>One round of the loop over the calls, without and with a payment.\<close>

lemma call_events_unpaid:
  assumes "object_of X T E tx cc" "kind_of T E tx = Some Call_Log" "parser_key cc = Inr key" "m key = None"
  shows "(\<exists>es. call_events X ts (cc # ccs) m = Inr es \<and> conv_all X D g r n es es') \<longleftrightarrow>
    (\<exists>call es1. call_report X T E ts tx = Some call \<and> es' = call # es1
      \<and> (\<exists>es. call_events X ts ccs m = Inr es \<and> conv_all X D g r n es es1))"
  using assms(3, 4)
  by (auto simp: and_then_eq_Inr_iff conv_all_Cons call_object(2) [OF assms(1, 2)] call_report_kept; blast)

lemma call_events_paid:
  assumes obj: "object_of X T E tx cc" "kind_of T E tx = Some Call_Log" and key: "parser_key cc = Inr key" "m key = Some p"
  shows "(\<exists>es. call_events X ts (cc # ccs) m = Inr es \<and> conv_all X D g r n es es') \<longleftrightarrow>
    (\<exists>call mid credit es1. es' = call # credit # es1 \<and> call_report X T E ts tx = Some call \<and> message_id_of X tx = Some mid
      \<and> (\<exists>e. parser_event X ts (Some mid) p = Inr e \<and> convert_event X D g r n e = Inr credit)
      \<and> (\<exists>es. call_events X ts ccs (m(key := None)) = Inr es \<and> conv_all X D g r n es es1))" (is "?returns \<longleftrightarrow> ?parts")
proof
  assume ?returns
  then obtain call mid credit es1 where e: "call_report X T E ts tx = Some call" "message_id_of X tx = Some mid"
      "parser_event X ts (Some mid) p = Inr credit" "call_events X ts ccs (m(key := None)) = Inr es1"
      and conv: "conv_all X D g r n (call # credit # es1) es'"
    using key by (auto simp: and_then_eq_Inr_iff ok_or_eq_Inr_iff call_object(2, 3) [OF obj])
  from conv obtain credit' es1' where "es' = call # credit' # es1'" "convert_event X D g r n credit = Inr credit'"
      "conv_all X D g r n es1 es1'"
    using call_report_kept [OF e(1), of D g r n] by (auto simp: conv_all_Cons)
  with e show ?parts by blast
next
  assume ?parts
  then obtain call mid credit credit' es1 es1' where c: "es' = call # credit' # es1'" "call_report X T E ts tx = Some call"
      "message_id_of X tx = Some mid" "parser_event X ts (Some mid) p = Inr credit"
      "convert_event X D g r n credit = Inr credit'" "call_events X ts ccs (m(key := None)) = Inr es1"
      "conv_all X D g r n es1 es1'"
    by blast
  then have "parser_event X ts None cc = Inr call" "parser_message_id X cc = Inr (Some mid)"
    by (simp_all add: call_object(2, 3) [OF obj])
  with key c have "call_events X ts (cc # ccs) m = Inr (call # credit # es1)" by simp
  moreover have "conv_all X D g r n (call # credit # es1) es'"
    using c by (simp add: call_report_kept)
  ultimately show ?returns by blast
qed

lemma call_events_charged:
  assumes "list_all2 (object_of X T E) txs ccs" "\<forall>tx \<in> set txs. kind_of T E tx = Some Call_Log"
    "payments_match X T E m payment"
  shows "(\<exists>es. call_events X ts ccs m = Inr es \<and> conv_all X D g r n es es')
    \<longleftrightarrow> map Some es' = charged_calls X T D E ts payment txs"
  using assms
proof (induction arbitrary: m payment es' rule: list_all2_induct)
  case (Cons tx txs cc ccs)
  have k: "kind_of T E tx = Some Call_Log" and ks: "\<forall>tx \<in> set txs. kind_of T E tx = Some Call_Log"
    using Cons.prems by simp_all
  obtain key where key: "parser_key cc = Inr key" "call_key X T E tx = Some key"
    using call_object(1) [OF Cons.hyps(1) k] by blast
  have pm: "rel_option (\<lambda>p tx. object_of X T E tx p \<and> kind_of T E tx \<in> Some ` set payment_kinds) (m key) (payment key)"
    using Cons.prems(2) by (simp add: payments_match_def)
  show ?case
  proof (cases "m key")
    case None
    with pm have "payment key = None" by simp
    with key(2) show ?thesis
      unfolding call_events_unpaid [OF Cons.hyps(1) k key(1), of m, OF None] Cons.IH [OF ks Cons.prems(2)]
      by (auto simp: map_eq_Cons_conv)
  next
    case (Some p)
    with pm obtain paid where paid: "payment key = Some paid" "object_of X T E paid p"
        "kind_of T E paid \<in> Some ` set payment_kinds"
      by (auto simp: option_rel_Some1)
    show ?thesis
      unfolding call_events_paid [OF Cons.hyps(1) k key(1), of m, OF Some] payment_object(2) [OF paid(2, 3)]
        Cons.IH [OF ks payments_match_taken [OF Cons.prems(2), of key]]
      using key(2) paid(1) by (cases "message_id_of X tx") (auto simp: map_eq_Cons_conv)
  qed
qed simp

lemma its_events_reported:
  assumes "list_all2 (\<lambda>tx p. object_of X T E tx p \<and> kind_of T E tx \<in> Some ` set its_kinds) txs ps"
    "list_all2 (object_of X T E) calls ccs" "\<forall>tx \<in> set calls. kind_of T E tx = Some Call_Log"
  shows "(\<exists>es. its_events X ts ccs i ps = Inr es \<and> conv_all X D g r n es es')
    \<longleftrightarrow> map Some es' = its_reports X T E ts (drop i calls) txs \<and> (i + length txs \<le> length calls \<or> txs = [])"
  using assms
proof (induction arbitrary: i es' rule: list_all2_induct)
  case (Cons tx txs p ps)
  show ?case
  proof (cases "i < length calls")
    case True
    then obtain cc where cc: "get_opt ccs i = Some cc" "object_of X T E (calls ! i) cc" "kind_of T E (calls ! i) = Some Call_Log"
      using Cons.prems by (auto simp: get_opt_eq_Some_iff list_all2_conv_all_nth)
    have d: "drop i calls = calls ! i # drop (Suc i) calls" using True by (simp add: Cons_nth_drop_Suc)
    note IH = Cons.IH [OF Cons.prems, of "Suc i"]
    show ?thesis
    proof (cases "message_id_of X (calls ! i)")
      case None
      then have "parser_message_id X cc \<noteq> Inr m" for m using call_object(3) [OF cc(2, 3)] by simp
      with None cc(1) d show ?thesis by (auto simp: its_reports_def and_then_eq_Inr_iff map_eq_Cons_conv)
    next
      case (Some mid)
      then have m: "parser_message_id X cc = Inr (Some mid)" using call_object(3) [OF cc(2, 3)] by simp
      from its_object Cons.hyps(1) obtain e where e: "parser_event X ts (Some mid) p = Inr e" "its_report X T E ts mid tx = Some e"
        by blast
      have "(\<exists>es. its_events X ts ccs i (p # ps) = Inr es \<and> conv_all X D g r n es es')
          \<longleftrightarrow> (\<exists>es1'. es' = e # es1' \<and> (\<exists>es. its_events X ts ccs (Suc i) ps = Inr es \<and> conv_all X D g r n es es1'))"
        using cc(1) m e(1) by (auto simp: and_then_eq_Inr_iff conv_all_Cons its_report_kept [OF e(2)]; blast)
      then show ?thesis unfolding IH using Some e(2) d True by (auto simp: its_reports_def map_eq_Cons_conv)
    qed
  next
    case False
    then have "get_opt ccs i = None" using Cons.prems(1) by (auto simp: get_opt_def list_all2_lengthD)
    with False show ?thesis by simp
  qed
qed (auto simp: its_reports_def)

lemma plain_events_reported:
  assumes "list_all2 (\<lambda>tx p. object_of X T E tx p \<and> kind_of T E tx \<in> Some ` set plain_kinds) txs ps"
  shows "(\<exists>es. try_map (parser_event X ts None) ps = Inr es \<and> conv_all X D g r n es es')
    \<longleftrightarrow> map Some es' = map (plain_report X T D E ts g (if n = 0 then 0 else g div n) r) txs"
  using assms
proof (induction arbitrary: es' rule: list_all2_induct)
  case (Cons tx txs p ps)
  have "(\<exists>es. try_map (parser_event X ts None) (p # ps) = Inr es \<and> conv_all X D g r n es es') \<longleftrightarrow>
      (\<exists>e' es1'. es' = e' # es1' \<and> (\<exists>e. parser_event X ts None p = Inr e \<and> convert_event X D g r n e = Inr e')
        \<and> (\<exists>es. try_map (parser_event X ts None) ps = Inr es \<and> conv_all X D g r n es es1'))"
    by (auto simp: and_then_eq_Inr_iff conv_all_Cons; blast)
  then show ?case
    unfolding Cons.IH using plain_object [of X T E tx p ts D g r n] Cons.hyps(1) by (auto simp: map_eq_Cons_conv)
qed simp

text \<open>The check for a failed execution, with its event.\<close>

lemma failed_run:
  assumes "run = try_parser insufficient_gas_check_match (insufficient_gas_parse T)
      (insufficient_gas_new tr (tp_gateway_address E) (tp_chain_name E))"
  shows "(\<exists>q. run = Inr q) \<longleftrightarrow> None \<notin> set (failed_report T E tr)"
    and "run = Inr q \<Longrightarrow> (\<exists>es. try_map (parser_event X ts None) (failed_parsers T E tr) = Inr es \<and> conv_all X D g r n es es')
      \<longleftrightarrow> map Some es' = failed_report T E tr"
proof -
  show "(\<exists>q. run = Inr q) \<longleftrightarrow> None \<notin> set (failed_report T E tr)"
    unfolding assms
    by (cases "transactions tr"; cases "out_msgs (hd (transactions tr))";
        cases "relayer_execute_wrapped_from_boc_b64 T (body (msg_content (hd (out_msgs (hd (transactions tr))))))")
      (auto simp: try_parser_def insufficient_gas_check_match_def insufficient_gas_new_def insufficient_gas_matches_def
        insufficient_gas_parse_def failed_report_def index_or_panic_def get_opt_def Let_def)
  show "(\<exists>es. try_map (parser_event X ts None) (failed_parsers T E tr) = Inr es \<and> conv_all X D g r n es es')
      \<longleftrightarrow> map Some es' = failed_report T E tr" if q: "run = Inr q"
  proof (cases "insufficient_gas_matches E tr")
    case False
    with q show ?thesis
      by (auto simp: assms failed_parsers_def failed_report_def try_parser_def insufficient_gas_check_match_def
          insufficient_gas_new_def insufficient_gas_matches_def)
  next
    case True
    with q obtain p tx m log where "q = Some p" "eig_log p = Some log" "eig_trace p = tr"
        "get_opt (transactions tr) 0 = Some tx" "get_opt (out_msgs tx) 0 = Some m"
        "relayer_execute_wrapped_from_boc_b64 T (body (msg_content m)) = Inr log"
      by (auto simp: assms try_parser_def insufficient_gas_check_match_def insufficient_gas_new_def insufficient_gas_matches_def
          insufficient_gas_parse_def and_then_eq_Inr_iff map_err_eq_Inr_iff index_or_panic_def get_opt_def
          Let_def split: if_splits sum.splits option.splits)
    with True q show ?thesis
      by (auto simp: assms [symmetric] failed_parsers_def failed_report_def insufficient_gas_event_def list_all2_Cons1
          map_eq_Cons_conv)
  qed
qed

lemma list_all2_filter:
  assumes "list_all2 R xs ys" "\<And>x y. R x y \<Longrightarrow> P x = Q y"
  shows "list_all2 R (filter P xs) (filter Q ys)"
  using assms(1) by (induction rule: list_all2_induct) (auto simp: assms(2))

lemma of_kinds_of_kinds: "set js \<subseteq> set ks \<Longrightarrow> of_kinds T E js (of_kinds T E ks txs) = of_kinds T E js txs"
  by (auto simp: of_kinds_def intro!: filter_cong split: option.splits)

lemma approvals_counted:
  assumes "lists_ok E txs ls" "pl_parsers ls = failed_parsers T E tr @ ps"
    and "list_all2 (object_of X T E) (of_kinds T E plain_kinds txs) ps"
  shows "pl_message_approved_count ls = word_of_nat (length (of_kinds T E [Approval_Log] txs))"
proof -
  have "\<not> is_approval p" if "p \<in> set (failed_parsers T E tr)" for p
    using that by (auto simp: failed_parsers_def split: sum.splits option.splits)
  then have "pl_message_approved_count ls = word_of_nat (length (filter is_approval ps))"
    using assms(1, 2) by (simp add: lists_ok_def filter_False)
  moreover have "list_all2 (object_of X T E) (filter (\<lambda>tx. case kind_of T E tx of None \<Rightarrow> False | Some k \<Rightarrow> k \<in> set [Approval_Log])
      (of_kinds T E plain_kinds txs)) (filter is_approval ps)"
  proof (rule list_all2_filter [OF assms(3)])
    show "(case kind_of T E tx of None \<Rightarrow> False | Some k \<Rightarrow> k \<in> set [Approval_Log]) = is_approval p"
      if "object_of X T E tx p" for tx p
      using that by (cases p) (auto simp: object_of_def)
  qed
  ultimately show ?thesis
    using of_kinds_of_kinds [of "[Approval_Log]" plain_kinds T E txs]
    by (simp add: list_all2_lengthD of_kinds_def plain_kinds_def)
qed

section \<open>The reference\<close>

lemma list_all2_append_iff:
  "list_all2 R (xs @ ys) zs \<longleftrightarrow> (\<exists>us vs. zs = us @ vs \<and> list_all2 R xs us \<and> list_all2 R ys vs)" (is "_ \<longleftrightarrow> ?parts")
proof
  show ?parts if "list_all2 R (xs @ ys) zs" using that unfolding list_all2_append1 by blast
  show "list_all2 R (xs @ ys) zs" if ?parts using that by (auto intro: list_all2_appendI)
qed

lemma try_map_append: "try_map f (xs @ ys) = Inr zs \<longleftrightarrow>
    (\<exists>as bs. zs = as @ bs \<and> try_map f xs = Inr as \<and> try_map f ys = Inr bs)"
  unfolding try_map_eq_Inr_iff by (rule list_all2_append_iff)

lemma map_Some_append: "map Some es = as @ bs \<longleftrightarrow> (\<exists>es1 es2. es = es1 @ es2 \<and> map Some es1 = as \<and> map Some es2 = bs)"
  by (auto simp: map_eq_append_conv)

lemma sections_split:
  "(\<exists>cs us os. A cs \<and> B us \<and> (\<exists>fs ps. os = fs @ ps \<and> F fs \<and> P ps) \<and> conv_all X D g r n (cs @ us @ os) es) \<longleftrightarrow>
    (\<exists>es1 es2 es3 es4. es = es1 @ es2 @ es3 @ es4 \<and> (\<exists>cs. A cs \<and> conv_all X D g r n cs es1)
      \<and> (\<exists>us. B us \<and> conv_all X D g r n us es2) \<and> (\<exists>fs. F fs \<and> conv_all X D g r n fs es3)
      \<and> (\<exists>ps. P ps \<and> conv_all X D g r n ps es4))" (is "?l \<longleftrightarrow> ?r")
proof
  assume ?l
  then obtain cs us fs ps where "A cs" "B us" "F fs" "P ps" "conv_all X D g r n (cs @ us @ fs @ ps) es" by blast
  then show ?r unfolding list_all2_append_iff by blast
next
  assume ?r
  then obtain es1 es2 es3 es4 cs us fs ps where "es = es1 @ es2 @ es3 @ es4" "A cs" "B us" "F fs" "P ps"
      "conv_all X D g r n cs es1" "conv_all X D g r n us es2" "conv_all X D g r n fs es3" "conv_all X D g r n ps es4"
    by blast
  then have "A cs" "B us" "\<exists>fs' ps'. fs @ ps = fs' @ ps' \<and> F fs' \<and> P ps'" "conv_all X D g r n (cs @ us @ fs @ ps) es"
    by (auto intro!: list_all2_appendI)
  then show ?l by blast
qed

lemma loops_reported:
  assumes "create_parsers X T E tr = Inr ls"
  shows "(\<exists>cs us os. call_events X ts (pl_call_contract ls) (pl_gas_credit_map ls) = Inr cs
      \<and> its_events X ts (pl_call_contract ls) 0 (pl_its ls) = Inr us
      \<and> try_map (parser_event X ts None) (pl_parsers ls) = Inr os
      \<and> conv_all X D g r (pl_message_approved_count ls) (cs @ us @ os) es)
    \<longleftrightarrow> map Some es = trace_report X T D E ts g r tr
      \<and> length (of_kinds T E its_kinds (transactions tr)) \<le> length (of_kinds T E [Call_Log] (transactions tr))"
proof -
  let ?txs = "transactions tr" and ?n = "pl_message_approved_count ls"
  let ?calls = "of_kinds T E [Call_Log] ?txs"
  from assms obtain payments others where
      obj: "list_all2 (object_of X T E) ?calls (pl_call_contract ls)"
        "list_all2 (object_of X T E) (of_kinds T E its_kinds ?txs) (pl_its ls)"
        "list_all2 (object_of X T E) (of_kinds T E plain_kinds ?txs) others"
      and pl: "pl_parsers ls = failed_parsers T E tr @ others"
      and pay: "list_all2 (object_of X T E) (of_kinds T E payment_kinds ?txs) payments"
        "pl_gas_credit_map ls = map_of (rev (keyed payments))"
    by (rule create_parsers_collects)
  have n: "?n = word_of_nat (length (of_kinds T E [Approval_Log] ?txs))"
    by (rule approvals_counted [OF create_parsers_ok [OF assms] pl obj(3)])
  have calls: "\<forall>tx \<in> set ?calls. kind_of T E tx = Some Call_Log" using of_kinds_all by force
  obtain q where q: "try_parser insufficient_gas_check_match (insufficient_gas_parse T)
      (insufficient_gas_new tr (tp_gateway_address E) (tp_chain_name E)) = Inr q"
    using assms by (auto simp: create_parsers_def and_then_eq_Inr_iff)
  note reported = call_events_charged [OF obj(1) calls payments_match_trace [OF pay(1)], folded pay(2)]
    its_events_reported [OF list_all2_kinds [OF obj(2)] obj(1) calls, of ts 0, simplified]
    failed_run(2) [OF refl q]
    plain_events_reported [OF list_all2_kinds [OF obj(3)]]
  have share: "(if ?n = 0 then 0 else g div ?n) = approval_share g (length (of_kinds T E [Approval_Log] ?txs))"
    by (simp add: n approval_share_def Let_def)
  have len: "length (of_kinds T E its_kinds ?txs) \<le> length ?calls \<or> of_kinds T E its_kinds ?txs = []
      \<longleftrightarrow> length (of_kinds T E its_kinds ?txs) \<le> length ?calls" by auto
  show ?thesis
    unfolding pl try_map_append sections_split reported trace_report_def Let_def share len map_Some_append by blast
qed

lemma parse_trace_iff:
  assumes "calc_message_gas (tp_our_addresses E) (transactions tr) = Inr gas"
    and "calc_message_gas_native_gas_refunded (tp_our_addresses E) (transactions tr) = Inr refund"
  shows "parse_trace X T D E ts tr = Inr es \<longleftrightarrow>
    map Some es = trace_report X T D E ts gas refund tr
    \<and> length (of_kinds T E its_kinds (transactions tr)) \<le> length (of_kinds T E [Call_Log] (transactions tr))
    \<and> (\<forall>tx \<in> set (transactions tr). readable X T E tx)"
proof -
  let ?run = "try_parser insufficient_gas_check_match (insufficient_gas_parse T)
      (insufficient_gas_new tr (tp_gateway_address E) (tp_chain_name E))"
  have "parse_trace X T D E ts tr = Inr es \<longleftrightarrow> (\<exists>ls. create_parsers X T E tr = Inr ls
      \<and> (\<exists>cs us os. call_events X ts (pl_call_contract ls) (pl_gas_credit_map ls) = Inr cs
        \<and> its_events X ts (pl_call_contract ls) 0 (pl_its ls) = Inr us
        \<and> try_map (parser_event X ts None) (pl_parsers ls) = Inr os
        \<and> conv_all X D gas refund (pl_message_approved_count ls) (cs @ us @ os) es))"
    using assms
    by (auto simp: parse_trace_def gas_used_def and_then_eq_Inr_iff add_gas_used_and_convert_def try_map_eq_Inr_iff)
  also have "\<dots> \<longleftrightarrow> (\<exists>ls. create_parsers X T E tr = Inr ls) \<and> map Some es = trace_report X T D E ts gas refund tr
      \<and> length (of_kinds T E its_kinds (transactions tr)) \<le> length (of_kinds T E [Call_Log] (transactions tr))"
    using loops_reported [of X T E tr _ ts D gas refund es] by blast
  also have "(\<exists>ls. create_parsers X T E tr = Inr ls) \<longleftrightarrow>
      None \<notin> set (failed_report T E tr) \<and> (\<forall>tx \<in> set (transactions tr). readable X T E tx)"
    unfolding failed_run(1) [OF refl, symmetric] create_parsers_txs_returns [symmetric]
    by (cases ?run) (auto simp: create_parsers_def create_parsers_txs_returns)
  finally have iff: "parse_trace X T D E ts tr = Inr es \<longleftrightarrow>
      (None \<notin> set (failed_report T E tr) \<and> (\<forall>tx \<in> set (transactions tr). readable X T E tx))
      \<and> map Some es = trace_report X T D E ts gas refund tr
      \<and> length (of_kinds T E its_kinds (transactions tr)) \<le> length (of_kinds T E [Call_Log] (transactions tr))" .
  have "None \<notin> set (failed_report T E tr)" if "map Some es = trace_report X T D E ts gas refund tr"
    using arg_cong [OF that, of set] by (auto simp: trace_report_def Let_def)
  with iff show ?thesis by blast
qed

end
