(* ===== verification/Trace_Reports.thy ===== *)
theory Trace_Reports
  imports Event_Reports
begin

text \<open>
  What the report of a trace means: the properties of \<open>parse_trace\<close> of
  \<open>src/src/transaction_parser/parser.rs\<close> that follow from its equivalence with
  \<open>trace_report\<close>. Every call and every settlement is reported once, payments are credited to
  the first call with their key, and the events have the types and number formats of the API.
\<close>

section \<open>Kinds of events\<close>

abbreviation is_call :: "event \<Rightarrow> bool" where
  "is_call e \<equiv> call_id e \<noteq> None"

fun executed_event :: "event \<Rightarrow> bool" where
  "executed_event (MessageExecuted c mid chain st a) = True"
| "executed_event _ = False"

fun refunded_event :: "event \<Rightarrow> bool" where
  "refunded_event (GasRefunded c mid r v a) = True"
| "refunded_event _ = False"

fun credit_event :: "event \<Rightarrow> bool" where
  "credit_event (GasCredit c mid r a) = True"
| "credit_event _ = False"

abbreviation settled_event :: "event \<Rightarrow> bool" where
  "settled_event e \<equiv> executed_event e \<or> refunded_event e \<or> approved_event e"

lemma call_report_event: "call_report X T E ts tx = Some e \<Longrightarrow> is_call e \<and> \<not> settled_event e \<and> \<not> credit_event e"
  by (auto simp: call_report_def bind_eq_Some_conv)

lemma payment_report_event:
  "payment_report X T D E ts mid tx = Some e \<Longrightarrow> \<not> is_call e \<and> \<not> settled_event e \<and> credit_event e"
  by (auto simp: payment_report_def native_credit_def bind_eq_Some_conv split: option.splits log_kind.splits)

lemma its_report_event: "its_report X T E ts mid tx = Some e \<Longrightarrow> \<not> is_call e \<and> \<not> settled_event e \<and> \<not> credit_event e"
  by (auto simp: its_report_def split: option.splits log_kind.splits)

lemma failed_report_event: "Some e \<in> set (failed_report T E tr) \<Longrightarrow> \<not> is_call e \<and> \<not> settled_event e \<and> \<not> credit_event e"
  by (auto simp: failed_report_def bind_eq_Some_conv eq_commute [of "Some e"] split: if_splits)

lemma plain_report_event:
  assumes "plain_report X T D E ts gas share refund tx = Some e"
  shows "\<not> is_call e" "executed_event e \<longleftrightarrow> kind_of T E tx = Some Execution_Log"
    "approved_event e \<longleftrightarrow> kind_of T E tx = Some Approval_Log" "refunded_event e \<longleftrightarrow> kind_of T E tx = Some Refund_Log"
    "credit_event e \<longleftrightarrow> kind_of T E tx \<in> {Some Top_Up_Log, Some Jetton_Top_Up_Log}"
  using assms
  by (auto simp: plain_report_def execution_report_def approval_report_def top_up_report_def jetton_top_up_report_def
      refund_report_def rotation_report_def native_credit_def bind_eq_Some_conv split: option.splits log_kind.splits)

section \<open>The sections of a parsed trace\<close>

lemma charged_calls_event:
  assumes "map Some es = charged_calls X T D E ts payment txs" "e \<in> set es"
  shows "(\<exists>tx \<in> set txs. call_report X T E ts tx = Some e)
    \<or> (\<exists>tx \<in> set txs. \<exists>k mid paid. call_key X T E tx = Some k \<and> message_id_of X tx = Some mid
          \<and> payment k = Some paid \<and> payment_report X T D E ts mid paid = Some e)"
  using assms
proof (induction txs arbitrary: payment es)
  case (Cons tx txs)
  show ?case
  proof (cases "Option.bind (call_key X T E tx) payment")
    case None
    with Cons.prems obtain call es1 where "es = call # es1" "call_report X T E ts tx = Some call"
        "map Some es1 = charged_calls X T D E ts payment txs"
      by (auto simp: map_eq_Cons_conv)
    with Cons.IH [of es1 payment] Cons.prems(2) show ?thesis by auto
  next
    case (Some paid)
    with Cons.prems obtain call credit es1 where es: "es = call # credit # es1" "call_report X T E ts tx = Some call"
        "Option.bind (message_id_of X tx) (\<lambda>mid. payment_report X T D E ts mid paid) = Some credit"
        "map Some es1 = charged_calls X T D E ts (payment(the (call_key X T E tx) := None)) txs"
      by (auto simp: map_eq_Cons_conv)
    from Some obtain k where k: "call_key X T E tx = Some k" "payment k = Some paid" by (auto simp: bind_eq_Some_conv)
    from Cons.IH [OF es(4)] es Cons.prems(2) k show ?thesis
      by (fastforce simp: bind_eq_Some_conv split: if_splits)
  qed
qed simp

lemma charged_calls_calls:
  assumes "map Some es = charged_calls X T D E ts payment txs"
  shows "map Some (filter is_call es) = map (call_report X T E ts) txs"
  using assms
proof (induction txs arbitrary: payment es)
  case (Cons tx txs)
  then obtain call es1 where es: "es = call # es1" "call_report X T E ts tx = Some call" by (auto simp: map_eq_Cons_conv)
  note c = conjunct1 [OF call_report_event [OF es(2)]]
  show ?case
  proof (cases "Option.bind (call_key X T E tx) payment")
    case None
    with Cons es c show ?thesis by auto
  next
    case (Some paid)
    with Cons.prems es obtain credit es2 where e2: "es1 = credit # es2"
        "Option.bind (message_id_of X tx) (\<lambda>mid. payment_report X T D E ts mid paid) = Some credit"
        "map Some es2 = charged_calls X T D E ts (payment(the (call_key X T E tx) := None)) txs"
      by (auto simp: map_eq_Cons_conv)
    from e2(2) have "\<not> is_call credit" by (auto simp: bind_eq_Some_conv dest: payment_report_event)
    with Cons.IH [OF e2(3)] es c e2(1) show ?thesis by auto
  qed
qed simp

lemma parse_trace_sections:
  assumes "parse_trace X T D E ts tr = Inr es"
    and "calc_message_gas (tp_our_addresses E) (transactions tr) = Inr gas"
    and "calc_message_gas_native_gas_refunded (tp_our_addresses E) (transactions tr) = Inr refund"
  obtains calls its failed others where "es = calls @ its @ failed @ others"
    "map Some calls = charged_calls X T D E ts (payment_for T E (transactions tr)) (of_kinds T E [Call_Log] (transactions tr))"
    "\<forall>e \<in> set (its @ failed). \<not> is_call e \<and> \<not> settled_event e \<and> \<not> credit_event e"
    "map Some others = map (plain_report X T D E ts gas
       (approval_share gas (length (of_kinds T E [Approval_Log] (transactions tr)))) refund)
       (of_kinds T E plain_kinds (transactions tr))"
proof -
  from assms(1) have "map Some es = trace_report X T D E ts gas refund tr" by (simp add: parse_trace_iff [OF assms(2, 3)])
  then obtain calls its failed others where es: "es = calls @ its @ failed @ others"
    "map Some calls = charged_calls X T D E ts (payment_for T E (transactions tr)) (of_kinds T E [Call_Log] (transactions tr))"
    "map Some its = its_reports X T E ts (of_kinds T E [Call_Log] (transactions tr)) (of_kinds T E its_kinds (transactions tr))"
    "map Some failed = failed_report T E tr"
    "map Some others = map (plain_report X T D E ts gas
       (approval_share gas (length (of_kinds T E [Approval_Log] (transactions tr)))) refund)
       (of_kinds T E plain_kinds (transactions tr))"
    unfolding trace_report_def Let_def map_Some_append by blast
  have "\<not> is_call e \<and> \<not> settled_event e \<and> \<not> credit_event e" if "e \<in> set (its @ failed)" for e
  proof -
    from that have "Some e \<in> set (map Some its) \<or> Some e \<in> set (map Some failed)" by auto
    then show ?thesis
      unfolding es(3, 4) by (auto simp: its_reports_def bind_eq_Some_conv eq_commute [of "Some e"]
          dest: its_report_event failed_report_event)
  qed
  with es that show thesis by blast
qed

lemma filter_reports:
  assumes "map Some es = map f txs" "\<And>tx e. f tx = Some e \<Longrightarrow> Q e \<longleftrightarrow> P tx"
  shows "map Some (filter Q es) = map f (filter P txs)"
  using assms(1)
proof (induction txs arbitrary: es)
  case (Cons tx txs)
  then obtain e es1 where "es = e # es1" "f tx = Some e" "map Some es1 = map f txs" by (auto simp: map_eq_Cons_conv)
  with Cons.IH [of es1] assms(2) show ?case by auto
qed simp

lemma of_kinds_settled:
  assumes "k \<in> set plain_kinds"
  shows "filter (\<lambda>tx. kind_of T E tx = Some k) (of_kinds T E plain_kinds txs) = of_kinds T E [k] txs"
  using assms by (auto simp: of_kinds_def intro!: filter_cong split: option.splits)

lemma settled_reports:
  assumes "map Some others = map (plain_report X T D E ts gas share refund) (of_kinds T E plain_kinds txs)"
  shows "map Some (filter executed_event others)
      = map (execution_report X T E ts gas) (filter (\<lambda>tx. execution_source E tx \<noteq> None) txs)"
    and "map Some (filter approved_event others)
      = map (approval_report X T E ts share) (filter (\<lambda>tx. approval_source E tx \<noteq> None) txs)"
    and "map Some (filter refunded_event others)
      = map (refund_report X T E refund) (filter (\<lambda>tx. refund_source E tx \<noteq> None) txs)"
proof -
  have sel: "map Some (filter Q others) = map f (filter (\<lambda>tx. source_of T E k tx \<noteq> None) txs)"
    if "\<And>tx e. plain_report X T D E ts gas share refund tx = Some e \<Longrightarrow> Q e \<longleftrightarrow> kind_of T E tx = Some k"
      "\<And>tx. kind_of T E tx = Some k \<Longrightarrow> plain_report X T D E ts gas share refund tx = f tx"
      "k \<in> {Execution_Log, Approval_Log, Refund_Log}" for Q f k
  proof -
    have k: "k \<in> set plain_kinds" using that(3) by (auto simp: plain_kinds_def)
    have "map Some (filter Q others) = map (plain_report X T D E ts gas share refund) (of_kinds T E [k] txs)"
      unfolding of_kinds_settled [OF k, symmetric] by (rule filter_reports [OF assms]) (rule that(1))
    moreover have "of_kinds T E [k] txs = filter (\<lambda>tx. source_of T E k tx \<noteq> None) txs"
      by (rule of_kinds_source) (use that(3) in auto)
    moreover have "map (plain_report X T D E ts gas share refund) (of_kinds T E [k] txs) = map f (of_kinds T E [k] txs)"
      by (rule map_cong [OF refl]) (use that(2) of_kinds_all in force)
    ultimately show ?thesis by simp
  qed
  show "map Some (filter executed_event others)
      = map (execution_report X T E ts gas) (filter (\<lambda>tx. execution_source E tx \<noteq> None) txs)"
    by (rule sel [of _ Execution_Log, unfolded source_of.simps], erule plain_report_event(2)) (simp_all add: plain_report_def)
  show "map Some (filter approved_event others)
      = map (approval_report X T E ts share) (filter (\<lambda>tx. approval_source E tx \<noteq> None) txs)"
    by (rule sel [of _ Approval_Log, unfolded source_of.simps], erule plain_report_event(3)) (simp_all add: plain_report_def)
  show "map Some (filter refunded_event others)
      = map (refund_report X T E refund) (filter (\<lambda>tx. refund_source E tx \<noteq> None) txs)"
    by (rule sel [of _ Refund_Log, unfolded source_of.simps], erule plain_report_event(4)) (simp_all add: plain_report_def)
qed

text \<open>
  The credit of a call and its key: the payment that the map holds for the key, under the message
  id of the call. The payments that are credited are one for each key that a call and a payment
  share, and the call is the first with that key.
\<close>

definition credit_report ::
    "crates \<Rightarrow> ('c, 'p, 'b) tonlib \<Rightarrow> 'd prices \<Rightarrow> trace_parser \<Rightarrow> string \<Rightarrow> (message_matching_key \<rightharpoonup> transaction)
      \<Rightarrow> transaction \<times> message_matching_key \<Rightarrow> event option" where
  "credit_report X T D E ts payment = (\<lambda>(tx, k).
     Option.bind (message_id_of X tx) (\<lambda>mid. Option.bind (payment k) (payment_report X T D E ts mid)))"

definition first_calls ::
    "crates \<Rightarrow> ('c, 'p, 'b) tonlib \<Rightarrow> trace_parser \<Rightarrow> transaction list \<Rightarrow> message_matching_key set
      \<Rightarrow> (transaction \<times> message_matching_key) list \<Rightarrow> bool" where
  "first_calls X T E txs keys pairs \<longleftrightarrow>
     distinct (map snd pairs)
     \<and> set (map snd pairs) = {k \<in> keys. \<exists>tx \<in> set txs. call_key X T E tx = Some k}
     \<and> (\<forall>(tx, k) \<in> set pairs. find (\<lambda>tx. call_key X T E tx = Some k) txs = Some tx)"

lemma first_calls_key: "first_calls X T E txs keys pairs \<Longrightarrow> (tx, k) \<in> set pairs \<Longrightarrow> k \<in> keys"
  unfolding first_calls_def set_map by force

lemma first_calls_Cons:
  assumes "first_calls X T E txs (keys - {k}) pairs" "call_key X T E tx = Some k" "k \<in> keys"
  shows "first_calls X T E (tx # txs) keys ((tx, k) # pairs)"
  using assms first_calls_key [OF assms(1)] unfolding first_calls_def by auto

lemma first_calls_skip:
  assumes "first_calls X T E txs keys pairs" "\<And>k. call_key X T E tx = Some k \<Longrightarrow> k \<notin> keys"
  shows "first_calls X T E (tx # txs) keys pairs"
  using assms first_calls_key [OF assms(1)] unfolding first_calls_def by auto

lemma charged_calls_credits:
  assumes "map Some es = charged_calls X T D E ts payment txs"
  shows "\<exists>pairs. first_calls X T E txs (dom payment) pairs
    \<and> map Some (filter credit_event es) = map (credit_report X T D E ts payment) pairs"
  using assms
proof (induction txs arbitrary: payment es)
  case (Cons tx txs)
  from Cons obtain call es1 where es: "es = call # es1" "call_report X T E ts tx = Some call" by (auto simp: map_eq_Cons_conv)
  then have c: "\<not> credit_event call" by (auto dest: call_report_event)
  show ?case
  proof (cases "Option.bind (call_key X T E tx) payment")
    case None
    with Cons.prems es have "map Some es1 = charged_calls X T D E ts payment txs" by simp
    from Cons.IH [OF this] obtain pairs where "first_calls X T E txs (dom payment) pairs"
      "map Some (filter credit_event es1) = map (credit_report X T D E ts payment) pairs" by blast
    moreover have "k \<notin> dom payment" if "call_key X T E tx = Some k" for k using None that by auto
    ultimately show ?thesis using first_calls_skip es(1) c by fastforce
  next
    case (Some paid)
    then obtain k where k: "call_key X T E tx = Some k" "payment k = Some paid" by (auto simp: bind_eq_Some_conv)
    with Some Cons.prems es obtain credit es2 where e2: "es1 = credit # es2"
        "Option.bind (message_id_of X tx) (\<lambda>mid. payment_report X T D E ts mid paid) = Some credit"
        "map Some es2 = charged_calls X T D E ts (payment(k := None)) txs"
      by (auto simp: map_eq_Cons_conv)
    from Cons.IH [OF e2(3), unfolded dom_fun_upd if_P [OF refl]] obtain pairs where pairs: "first_calls X T E txs (dom payment - {k}) pairs"
      "map Some (filter credit_event es2) = map (credit_report X T D E ts (payment(k := None))) pairs" by blast
    have "(x, k) \<notin> set pairs" for x using first_calls_key [OF pairs(1), of x k] by blast
    then have "map (credit_report X T D E ts (payment(k := None))) pairs = map (credit_report X T D E ts payment) pairs"
      by (intro map_cong) (auto simp: credit_report_def)
    moreover have "credit_event credit" using e2(2) by (auto simp: bind_eq_Some_conv dest: payment_report_event)
    moreover have "credit_report X T D E ts payment (tx, k) = Some credit" using e2(2) k(2) by (simp add: credit_report_def)
    moreover have "first_calls X T E (tx # txs) (dom payment) ((tx, k) # pairs)"
      by (rule first_calls_Cons [OF pairs(1) k(1)]) (use k(2) in blast)
    ultimately show ?thesis using es(1) c e2(1) pairs(2) by (intro exI [of _ "(tx, k) # pairs"]) simp
  qed
qed (simp add: first_calls_def)

text \<open>The top ups of a trace, which are reported with the remaining logs.\<close>

lemma top_up_reports:
  assumes "map Some others = map (plain_report X T D E ts gas share refund) (of_kinds T E plain_kinds txs)"
  shows "map Some (filter credit_event others)
    = map (\<lambda>tx. if kind_of T E tx = Some Top_Up_Log then top_up_report X T E ts tx else jetton_top_up_report X T D E ts tx)
        (of_kinds T E [Top_Up_Log, Jetton_Top_Up_Log] txs)"
proof -
  let ?P = "\<lambda>tx. kind_of T E tx \<in> {Some Top_Up_Log, Some Jetton_Top_Up_Log}"
  have kinds: "filter ?P (of_kinds T E plain_kinds txs) = of_kinds T E [Top_Up_Log, Jetton_Top_Up_Log] txs"
    by (auto simp: of_kinds_def plain_kinds_def intro!: filter_cong split: option.splits)
  have "map Some (filter credit_event others)
      = map (plain_report X T D E ts gas share refund) (of_kinds T E [Top_Up_Log, Jetton_Top_Up_Log] txs)"
    unfolding kinds [symmetric] by (rule filter_reports [OF assms]) (rule plain_report_event(5))
  also have "\<dots> = map (\<lambda>tx. if kind_of T E tx = Some Top_Up_Log then top_up_report X T E ts tx else jetton_top_up_report X T D E ts tx)
      (of_kinds T E [Top_Up_Log, Jetton_Top_Up_Log] txs)"
    by (rule map_cong [OF refl]) (auto simp: plain_report_def dest!: of_kinds_all)
  finally show ?thesis .
qed

section \<open>Formats\<close>

text \<open>
  The number format of the API: a decimal numeral, without a token where the amount is in coins.
\<close>

definition decimal :: "string \<Rightarrow> bool" where
  "decimal s \<longleftrightarrow> parse_nat s \<noteq> None"

definition coins :: "amount \<Rightarrow> bool" where
  "coins a \<longleftrightarrow> amt_token_id a = None \<and> decimal (amt_amount a)"

fun well_typed :: "trace_parser \<Rightarrow> event \<Rightarrow> bool" where
  "well_typed E (Call c m chain payload) \<longleftrightarrow> ev_type c = ''CALL'' \<and> ev_meta c \<noteq> None \<and> gm_source_chain m = tp_chain_name E"
| "well_typed E (MessageApproved c m a) \<longleftrightarrow> ev_type c = ''MESSAGE_APPROVED'' \<and> ev_meta c \<noteq> None \<and> coins a"
| "well_typed E (MessageExecuted c mid chain st a) \<longleftrightarrow>
     ev_type c = ''MESSAGE_EXECUTED'' \<and> ev_meta c \<noteq> None \<and> st = SUCCESSFUL \<and> coins a"
| "well_typed E (GasCredit c mid r a) \<longleftrightarrow> ev_type c = ''GAS_CREDIT'' \<and> ev_meta c \<noteq> None \<and> coins a"
| "well_typed E (GasRefunded c mid r v a) \<longleftrightarrow> ev_type c = ''GAS_REFUNDED'' \<and> ev_meta c = None \<and> coins v \<and> coins a"
| "well_typed E (CannotExecuteMessageV2 c mid chain reason t) \<longleftrightarrow>
     ev_type c = ''CANNOT_EXECUTE_MESSAGE/V2'' \<and> ev_meta c = None \<and> reason = InsufficientGas"
| "well_typed E (ITSInterchainTransfer c mid chain a s d h) \<longleftrightarrow>
     ev_type c = ''ITS/INTERCHAIN_TRANSFER'' \<and> ev_meta c \<noteq> None \<and> amt_token_id a \<noteq> None \<and> decimal (amt_amount a)"
| "well_typed E (ITSInterchainTokenDeploymentStarted c mid chain t) \<longleftrightarrow>
     ev_type c = ''ITS/INTERCHAIN_TOKEN_DEPLOYMENT_STARTED'' \<and> ev_meta c \<noteq> None"
| "well_typed E (ITSLinkTokenStarted c mid t chain s d ty) \<longleftrightarrow> ev_type c = ''ITS/LINK_TOKEN_STARTED'' \<and> ev_meta c \<noteq> None"
| "well_typed E (ITSTokenMetadataRegistered c mid a d) \<longleftrightarrow> ev_type c = ''ITS/TOKEN_METADATA_REGISTERED'' \<and> ev_meta c \<noteq> None"
| "well_typed E (SignersRotated c mid) \<longleftrightarrow> ev_type c = ''SIGNERS_ROTATED'' \<and> ev_meta c \<noteq> None"

lemma decimal_numerals [simp]: "decimal (nat_to_string n)" "decimal (u64_to_string w)"
  by (simp_all add: decimal_def u64_to_string_def)

lemma native_amount_coins [simp]: "coins (native_amount s) \<longleftrightarrow> decimal s"
  by (simp add: coins_def native_amount_def)

lemma native_credit_typed [simp]: "well_typed E (native_credit X ts mid tx r n)"
  by (simp add: native_credit_def)

lemma reports_typed:
  "call_report X T E ts tx = Some e \<Longrightarrow> well_typed E e"
  "payment_report X T D E ts mid tx = Some e \<Longrightarrow> well_typed E e"
  "its_report X T E ts mid tx = Some e \<Longrightarrow> well_typed E e"
  "Some e \<in> set (failed_report T E tr) \<Longrightarrow> well_typed E e"
  "plain_report X T D E ts gas share refund tx = Some e \<Longrightarrow> well_typed E e"
  by (auto simp: call_report_def payment_report_def its_report_def its_common_def failed_report_def plain_report_def
      execution_report_def approval_report_def top_up_report_def jetton_top_up_report_def refund_report_def
      rotation_report_def bind_eq_Some_conv eq_commute [of "Some e"] split: option.splits log_kind.splits if_splits)

lemma trace_report_typed:
  assumes "map Some es = trace_report X T D E ts gas refund tr" "e \<in> set es"
  shows "well_typed E e"
proof -
  from assms(1) obtain calls its failed others where es: "es = calls @ its @ failed @ others"
    "map Some calls = charged_calls X T D E ts (payment_for T E (transactions tr)) (of_kinds T E [Call_Log] (transactions tr))"
    "map Some its = its_reports X T E ts (of_kinds T E [Call_Log] (transactions tr)) (of_kinds T E its_kinds (transactions tr))"
    "map Some failed = failed_report T E tr"
    "map Some others = map (plain_report X T D E ts gas
       (approval_share gas (length (of_kinds T E [Approval_Log] (transactions tr)))) refund)
       (of_kinds T E plain_kinds (transactions tr))"
    unfolding trace_report_def Let_def map_Some_append by blast
  from assms(2) es(1) consider "e \<in> set calls" | "Some e \<in> set (map Some its)" | "Some e \<in> set (map Some failed)"
    | "Some e \<in> set (map Some others)" by auto
  then show ?thesis
  proof cases
    case 1
    from charged_calls_event [OF es(2) this] show ?thesis by (auto dest: reports_typed)
  qed (auto simp: es(3-5) its_reports_def bind_eq_Some_conv eq_commute [of "Some e"] dest: reports_typed)
qed

section \<open>Sample data\<close>

text \<open>
  A trace with a contract call, two payments with its key and a gas refund; the bodies of the
  messages name the cells.
\<close>

definition sample_refund_cell :: rcell where
  "sample_refund_cell = RCell (bytes_bits (replicate 32 1) @ rc_address sample_std_address @ rc_coins 5) []"

definition sample_paid_cell :: "u8 \<Rightarrow> rcell" where
  "sample_paid_cell v = RCell (rc_address sample_std_address @ bytes_bits (replicate 32 1) @ bytes_bits (replicate 32 v))
     [RCell (rc_address sample_std_address) [], leaf (as_bytes ''avalanche''), leaf (as_bytes ''0xd7'')]"

abbreviation sample_cells :: "(rcell, rparser, rparser) tonlib" where
  "sample_cells \<equiv> tree_tonlib (\<lambda>boc.
     if boc = ''call'' then Inr sample_call_cell else if boc = ''refund'' then Inr sample_refund_cell
     else Inr (sample_paid_cell (if boc = ''paid'' then 1 else 2)))"

definition sample_paid_tx :: "string \<Rightarrow> transaction" where
  "sample_paid_tx boc =
     sample_transaction (TonAddress 0 [2]) 5 (Some (sample_message None (Some OP_PAY_GAS) [] None)) [sample_message None None boc None]"

definition sample_refund_tx :: transaction where
  "sample_refund_tx =
     sample_transaction (TonAddress 0 [2]) 5 (Some (sample_message None (Some OP_NATIVE_REFUND) [] None))
       [sample_message (Some (TonAddress 0 [8])) None [] None, sample_message None None ''refund'' None]"

abbreviation sample_busy_trace :: trace where
  "sample_busy_trace \<equiv> sample_trace [sample_call_tx, sample_paid_tx ''paid'', sample_paid_tx ''paid again'', sample_refund_tx]"

lemmas sample_defs = sample_call_tx_def sample_paid_tx_def sample_refund_tx_def sample_transaction_def sample_message_def
  sample_env_def get_opt_def in_opcode_source_def

lemma sample_sources [simp]:
  "source_of T sample_env Call_Log sample_call_tx = Some (sample_message None None ''call'' None)"
  "source_of T sample_env Payment_Log (sample_paid_tx boc) = Some (sample_message None None boc None)"
  "source_of T sample_env Refund_Log sample_refund_tx = Some (sample_message None None ''refund'' None)"
  by (simp_all add: sample_defs)

lemma sample_kinds [simp]:
  "kind_of T sample_env sample_call_tx = Some Call_Log"
  "kind_of T sample_env (sample_paid_tx boc) = Some Payment_Log"
  "kind_of T sample_env sample_refund_tx = Some Refund_Log"
  by (simp_all add: kind_of_opcode del: source_of.simps)

lemma sample_from_boc: "from_boc_b64 sample_cells boc =
    (if boc = ''call'' then Inr sample_call_cell else if boc = ''refund'' then Inr sample_refund_cell
     else Inr (sample_paid_cell (if boc = ''paid'' then 1 else 2)))"
  by (simp add: tree_tonlib_def)

lemma sample_strings: "holds_string tree_view (leaf (as_bytes ''avalanche'')) ''avalanche''"
    "holds_string tree_view (leaf (as_bytes ''0xd7'')) ''0xd7''"
  by (simp_all add: leaf_holds_string utf8_valid_avalanche)

lemma sample_decodes:
  "call_contract_from_boc_b64 sample_crates sample_cells ''call'' = Inr sample_call_log"
  "native_gas_refunded_from_boc_b64 sample_cells ''refund''
     = Inr \<lparr>ngr_tx_hash = replicate 32 1, ngr_address = sample_std_address, ngr_amount = 5\<rparr>"
  "boc = ''paid'' \<or> boc = ''paid again'' \<Longrightarrow> native_gas_paid_from_boc_b64 sample_cells boc
     = Inr \<lparr>ngp_sender = sample_std_address, ngp_payload_hash = replicate 32 1,
            ngp_msg_value = from_bytes_be (replicate 32 (if boc = ''paid'' then 1 else 2)),
            ngp_refund_address = sample_std_address, ngp_destination_chain = ''avalanche'',
            ngp_destination_address = ''0xd7''\<rparr>"
proof -
  show "call_contract_from_boc_b64 sample_crates sample_cells ''call'' = Inr sample_call_log"
    unfolding sample_call_log_def
    by (rule ton_cells.call_contract_decoded [OF tree.ton_cells_axioms _ sample_std_address_std _ _ sample_strings,
          where c = sample_call_cell and r = "[]" and cs = "[]" and ?c3.0 = "leaf [1, 2, 3]"])
      (simp_all add: sample_from_boc cell_is_def sample_call_cell_view leaf_holds_bytes)
  show "native_gas_refunded_from_boc_b64 sample_cells ''refund''
      = Inr \<lparr>ngr_tx_hash = replicate 32 1, ngr_address = sample_std_address, ngr_amount = 5\<rparr>"
    by (rule ton_cells.native_gas_refunded_decode [OF tree.ton_cells_axioms, where c = sample_refund_cell and r = "[]" and cs = "[]"])
      (simp_all add: sample_from_boc cell_is_def tree_view_def sample_refund_cell_def)
  show "native_gas_paid_from_boc_b64 sample_cells boc
     = Inr \<lparr>ngp_sender = sample_std_address, ngp_payload_hash = replicate 32 1,
            ngp_msg_value = from_bytes_be (replicate 32 (if boc = ''paid'' then 1 else 2)),
            ngp_refund_address = sample_std_address, ngp_destination_chain = ''avalanche'',
            ngp_destination_address = ''0xd7''\<rparr>" if "boc = ''paid'' \<or> boc = ''paid again''"
    by (rule ton_cells.native_gas_paid_decode [OF tree.ton_cells_axioms _ sample_std_address_std sample_std_address_std _ _ _ _ sample_strings,
          where c = "sample_paid_cell (if boc = ''paid'' then 1 else 2)"
          and r = "[]" and cs = "[]" and ?r1.0 = "[]" and ?cs1.0 = "[]"])
      (use that in \<open>auto simp: sample_from_boc cell_is_def tree_view_def sample_paid_cell_def sample_strings [unfolded tree_view_def]\<close>)
qed

lemma sample_logs [simp]:
  "logged (source_of T sample_env Call_Log) (call_contract_from_boc_b64 sample_crates sample_cells) sample_call_tx = Some sample_call_log"
  "boc = ''paid'' \<or> boc = ''paid again'' \<Longrightarrow>
    logged (source_of T sample_env Payment_Log) (native_gas_paid_from_boc_b64 sample_cells) (sample_paid_tx boc)
     = Some \<lparr>ngp_sender = sample_std_address, ngp_payload_hash = replicate 32 1,
             ngp_msg_value = from_bytes_be (replicate 32 (if boc = ''paid'' then 1 else 2)),
             ngp_refund_address = sample_std_address, ngp_destination_chain = ''avalanche'',
             ngp_destination_address = ''0xd7''\<rparr>"
  "logged (source_of T sample_env Refund_Log) (native_gas_refunded_from_boc_b64 sample_cells) sample_refund_tx
     = Some \<lparr>ngr_tx_hash = replicate 32 1, ngr_address = sample_std_address, ngr_amount = 5\<rparr>"
  by (simp_all add: logged_def sample_decodes sample_message_def del: source_of.simps)

lemma sample_of_kinds [simp]:
  "of_kinds sample_cells sample_env [Call_Log] (transactions sample_busy_trace) = [sample_call_tx]"
  "of_kinds sample_cells sample_env [Approval_Log] (transactions sample_busy_trace) = []"
  "of_kinds sample_cells sample_env its_kinds (transactions sample_busy_trace) = []"
  "of_kinds sample_cells sample_env plain_kinds (transactions sample_busy_trace) = [sample_refund_tx]"
  by (simp_all add: sample_trace_def its_kinds_def plain_kinds_def)

lemma sample_keys [simp]:
  "call_key sample_crates sample_cells sample_env sample_call_tx =
     Some \<lparr>key_destination_chain = ''avalanche'', key_destination_address = ''0xd7'', key_payload_hash = replicate 32 1\<rparr>"
  "payment_for sample_cells sample_env (transactions sample_busy_trace)
     \<lparr>key_destination_chain = ''avalanche'', key_destination_address = ''0xd7'', key_payload_hash = replicate 32 1\<rparr>
     = Some (sample_paid_tx ''paid again'')"
  by (simp_all add: call_key_def payment_for_def payment_key_def sample_trace_def sample_call_log_def
      sample_logs [unfolded source_of.simps])

lemma sample_no_failure: "\<not> insufficient_gas_matches sample_env sample_busy_trace"
  by (simp add: insufficient_gas_matches_def sample_trace_def execute_failed_for_gas_def nullified_without_funds_def
      sample_defs OP_RELAYER_EXECUTE_def)

lemma sample_busy_report:
  "\<exists>call credit refunded. trace_report sample_crates sample_cells sample_prices sample_env [] gas refund sample_busy_trace
     = [Some call, Some credit, Some refunded]
   \<and> call_report sample_crates sample_cells sample_env [] sample_call_tx = Some call \<and> credit_event credit \<and> refunded_event refunded"
proof -
  have "\<exists>call. call_report sample_crates sample_cells sample_env [] sample_call_tx = Some call"
    by (simp add: call_report_def sample_logs [unfolded source_of.simps] message_id_of_def hash_to_message_id_def sample_call_log_def)
  moreover have "\<exists>mid. message_id_of sample_crates sample_call_tx = Some mid"
    by (simp add: message_id_of_def hash_to_message_id_def)
  moreover have "\<exists>credit. payment_report sample_crates sample_cells sample_prices sample_env [] mid (sample_paid_tx ''paid again'') = Some credit" for mid
    by (simp add: payment_report_def sample_logs [unfolded source_of.simps])
  moreover have "\<exists>e. plain_report sample_crates sample_cells sample_prices sample_env [] gas share refund sample_refund_tx = Some e
      \<and> refunded_event e" for share
    by (simp add: plain_report_def refund_report_def sample_logs [unfolded source_of.simps] del: One_nat_def)
  ultimately show ?thesis
    using sample_no_failure by (fastforce simp: trace_report_def Let_def its_reports_def failed_report_def dest: payment_report_event)
qed

lemma sample_busy_parse:
  "\<exists>call credit refunded. parse_trace sample_crates sample_cells sample_prices sample_env [] sample_busy_trace
     = Inr [call, credit, refunded]
   \<and> call_report sample_crates sample_cells sample_env [] sample_call_tx = Some call \<and> credit_event credit \<and> refunded_event refunded"
proof -
  obtain gas refund where g: "calc_message_gas (tp_our_addresses sample_env) (transactions sample_busy_trace) = Inr gas"
      "calc_message_gas_native_gas_refunded (tp_our_addresses sample_env) (transactions sample_busy_trace) = Inr refund"
    using gas_used_ok by blast
  from sample_busy_report [of gas refund] obtain call credit refunded where
      "trace_report sample_crates sample_cells sample_prices sample_env [] gas refund sample_busy_trace
        = map Some [call, credit, refunded]"
      "call_report sample_crates sample_cells sample_env [] sample_call_tx = Some call" "credit_event credit" "refunded_event refunded"
    by auto
  moreover have "\<forall>tx \<in> set (transactions sample_busy_trace). readable sample_crates sample_cells sample_env tx"
    by (simp add: sample_trace_def readable_def sample_logs [unfolded source_of.simps] del: One_nat_def)
  ultimately show ?thesis by (auto simp: parse_trace_iff [OF g])
qed

section \<open>Properties\<close>

text \<open>
  Claim C14: the events of a trace are those of the reference \<open>trace_report\<close>, which is a function
  of the transactions without parser objects, collections or loops over them: the calls of the
  trace, each followed by the payment with its key, then the logs of the token service, a failed
  execution, and the remaining reports in the order of the trace. Parsing succeeds exactly when
  every log that is recognised decodes, every report is defined, and there are at least as many
  calls as token service logs; then the events are exactly the report.
\<close>

theorem parse_trace_reference:
  assumes "calc_message_gas (tp_our_addresses E) (transactions tr) = Inr gas"
    and "calc_message_gas_native_gas_refunded (tp_our_addresses E) (transactions tr) = Inr refund"
  shows "parse_trace X T D E ts tr = Inr es \<longleftrightarrow>
    map Some es = trace_report X T D E ts gas refund tr
    \<and> length (of_kinds T E its_kinds (transactions tr)) \<le> length (of_kinds T E [Call_Log] (transactions tr))
    \<and> (\<forall>tx \<in> set (transactions tr). readable X T E tx)"
  by (rule parse_trace_iff [OF assms])

lemma parse_trace_reference_witness:
  "\<exists>es gas refund. parse_trace sample_crates sample_cells sample_prices sample_env [] sample_busy_trace = Inr es
     \<and> map Some es = trace_report sample_crates sample_cells sample_prices sample_env [] gas refund sample_busy_trace \<and> length es = 3"
proof -
  obtain gas refund where g: "calc_message_gas (tp_our_addresses sample_env) (transactions sample_busy_trace) = Inr gas"
      "calc_message_gas_native_gas_refunded (tp_our_addresses sample_env) (transactions sample_busy_trace) = Inr refund"
    using gas_used_ok by blast
  obtain es where "parse_trace sample_crates sample_cells sample_prices sample_env [] sample_busy_trace = Inr es" "length es = 3"
    using sample_busy_parse by fastforce
  with parse_trace_reference [OF g] show ?thesis by blast
qed

text \<open>
  Claim C15: every contract call of a trace is reported, exactly once and in the order of the
  trace: the call events of a parsed trace are the reports of the transactions of the gateway
  that were sent a call and start their output with a log. The report has the hash of the
  transaction as message id, the own chain as source, and the addresses, the payload and its
  hash from the decoded log.
\<close>

theorem every_call_reported:
  assumes "parse_trace X T D E ts tr = Inr es"
  shows "map Some (filter is_call es)
    = map (call_report X T E ts) (filter (\<lambda>tx. call_source E tx \<noteq> None) (transactions tr))"
proof -
  obtain gas refund where g: "calc_message_gas (tp_our_addresses E) (transactions tr) = Inr gas"
      "calc_message_gas_native_gas_refunded (tp_our_addresses E) (transactions tr) = Inr refund"
    using gas_used_ok by blast
  from assms g obtain calls its failed others where es: "es = calls @ its @ failed @ others"
    "map Some calls = charged_calls X T D E ts (payment_for T E (transactions tr)) (of_kinds T E [Call_Log] (transactions tr))"
    "\<forall>e \<in> set (its @ failed). \<not> is_call e \<and> \<not> settled_event e \<and> \<not> credit_event e"
    "map Some others = map (plain_report X T D E ts gas
       (approval_share gas (length (of_kinds T E [Approval_Log] (transactions tr)))) refund)
       (of_kinds T E plain_kinds (transactions tr))"
    by (rule parse_trace_sections)
  have "filter is_call others = []"
    using filter_reports [OF es(4), of is_call "\<lambda>_. False"] plain_report_event(1) by fastforce
  moreover have "filter is_call (its @ failed) = []" using es(3) by (auto simp: filter_empty_conv)
  ultimately have "filter is_call es = filter is_call calls" by (simp add: es(1))
  with charged_calls_calls [OF es(2)] of_kinds_source [of Call_Log T E "transactions tr"] show ?thesis by simp
qed

lemma every_call_reported_witness:
  "\<exists>es e. parse_trace sample_crates sample_cells sample_prices sample_env [] sample_busy_trace = Inr es
     \<and> call_report sample_crates sample_cells sample_env [] sample_call_tx = Some e
     \<and> e \<in> set (filter is_call es)"
proof -
  obtain call credit refunded where p: "parse_trace sample_crates sample_cells sample_prices sample_env [] sample_busy_trace
      = Inr [call, credit, refunded]" "call_report sample_crates sample_cells sample_env [] sample_call_tx = Some call"
    using sample_busy_parse by blast
  have "sample_call_tx \<in> set (filter (\<lambda>tx. call_source sample_env tx \<noteq> None) (transactions sample_busy_trace))"
    by (simp add: sample_trace_def sample_defs)
  with p(2) have "Some call \<in> set (map Some (filter is_call [call, credit, refunded]))"
    unfolding every_call_reported [OF p(1)] by force
  then have "call \<in> set (filter is_call [call, credit, refunded])" unfolding set_map by blast
  with p show ?thesis by blast
qed

text \<open>
  Claim C16: the settlements of a trace are reported in full: its executions, approvals and gas
  refunds are reported each exactly once and in the order of the trace, with the fields of their
  logs. Executions are charged the gas of the trace, refunds the gas of the refund, and each
  approval the gas divided by the number of approvals.
\<close>

theorem every_settlement_reported:
  assumes "parse_trace X T D E ts tr = Inr es"
    and "calc_message_gas (tp_our_addresses E) (transactions tr) = Inr gas"
    and "calc_message_gas_native_gas_refunded (tp_our_addresses E) (transactions tr) = Inr refund"
  shows "map Some (filter executed_event es)
      = map (execution_report X T E ts gas) (filter (\<lambda>tx. execution_source E tx \<noteq> None) (transactions tr))
    \<and> (let approvals = filter (\<lambda>tx. approval_source E tx \<noteq> None) (transactions tr) in
       map Some (filter approved_event es)
      = map (approval_report X T E ts (approval_share gas (length approvals))) approvals)
    \<and> map Some (filter refunded_event es)
      = map (refund_report X T E refund) (filter (\<lambda>tx. refund_source E tx \<noteq> None) (transactions tr))"
proof -
  from assms obtain calls its failed others where es: "es = calls @ its @ failed @ others"
    "map Some calls = charged_calls X T D E ts (payment_for T E (transactions tr)) (of_kinds T E [Call_Log] (transactions tr))"
    "\<forall>e \<in> set (its @ failed). \<not> is_call e \<and> \<not> settled_event e \<and> \<not> credit_event e"
    "map Some others = map (plain_report X T D E ts gas
       (approval_share gas (length (of_kinds T E [Approval_Log] (transactions tr)))) refund)
       (of_kinds T E plain_kinds (transactions tr))"
    by (rule parse_trace_sections)
  have "\<not> settled_event e" if "e \<in> set calls" for e
    using charged_calls_event [OF es(2) that] by (auto dest: call_report_event payment_report_event)
  then have "filter executed_event es = filter executed_event others" "filter approved_event es = filter approved_event others"
    "filter refunded_event es = filter refunded_event others"
    using es(1, 3) by (auto simp: filter_empty_conv)
  moreover have "of_kinds T E [Approval_Log] (transactions tr) = filter (\<lambda>tx. approval_source E tx \<noteq> None) (transactions tr)"
    by (rule of_kinds_source [of Approval_Log, unfolded source_of.simps]) simp
  ultimately show ?thesis using settled_reports [OF es(4)] by (simp add: Let_def)
qed

lemma every_settlement_reported_witness:
  "\<exists>es e. parse_trace sample_crates sample_cells sample_prices sample_env [] sample_busy_trace = Inr es
     \<and> filter refunded_event es = [e] \<and> filter executed_event es = []"
proof -
  obtain gas refund where g: "calc_message_gas (tp_our_addresses sample_env) (transactions sample_busy_trace) = Inr gas"
      "calc_message_gas_native_gas_refunded (tp_our_addresses sample_env) (transactions sample_busy_trace) = Inr refund"
    using gas_used_ok by blast
  obtain es where p: "parse_trace sample_crates sample_cells sample_prices sample_env [] sample_busy_trace = Inr es"
    using sample_busy_parse by blast
  have "filter (\<lambda>tx. refund_source sample_env tx \<noteq> None) (transactions sample_busy_trace) = [sample_refund_tx]"
      "filter (\<lambda>tx. execution_source sample_env tx \<noteq> None) (transactions sample_busy_trace) = []"
    by (simp_all add: sample_trace_def sample_defs executed_source_def op_codes)
  with every_settlement_reported [OF p g] p show ?thesis by (auto simp: map_eq_Cons_conv simp del: One_nat_def)
qed

text \<open>
  Claim C17: how payments are credited. All gas credits of a parsed trace are these, in this order:
  one for each key that both a call and a payment have, which reports the last payment with that
  key under the message id of the first call with that key; and then one for each top up of the
  trace. So a payment that no call matches is dropped without an event, of several payments with
  the same key only the last is credited, and it is credited once, even if several calls have
  the key.
\<close>

theorem payments_credited_once:
  assumes "parse_trace X T D E ts tr = Inr es"
  shows "\<exists>pairs. distinct (map snd pairs)
    \<and> set (map snd pairs)
      = {k. (\<exists>tx \<in> set (transactions tr). call_key X T E tx = Some k) \<and> (\<exists>paid. payment_for T E (transactions tr) k = Some paid)}
    \<and> (\<forall>(tx, k) \<in> set pairs. find (\<lambda>tx. call_key X T E tx = Some k) (transactions tr) = Some tx)
    \<and> map Some (filter credit_event es)
      = map (\<lambda>(tx, k). Option.bind (message_id_of X tx) (\<lambda>mid.
            Option.bind (payment_for T E (transactions tr) k) (payment_report X T D E ts mid))) pairs
        @ map (\<lambda>tx. if kind_of T E tx = Some Top_Up_Log then top_up_report X T E ts tx else jetton_top_up_report X T D E ts tx)
            (of_kinds T E [Top_Up_Log, Jetton_Top_Up_Log] (transactions tr))"
proof -
  let ?txs = "transactions tr" and ?P = "payment_for T E (transactions tr)"
  obtain gas refund where g: "calc_message_gas (tp_our_addresses E) ?txs = Inr gas"
      "calc_message_gas_native_gas_refunded (tp_our_addresses E) ?txs = Inr refund"
    using gas_used_ok by blast
  from assms g obtain calls its failed others where es: "es = calls @ its @ failed @ others"
    "map Some calls = charged_calls X T D E ts ?P (of_kinds T E [Call_Log] ?txs)"
    "\<forall>e \<in> set (its @ failed). \<not> is_call e \<and> \<not> settled_event e \<and> \<not> credit_event e"
    "map Some others = map (plain_report X T D E ts gas (approval_share gas (length (of_kinds T E [Approval_Log] ?txs))) refund)
       (of_kinds T E plain_kinds ?txs)"
    by (rule parse_trace_sections)
  have calls: "of_kinds T E [Call_Log] ?txs = filter (\<lambda>tx. call_source E tx \<noteq> None) ?txs"
    using of_kinds_source [of Call_Log T E ?txs] by simp
  have src: "call_source E tx \<noteq> None" if "call_key X T E tx = Some k" for tx k
    using that by (auto simp: call_key_def logged_def bind_eq_Some_conv)
  from charged_calls_credits [OF es(2)] obtain pairs where pairs: "first_calls X T E (of_kinds T E [Call_Log] ?txs) (dom ?P) pairs"
      "map Some (filter credit_event calls) = map (credit_report X T D E ts ?P) pairs" by blast
  have "filter credit_event es = filter credit_event calls @ filter credit_event others"
    using es(1,3) by (auto simp: filter_empty_conv)
  with pairs(2) top_up_reports [OF es(4)] have "map Some (filter credit_event es) = map (credit_report X T D E ts ?P) pairs
      @ map (\<lambda>tx. if kind_of T E tx = Some Top_Up_Log then top_up_report X T E ts tx else jetton_top_up_report X T D E ts tx)
          (of_kinds T E [Top_Up_Log, Jetton_Top_Up_Log] ?txs)" by simp
  moreover have "set (map snd pairs) = {k. (\<exists>tx \<in> set ?txs. call_key X T E tx = Some k) \<and> (\<exists>paid. ?P k = Some paid)}"
    using pairs(1) src unfolding first_calls_def calls by auto
  moreover have "find (\<lambda>tx. call_key X T E tx = Some k) ?txs = Some tx" if "(tx, k) \<in> set pairs" for tx k
    using pairs(1) that find_filter [of "\<lambda>tx. call_key X T E tx = Some k", OF src] unfolding first_calls_def calls by fastforce
  moreover have "distinct (map snd pairs)" using pairs(1) by (simp add: first_calls_def)
  ultimately show ?thesis unfolding credit_report_def by (intro exI [of _ pairs]) auto
qed

lemma payments_credited_once_witness:
  "\<exists>es k. parse_trace sample_crates sample_cells sample_prices sample_env [] sample_busy_trace = Inr es
     \<and> call_key sample_crates sample_cells sample_env sample_call_tx = Some k \<and> length (filter credit_event es) = 1"
proof -
  let ?txs = "transactions sample_busy_trace" and ?key = "call_key sample_crates sample_cells sample_env"
  obtain es where p: "parse_trace sample_crates sample_cells sample_prices sample_env [] sample_busy_trace = Inr es"
    using sample_busy_parse by blast
  have "call_source sample_env tx \<noteq> None" if "?key tx = Some k" for tx k
    using that by (auto simp: call_key_def logged_def bind_eq_Some_conv)
  moreover have "\<forall>tx \<in> set ?txs. call_source sample_env tx \<noteq> None \<longrightarrow> tx = sample_call_tx"
    by (simp add: sample_trace_def sample_defs op_codes)
  moreover have "sample_call_tx \<in> set ?txs" by (simp add: sample_trace_def)
  ultimately have keys: "{k. (\<exists>tx \<in> set ?txs. ?key tx = Some k) \<and> (\<exists>paid. payment_for sample_cells sample_env ?txs k = Some paid)}
      = {the (?key sample_call_tx)}" by (auto intro: bexI [of _ sample_call_tx])
  have none: "of_kinds sample_cells sample_env [Top_Up_Log, Jetton_Top_Up_Log] ?txs = []" by (simp add: sample_trace_def)
  from payments_credited_once [OF p, unfolded keys none list.map append_Nil2] obtain pairs where
      pairs: "distinct (map snd pairs)" "set (map snd pairs) = {the (?key sample_call_tx)}"
      and credits: "map Some (filter credit_event es) = map (\<lambda>(tx, k). Option.bind (message_id_of sample_crates tx) (\<lambda>mid.
        Option.bind (payment_for sample_cells sample_env ?txs k) (payment_report sample_crates sample_cells sample_prices sample_env [] mid))) pairs"
    by blast
  have "length pairs = 1" using distinct_card [OF pairs(1)] pairs(2) by simp
  with arg_cong [OF credits, of length] p show ?thesis by simp
qed

text \<open>
  Claim C18: the events of a parsed trace are well typed: the type tag of each event is the one of
  its kind, metadata are present exactly for the kinds that have them, a call has the own chain as
  source, every amount is a decimal numeral, and every payment, refund and cost is in coins: no
  event leaves the parser with an unconverted jetton amount.
\<close>

theorem parse_trace_typed:
  assumes "parse_trace X T D E ts tr = Inr es"
  shows "\<forall>e \<in> set es. well_typed E e"
proof
  fix e
  assume "e \<in> set es"
  moreover obtain gas refund where g: "calc_message_gas (tp_our_addresses E) (transactions tr) = Inr gas"
      "calc_message_gas_native_gas_refunded (tp_our_addresses E) (transactions tr) = Inr refund"
    using gas_used_ok by blast
  moreover from assms have "map Some es = trace_report X T D E ts gas refund tr" by (simp add: parse_trace_iff [OF g])
  ultimately show "well_typed E e" by (blast intro: trace_report_typed)
qed

lemma parse_trace_typed_witness:
  "\<exists>call credit refunded. parse_trace sample_crates sample_cells sample_prices sample_env [] sample_busy_trace
     = Inr [call, credit, refunded] \<and> well_typed sample_env credit \<and> credit_event credit"
proof -
  obtain call credit refunded where p: "parse_trace sample_crates sample_cells sample_prices sample_env [] sample_busy_trace
      = Inr [call, credit, refunded]" "credit_event credit"
    using sample_busy_parse by blast
  from parse_trace_typed [OF p(1)] p show ?thesis by auto
qed

end
