(* ===== verification/Event_Ids.thy ===== *)
theory Event_Ids
  imports Trace_Reports
begin

text \<open>
  The ids of the events (\<open>event_id\<close> of \<open>CommonEventFields\<close> in the parsers under
  \<open>src/src/transaction_parser\<close>): the API that receives the events tells them apart by their
  ids. An id is the hash of the transaction that holds the log with a suffix for its kind, or for
  a failed execution the last logical time of the trace. Shown: every event of a trace but the
  failed execution has a transaction of its own, so that ids do not repeat, within a trace and
  across traces.
\<close>

section \<open>The id of an event\<close>

fun event_id :: "event \<Rightarrow> string" where
  "event_id (Call c m chain pay) = ev_event_id c"
| "event_id (GasRefunded c mid r v a) = ev_event_id c"
| "event_id (GasCredit c mid r a) = ev_event_id c"
| "event_id (MessageApproved c' m a) = ev_event_id c'"
| "event_id (MessageExecuted c'' mid chain st a) = ev_event_id c''"
| "event_id (CannotExecuteMessageV2 c mid chain reason details) = ev_event_id c"
| "event_id (ITSInterchainTransfer c mid chain a s d h) = ev_event_id c"
| "event_id (ITSInterchainTokenDeploymentStarted c mid chain d) = ev_event_id c"
| "event_id (ITSLinkTokenStarted c mid t chain s d k) = ev_event_id c"
| "event_id (ITSTokenMetadataRegistered c mid a d) = ev_event_id c"
| "event_id (SignersRotated c''' mid) = ev_event_id c'''"

definition FAILURE_ID :: string where
  "FAILURE_ID = ''cannot-execute-task-v2-''"

text \<open>The event is identified by a transaction: the id starts with its hash.\<close>

definition reports :: "transaction \<Rightarrow> event \<Rightarrow> bool" where
  "reports tx e \<longleftrightarrow> (\<exists>suffix. event_id e = tx_hash tx @ suffix)"

text \<open>A hash in the alphabet of base64, 32 bytes long.\<close>

definition base64_hash :: "string \<Rightarrow> bool" where
  "base64_hash h \<longleftrightarrow> length h = 44 \<and> CHR ''-'' \<notin> set h"

lemma call_report_reports: "call_report X T E ts tx = Some e \<Longrightarrow> reports tx e"
  by (auto simp: call_report_def reports_def bind_eq_Some_conv)

lemma payment_report_reports: "payment_report X T D E ts mid tx = Some e \<Longrightarrow> reports tx e"
  by (auto simp: payment_report_def native_credit_def reports_def bind_eq_Some_conv split: option.splits log_kind.splits)

lemma its_report_reports: "its_report X T E ts mid tx = Some e \<Longrightarrow> reports tx e"
  by (auto simp: its_report_def its_common_def reports_def split: option.splits log_kind.splits)

lemma plain_report_reports: "plain_report X T D E ts gas share refund tx = Some e \<Longrightarrow> reports tx e"
  by (auto simp: plain_report_def execution_report_def approval_report_def top_up_report_def jetton_top_up_report_def
      refund_report_def rotation_report_def native_credit_def reports_def bind_eq_Some_conv split: option.splits log_kind.splits)

lemma failed_report_id:
  "Some e \<in> set (failed_report T E tr) \<Longrightarrow>
     insufficient_gas_matches E tr \<and> event_id e = FAILURE_ID @ i64_to_string (end_lt tr)"
  by (auto simp: failed_report_def FAILURE_ID_def bind_eq_Some_conv eq_commute [of "Some e"] split: if_splits)

lemma failed_report_once: "length (failed_report T E tr) \<le> 1"
  by (simp add: failed_report_def)

section \<open>A transaction for each event\<close>

definition keyed_apart :: "(message_matching_key \<rightharpoonup> transaction) \<Rightarrow> bool" where
  "keyed_apart payment \<longleftrightarrow> (\<forall>k k' tx. payment k = Some tx \<longrightarrow> payment k' = Some tx \<longrightarrow> k = k')"

lemma payment_for_key: "payment_for T E txs k = Some tx \<Longrightarrow> tx \<in> set txs \<and> payment_key T E tx = Some k"
  by (auto simp: payment_for_def find_Some_iff) (metis in_set_conv_nth length_rev nth_mem set_rev)

lemma payment_for_apart: "keyed_apart (payment_for T E txs)"
  unfolding keyed_apart_def by (metis option.inject payment_for_key)

lemma charged_calls_sources:
  assumes "map Some es = charged_calls X T D E ts payment txs" "distinct txs" "keyed_apart payment" "set txs \<inter> ran payment = {}"
  shows "\<exists>src. list_all2 reports src es \<and> distinct src \<and> set src \<subseteq> set txs \<union> ran payment"
  using assms
proof (induction txs arbitrary: payment es)
  case (Cons tx txs)
  obtain call es1 where es: "es = call # es1" "call_report X T E ts tx = Some call"
    using Cons.prems(1) by (auto simp: map_eq_Cons_conv)
  note call = call_report_reports [OF es(2)]
  show ?case
  proof (cases "Option.bind (call_key X T E tx) payment")
    case None
    with Cons.prems es have "map Some es1 = charged_calls X T D E ts payment txs" by simp
    then obtain src where "list_all2 reports src es1" "distinct src" "set src \<subseteq> set txs \<union> ran payment"
      using Cons.IH [of es1 payment] Cons.prems by auto
    with call es(1) Cons.prems(2,4) show ?thesis by (intro exI [of _ "tx # src"]) auto
  next
    case (Some paid)
    then obtain k where k: "call_key X T E tx = Some k" "payment k = Some paid" by (auto simp: bind_eq_Some_conv)
    let ?rest = "payment(k := None)"
    obtain credit es2 where e2: "es1 = credit # es2" "map Some es2 = charged_calls X T D E ts ?rest txs"
        "Option.bind (message_id_of X tx) (\<lambda>mid. payment_report X T D E ts mid paid) = Some credit"
      using Cons.prems(1) Some k es(1) by (auto simp: map_eq_Cons_conv)
    have rest: "keyed_apart ?rest" "ran ?rest \<subseteq> ran payment" "paid \<notin> ran ?rest"
      using Cons.prems(3) k(2) by (auto simp: keyed_apart_def ran_def)
    have "distinct txs" "set txs \<inter> ran ?rest = {}" using Cons.prems(2,4) rest(2) by auto
    then obtain src where src: "list_all2 reports src es2" "distinct src" "set src \<subseteq> set txs \<union> ran ?rest"
      using Cons.IH [OF e2(2) _ rest(1)] by blast
    have "reports paid credit" using e2(3) by (auto simp: bind_eq_Some_conv dest: payment_report_reports)
    moreover have "paid \<in> ran payment" using k(2) by (rule ranI)
    ultimately show ?thesis
      using call es(1) e2(1) src rest Cons.prems(2,4) by (intro exI [of _ "tx # paid # src"]) auto
  qed
qed (intro exI [of _ "[]"], simp)

lemma its_reports_sources:
  assumes "map Some es = its_reports X T E ts calls txs" "length txs \<le> length calls"
  shows "list_all2 reports txs es"
  using assms unfolding its_reports_def
proof (induction txs arbitrary: calls es)
  case (Cons tx txs)
  then obtain call rest where "calls = call # rest" by (cases calls) auto
  with Cons show ?case
    by (auto simp: map_eq_Cons_conv bind_eq_Some_conv eq_commute [of "Some _"] dest: its_report_reports)
qed simp

lemma plain_reports_sources:
  "map Some es = map (plain_report X T D E ts gas share refund) txs \<Longrightarrow> list_all2 reports txs es"
  by (induction txs arbitrary: es) (auto simp: map_eq_Cons_conv intro: plain_report_reports)

lemma in_of_kinds: "tx \<in> set (of_kinds T E ks txs) \<longleftrightarrow> tx \<in> set txs \<and> kind_of T E tx \<in> Some ` set ks"
  by (auto simp: of_kinds_def split: option.splits)

lemma distinct_of_kinds: "distinct txs \<Longrightarrow> distinct (of_kinds T E ks txs)"
  by (simp add: of_kinds_def)

text \<open>Every event but a failed execution has a transaction of its own.\<close>

lemma parse_trace_sources:
  assumes "parse_trace X T D E ts tr = Inr es" "distinct (transactions tr)"
  obtains before failed after src where "es = before @ failed @ after" "map Some failed = failed_report T E tr"
    "list_all2 reports src (before @ after)" "distinct src" "set src \<subseteq> set (transactions tr)"
proof -
  let ?txs = "transactions tr" and ?pay = "payment_for T E (transactions tr)"
  obtain gas refund where g: "calc_message_gas (tp_our_addresses E) ?txs = Inr gas"
      "calc_message_gas_native_gas_refunded (tp_our_addresses E) ?txs = Inr refund"
    using gas_used_ok by blast
  let ?calls = "of_kinds T E [Call_Log] ?txs" and ?its = "of_kinds T E its_kinds ?txs" and ?plain = "of_kinds T E plain_kinds ?txs"
  from assms(1) have rep: "map Some es = trace_report X T D E ts gas refund tr" and len: "length ?its \<le> length ?calls"
    by (simp_all add: parse_trace_iff [OF g])
  from rep obtain calls its failed others where es: "es = calls @ its @ failed @ others"
    "map Some calls = charged_calls X T D E ts ?pay ?calls" "map Some its = its_reports X T E ts ?calls ?its"
    "map Some failed = failed_report T E tr"
    "map Some others = map (plain_report X T D E ts gas (approval_share gas (length (of_kinds T E [Approval_Log] ?txs))) refund) ?plain"
    unfolding trace_report_def Let_def map_Some_append by blast
  have paid: "tx \<in> set ?txs \<and> kind_of T E tx \<in> Some ` set payment_kinds" if "tx \<in> ran ?pay" for tx
    using that payment_for_key payment_key_kind unfolding ran_def by fastforce
  have "set ?calls \<inter> ran ?pay = {}" using paid by (fastforce simp: in_of_kinds payment_kinds_def)
  then obtain src where src: "list_all2 reports src calls" "distinct src" "set src \<subseteq> set ?calls \<union> ran ?pay"
    using charged_calls_sources [OF es(2) distinct_of_kinds [OF assms(2)] payment_for_apart] by blast
  have "list_all2 reports (src @ ?its @ ?plain) (calls @ its @ others)"
    using src(1) its_reports_sources [OF es(3) len] plain_reports_sources [OF es(5)] by (simp add: list_all2_appendI)
  moreover have "set ?its \<inter> set ?plain = {}" "set src \<inter> (set ?its \<union> set ?plain) = {}"
    using src(3) paid by (fastforce simp: in_of_kinds payment_kinds_def its_kinds_def plain_kinds_def)+
  then have "distinct (src @ ?its @ ?plain)" using src(2) distinct_of_kinds [OF assms(2)] by auto
  moreover have "set (src @ ?its @ ?plain) \<subseteq> set ?txs" using src(3) paid by (auto simp: in_of_kinds)
  ultimately show thesis using that [of "calls @ its" failed others "src @ ?its @ ?plain"] es(1,4) by simp
qed

section \<open>Ids do not repeat\<close>

lemma base64_hash_prefix: "base64_hash h \<Longrightarrow> base64_hash h' \<Longrightarrow> h @ s = h' @ s' \<Longrightarrow> h = h'"
  by (simp add: base64_hash_def append_eq_append_conv)

text \<open>The seventh letter of a failed execution's id is a dash.\<close>

lemma base64_hash_not_failed:
  assumes "base64_hash h"
  shows "h @ s \<noteq> FAILURE_ID @ s'"
proof
  assume "h @ s = FAILURE_ID @ s'"
  then have "(h @ s) ! 6 = (FAILURE_ID @ s') ! 6" by simp
  moreover have "(h @ s) ! 6 = h ! 6" "h ! 6 \<in> set h" using assms by (simp_all add: base64_hash_def nth_append)
  ultimately show False using assms by (simp add: base64_hash_def FAILURE_ID_def nth_append)
qed

lemma distinct_ids:
  assumes "list_all2 reports src es" "distinct (map tx_hash src)" "\<forall>tx \<in> set src. base64_hash (tx_hash tx)"
  shows "distinct (map event_id es)"
  using assms
proof (induction rule: list_all2_induct)
  case (Cons tx src e es)
  have "event_id e \<noteq> event_id e'" if e': "e' \<in> set es" for e'
  proof
    assume eq: "event_id e = event_id e'"
    obtain tx' where tx': "tx' \<in> set src" "reports tx' e'"
      using Cons.hyps(2) e' by (metis in_set_conv_nth list_all2_conv_all_nth)
    with Cons.hyps(1) eq obtain s s' where "tx_hash tx @ s = tx_hash tx' @ s'" unfolding reports_def by metis
    then have "tx_hash tx = tx_hash tx'" using base64_hash_prefix Cons.prems(2) tx'(1) by (meson list.set_intros)
    with Cons.prems(1) tx'(1) show False by simp
  qed
  then have "event_id e \<notin> event_id ` set es" by blast
  moreover have "distinct (map event_id es)" using Cons.IH Cons.prems by simp
  ultimately show ?case by simp
qed simp

text \<open>Where the ids of a trace come from.\<close>

definition own_id :: "trace_parser \<Rightarrow> trace \<Rightarrow> string \<Rightarrow> bool" where
  "own_id E tr i \<longleftrightarrow> (\<exists>tx \<in> set (transactions tr). \<exists>suffix. i = tx_hash tx @ suffix)
     \<or> insufficient_gas_matches E tr \<and> i = FAILURE_ID @ i64_to_string (end_lt tr)"

lemma trace_ids:
  assumes "parse_trace X T D E ts tr = Inr es" "distinct (map tx_hash (transactions tr))"
    and "\<forall>tx \<in> set (transactions tr). base64_hash (tx_hash tx)"
  shows "distinct (map event_id es)" "\<forall>e \<in> set es. own_id E tr (event_id e)"
proof -
  have "distinct (transactions tr)" using assms(2) by (simp add: distinct_map)
  with assms(1) obtain before failed after src where es: "es = before @ failed @ after" "map Some failed = failed_report T E tr"
    "list_all2 reports src (before @ after)" "distinct src" "set src \<subseteq> set (transactions tr)"
    by (rule parse_trace_sources)
  have src: "\<exists>tx \<in> set src. reports tx e" if "e \<in> set (before @ after)" for e
    using es(3) that by (metis in_set_conv_nth list_all2_conv_all_nth)
  have failed: "insufficient_gas_matches E tr \<and> event_id e = FAILURE_ID @ i64_to_string (end_lt tr)" if "e \<in> set failed" for e
    using failed_report_id [of e T E tr] that by (simp flip: es(2))
  have "length failed \<le> 1" using failed_report_once [of T E tr] by (simp flip: es(2))
  then have "distinct (map event_id failed)" by (cases failed) auto
  moreover have "distinct (map tx_hash src)" using assms(2) es(4,5) by (auto simp: distinct_map intro: inj_on_subset)
  then have "distinct (map event_id (before @ after))" using distinct_ids [OF es(3)] assms(3) es(5) by blast
  moreover have "event_id e \<noteq> event_id e'" if e: "e \<in> set (before @ after)" "e' \<in> set failed" for e e'
  proof -
    obtain tx suffix where "tx \<in> set src" "event_id e = tx_hash tx @ suffix" using src [OF e(1)] by (auto simp: reports_def)
    moreover from this have "base64_hash (tx_hash tx)" using assms(3) es(5) by blast
    ultimately show ?thesis using failed [OF e(2)] base64_hash_not_failed by metis
  qed
  then have "event_id ` set (before @ after) \<inter> event_id ` set failed = {}" by blast
  ultimately show "distinct (map event_id es)" using es(1) by auto
  have "own_id E tr (event_id e)" if "e \<in> set (before @ after)" for e
    using src [OF that] es(5) by (auto simp: own_id_def reports_def)
  moreover have "own_id E tr (event_id e)" if "e \<in> set failed" for e
    using failed [OF that] by (simp add: own_id_def)
  ultimately show "\<forall>e \<in> set es. own_id E tr (event_id e)" using es(1) by auto
qed

lemma i64_to_string_inject: "i64_to_string v = i64_to_string w \<longleftrightarrow> v = w"
proof
  have no: "nat_to_string n \<noteq> CHR ''-'' # s" for n s
    using parse_nat_to_string [of n] by (auto simp: parse_nat_def digit_val_def)
  assume "i64_to_string v = i64_to_string w"
  then have "sint v = sint w"
    using no no [symmetric] by (auto simp: i64_to_string_def split: if_splits)
  then show "v = w" by (simp add: signed_word_eqI)
qed simp

lemma own_ids_apart:
  assumes "own_id E tr i" "own_id E tr' i"
    and "\<forall>tx \<in> set (transactions tr) \<union> set (transactions tr'). base64_hash (tx_hash tx)"
    and "tx_hash ` set (transactions tr) \<inter> tx_hash ` set (transactions tr') = {}"
    and "insufficient_gas_matches E tr \<Longrightarrow> insufficient_gas_matches E tr' \<Longrightarrow> end_lt tr \<noteq> end_lt tr'"
  shows False
proof -
  let ?hashed = "\<lambda>tr. \<exists>tx \<in> set (transactions tr). \<exists>suffix. i = tx_hash tx @ suffix"
  have "\<not> (?hashed tr \<and> ?hashed tr')" using assms(3,4) base64_hash_prefix by blast
  moreover have "\<not> ?hashed t" if "i = FAILURE_ID @ s" "t = tr \<or> t = tr'" for t s
    using that assms(3) base64_hash_not_failed by (metis UnCI)
  ultimately show False using assms(1,2,5) unfolding own_id_def by (metis append_same_eq i64_to_string_inject same_append_eq)
qed

lemma distinct_map_part: "distinct (map f (concat xss)) \<Longrightarrow> xs \<in> set xss \<Longrightarrow> distinct (map f xs)"
  by (induction xss) auto

lemma other_ids:
  assumes "list_all2 (\<lambda>tr es. parse_trace X T D E ts tr = Inr es) trs ess"
    and "\<forall>tr \<in> set trs. distinct (map tx_hash (transactions tr))"
    and "\<forall>tr \<in> set trs. \<forall>tx \<in> set (transactions tr). base64_hash (tx_hash tx)"
    and "e \<in> set (concat ess)"
  shows "\<exists>tr \<in> set trs. own_id E tr (event_id e)"
  using assms
proof (induction rule: list_all2_induct)
  case (Cons tr trs es ess)
  then show ?case using trace_ids(2) [OF Cons.hyps(1)] by auto
qed simp

section \<open>Properties\<close>

text \<open>
  Claim C13: no event id is reported twice. Take any number of traces whose transactions have
  different hashes, written as the indexer writes them, and where the traces with a failed
  execution end at different logical times. Then the ids of all events of all these traces are
  different: the API never takes an event for one it has seen.
\<close>

theorem event_ids_distinct:
  assumes "list_all2 (\<lambda>tr es. parse_trace X T D E ts tr = Inr es) trs ess"
    and "distinct (map tx_hash (concat (map transactions trs)))"
    and "\<forall>tx \<in> set (concat (map transactions trs)). base64_hash (tx_hash tx)"
    and "distinct (map end_lt (filter (insufficient_gas_matches E) trs))"
  shows "distinct (map event_id (concat ess))"
  using assms
proof (induction rule: list_all2_induct)
  case (Cons tr trs es ess)
  have own: "distinct (map event_id es)" "\<forall>e \<in> set es. own_id E tr (event_id e)"
    by (rule trace_ids [OF Cons.hyps(1)]; use Cons.prems in auto)+
  have rest: "\<exists>tr' \<in> set trs. own_id E tr' (event_id e)" if "e \<in> set (concat ess)" for e
  proof (rule other_ids [OF Cons.hyps(2) _ _ that])
    show "\<forall>t \<in> set trs. distinct (map tx_hash (transactions t))"
      using distinct_map_part [OF Cons.prems(1)] by simp
  qed (use Cons.prems(2) in auto)
  have "event_id e \<noteq> event_id e'" if e: "e \<in> set es" "e' \<in> set (concat ess)" for e e'
  proof
    assume eq: "event_id e = event_id e'"
    obtain tr' where tr': "tr' \<in> set trs" "own_id E tr' (event_id e)" using rest [OF e(2)] eq by auto
    show False
      by (rule own_ids_apart [OF bspec [OF own(2) e(1)] tr'(2)]) (use Cons.prems tr'(1) in \<open>auto simp: image_iff split: if_splits\<close>)
  qed
  then have "event_id ` set es \<inter> event_id ` set (concat ess) = {}" by blast
  moreover have "distinct (map event_id (concat ess))" using Cons.IH Cons.prems by (auto split: if_splits)
  ultimately show ?case using own(1) by simp
qed simp

text \<open>Traces with one refund, each with the hash that is given.\<close>

definition sample_refund_trace :: "char \<Rightarrow> trace" where
  "sample_refund_trace c = sample_trace [sample_refund_tx\<lparr>tx_hash := replicate 44 c\<rparr>]"

lemma sample_refund_source:
  "source_of T sample_env Refund_Log (sample_refund_tx\<lparr>tx_hash := h\<rparr>) = Some (sample_message None None ''refund'' None)"
  by (simp add: sample_defs)

lemma sample_refund_parse:
  "\<exists>e. parse_trace sample_crates sample_cells sample_prices sample_env [] (sample_refund_trace c) = Inr [e]"
proof -
  let ?tx = "sample_refund_tx\<lparr>tx_hash := replicate 44 c\<rparr>" and ?tr = "sample_refund_trace c"
  obtain gas refund where g: "calc_message_gas (tp_our_addresses sample_env) (transactions ?tr) = Inr gas"
      "calc_message_gas_native_gas_refunded (tp_our_addresses sample_env) (transactions ?tr) = Inr refund"
    using gas_used_ok by blast
  have kind: "kind_of sample_cells sample_env ?tx = Some Refund_Log"
    by (simp add: kind_of_opcode sample_refund_source del: source_of.simps)
  have log: "logged (refund_source sample_env) (native_gas_refunded_from_boc_b64 sample_cells) ?tx
      = Some \<lparr>ngr_tx_hash = replicate 32 1, ngr_address = sample_std_address, ngr_amount = 5\<rparr>"
    using sample_refund_source [of sample_cells "replicate 44 c"] sample_decodes(2) by (simp add: logged_def sample_message_def)
  have txs: "transactions ?tr = [?tx]" by (simp add: sample_refund_trace_def sample_trace_def)
  have "\<not> insufficient_gas_matches sample_env ?tr"
    by (simp add: insufficient_gas_matches_def txs execute_failed_for_gas_def nullified_without_funds_def)
  moreover have "\<exists>e. refund_report sample_crates sample_cells sample_env refund ?tx = Some e"
    using log by (simp add: refund_report_def)
  ultimately have "\<exists>e. trace_report sample_crates sample_cells sample_prices sample_env [] gas refund ?tr = [Some e]"
    using kind by (auto simp: trace_report_def txs of_kinds_def plain_kinds_def its_kinds_def its_reports_def failed_report_def
        plain_report_def)
  moreover have "readable sample_crates sample_cells sample_env ?tx" using kind log by (simp add: readable_def)
  ultimately show ?thesis
    using kind by (fastforce simp: parse_trace_iff [OF g] txs of_kinds_def its_kinds_def)
qed

lemma event_ids_distinct_witness:
  "\<exists>e e'. parse_trace sample_crates sample_cells sample_prices sample_env [] (sample_refund_trace CHR ''A'') = Inr [e]
     \<and> parse_trace sample_crates sample_cells sample_prices sample_env [] (sample_refund_trace CHR ''B'') = Inr [e']
     \<and> event_id e \<noteq> event_id e'"
proof -
  let ?trs = "[sample_refund_trace CHR ''A'', sample_refund_trace CHR ''B'']"
  obtain e e' where p: "parse_trace sample_crates sample_cells sample_prices sample_env [] (sample_refund_trace CHR ''A'') = Inr [e]"
      "parse_trace sample_crates sample_cells sample_prices sample_env [] (sample_refund_trace CHR ''B'') = Inr [e']"
    using sample_refund_parse by metis
  then have "list_all2 (\<lambda>tr es. parse_trace sample_crates sample_cells sample_prices sample_env [] tr = Inr es) ?trs [[e], [e']]"
    by simp
  then have "distinct (map event_id (concat [[e], [e']]))"
    by (rule event_ids_distinct) (simp_all add: sample_refund_trace_def sample_trace_def base64_hash_def insufficient_gas_matches_def
        execute_failed_for_gas_def nullified_without_funds_def replicate_eq_replicate)
  with p show ?thesis by auto
qed

end
