(* ===== verification/Execute_Path.thy ===== *)
theory Execute_Path
  imports Recovery Event_Ids Log_Decoders
begin

text \<open>
  The path of an execute task through the system: the broadcaster encodes the task into a
  message, the wallet sends it to itself and on to the gateway, and when the gateway runs out of
  gas the ingestor finds the message in the trace. Shown: the event that reports the failure
  carries the message id and the source chain of the task, so that the task that failed is
  the one that is reported; no task is sent without the gas it needs; and a trace that never
  touches our contracts can be reported as a failed execution.
\<close>

section \<open>What a handler posts\<close>

lemma send_to_chain_posts:
  assumes "send_to_chain X T ge env v actions r st = (res, st')"
  shows "\<exists>bocs. posted st' = posted st @ bocs
    \<and> (\<forall>boc \<in> set bocs. \<exists>unix n. boc_of_id X T ge unix v actions n = Inr boc)"
  using assms
proof (induction X T ge env v actions r st rule: send_to_chain.induct)
  case (1 X T ge env v actions r st)
  obtain p tbl where prep: "prepare_boc X T ge (env 0) v actions (r \<noteq> None) (query_ids st) = (p, tbl)" by fastforce
  show ?case
  proof (cases p)
    case (Inl e)
    with prep "1.prems" show ?thesis by (auto simp: send_to_chain.simps [of X T ge env v actions r st])
  next
    case (Inr boc)
    let ?st = "st\<lparr>query_ids := tbl, posted := posted st @ [boc]\<rparr>"
    have boc: "\<exists>unix n. boc_of_id X T ge unix v actions n = Inr boc"
      using prep Inr by (auto simp: prepare_boc_id split: prod.splits sum.splits)
    show ?thesis
    proof (cases "already_executed (at_answer (env 0) boc) \<and> next_retries r \<noteq> None")
      case False
      then have "st' = ?st"
        using "1.prems" prep Inr by (auto simp: send_to_chain.simps [of X T ge env v actions r st] already_executed_def Let_def
            split: sum.splits if_splits option.splits)
      with boc show ?thesis by (intro exI [of _ "[boc]"]) simp
    next
      case True
      then obtain e r' where e: "at_answer (env 0) boc = Inl e" "str_contains e HIGHLOAD_WALLET_ALREADY_EXECUTED"
          and r': "next_retries r = Some r'"
        by (auto simp: already_executed_def split: sum.splits)
      have "send_to_chain X T ge (env \<circ> Suc) v actions (Some r') ?st = (res, st')"
        using "1.prems" prep Inr e r' by (simp add: send_to_chain.simps [of X T ge env v actions r st] Let_def)
      from "1.IH" [OF prep [symmetric] Inr refl e r' this] boc show ?thesis by force
    qed
  qed
qed

lemma execute_block_posts:
  assumes "execute_block X T B env task dest bytes v st = (res, st')" "posted st' \<noteq> posted st"
  shows "\<exists>oact bocs. execute_action X T B task dest bytes v = Inr oact \<and> posted st' = posted st @ bocs
    \<and> (\<forall>boc \<in> set bocs. \<exists>unix n. boc_of_id X T (b_gas_estimator B) unix v [oact] n = Inr boc)"
proof (cases "execute_action X T B task dest bytes v")
  case (Inr oact)
  then have "send_and_report X T (b_gas_estimator B) (attempts env) (et_message_id task) (et_source_chain task) v [oact] st = (res, st')"
    using assms(1) by (simp add: execute_block_def)
  from send_and_report_sends [OF this] send_to_chain_posts Inr show ?thesis by blast
qed (use assms in \<open>simp add: execute_block_def\<close>)

lemma acquire_member: "acquire X lock entries s = (Inr v, s') \<Longrightarrow> v \<in> snd ` set entries"
  by (induction entries arbitrary: s) (fastforce split: prod.splits bool.splits)+

lemma execute_message_posts:
  assumes "broadcast_execute_message X T R B env task st = (res, st')" "posted st' \<noteq> posted st"
  shows "\<exists>dest bytes v oact bocs. address_from_str X (et_destination_address task) = Inr dest
    \<and> base64_decode X (et_payload task) = Inr bytes \<and> v \<in> snd ` set (b_wallets B)
    \<and> execute_action X T B task dest bytes v = Inr oact \<and> posted st' = posted st @ bocs
    \<and> (\<forall>boc \<in> set bocs. \<exists>unix n. boc_of_id X T (b_gas_estimator B) unix v [oact] n = Inr boc)"
proof -
  obtain dest bytes where d: "address_from_str X (et_destination_address task) = Inr dest" "base64_decode X (et_payload task) = Inr bytes"
      "with_wallet X R B env (execute_block X T B env task dest bytes) st = (res, st')"
    using assms by (cases "address_from_str X (et_destination_address task)"; cases "base64_decode X (et_payload task)")
      (auto simp: broadcast_execute_message_def split: if_splits)
  obtain w r where acq: "acquire X (redis_lock R (acquire_at env)) (b_wallets B) (locks st) = (w, r)" by fastforce
  then obtain v where v: "w = Inr v" using d(3) assms(2) by (cases w) (auto simp: with_wallet_def)
  obtain res' s where run: "execute_block X T B env task dest bytes v (st\<lparr>locks := r\<rparr>) = (res', s)" by fastforce
  have "posted s = posted st'" using d(3) acq v run by (auto simp: with_wallet_def split: if_splits)
  with execute_block_posts [OF run] assms(2) obtain oact bocs where "execute_action X T B task dest bytes v = Inr oact"
      "posted st' = posted st @ bocs" "\<forall>boc \<in> set bocs. \<exists>unix n. boc_of_id X T (b_gas_estimator B) unix v [oact] n = Inr boc"
    by auto
  with d(1,2) acquire_member [OF acq [unfolded v]] show ?thesis by blast
qed

section \<open>The failed execution in the trace\<close>

fun failed_event :: "event \<Rightarrow> bool" where
  "failed_event (CannotExecuteMessageV2 c mid chain reason details) = True"
| "failed_event _ = False"

lemma call_report_not_failed: "call_report X T E ts tx = Some e \<Longrightarrow> \<not> failed_event e"
  by (auto simp: call_report_def bind_eq_Some_conv)

lemma payment_report_not_failed: "payment_report X T D E ts mid tx = Some e \<Longrightarrow> \<not> failed_event e"
  by (auto simp: payment_report_def native_credit_def bind_eq_Some_conv split: option.splits log_kind.splits)

lemma its_report_not_failed: "its_report X T E ts mid tx = Some e \<Longrightarrow> \<not> failed_event e"
  by (auto simp: its_report_def split: option.splits log_kind.splits)

lemma plain_report_not_failed: "plain_report X T D E ts gas share refund tx = Some e \<Longrightarrow> \<not> failed_event e"
  by (auto simp: plain_report_def execution_report_def approval_report_def top_up_report_def jetton_top_up_report_def
      refund_report_def rotation_report_def native_credit_def bind_eq_Some_conv split: option.splits log_kind.splits)

lemma failed_report_failed: "Some e \<in> set (failed_report T E tr) \<Longrightarrow> failed_event e"
  by (auto simp: failed_report_def bind_eq_Some_conv eq_commute [of "Some e"] split: if_splits)

lemma parse_trace_failed:
  assumes "parse_trace X T D E ts tr = Inr es"
  shows "map Some (filter failed_event es) = failed_report T E tr"
proof -
  obtain gas refund where g: "calc_message_gas (tp_our_addresses E) (transactions tr) = Inr gas"
      "calc_message_gas_native_gas_refunded (tp_our_addresses E) (transactions tr) = Inr refund"
    using gas_used_ok by blast
  let ?txs = "transactions tr"
  from assms have "map Some es = trace_report X T D E ts gas refund tr" by (simp add: parse_trace_iff [OF g])
  then obtain calls its failed others where es: "es = calls @ its @ failed @ others"
    "map Some calls = charged_calls X T D E ts (payment_for T E ?txs) (of_kinds T E [Call_Log] ?txs)"
    "map Some its = its_reports X T E ts (of_kinds T E [Call_Log] ?txs) (of_kinds T E its_kinds ?txs)"
    "map Some failed = failed_report T E tr"
    "map Some others = map (plain_report X T D E ts gas (approval_share gas (length (of_kinds T E [Approval_Log] ?txs))) refund)
       (of_kinds T E plain_kinds ?txs)"
    unfolding trace_report_def Let_def map_Some_append by blast
  have "\<not> failed_event e" if "e \<in> set calls" for e
    using charged_calls_event [OF es(2) that] call_report_not_failed payment_report_not_failed by blast
  moreover have "\<not> failed_event e" if "e \<in> set its" for e
  proof -
    from that have "Some e \<in> set (map Some its)" by simp
    then show ?thesis unfolding es(3)
      by (auto simp: its_reports_def bind_eq_Some_conv eq_commute [of "Some e"] dest: its_report_not_failed)
  qed
  moreover have "\<not> failed_event e" if "e \<in> set others" for e
  proof -
    from that have "Some e \<in> set (map Some others)" by simp
    then show ?thesis unfolding es(5) by (auto simp: eq_commute [of "Some e"] dest: plain_report_not_failed)
  qed
  moreover have "failed_event e" if "e \<in> set failed" for e
    using failed_report_failed [of e T E tr] that by (simp flip: es(4))
  ultimately have "filter failed_event es = failed" using es(1) by (simp add: filter_empty_conv filter_id_conv)
  with es(4) show ?thesis by simp
qed

text \<open>A trace with none of our logs that counts as a failed execution is one event.\<close>

lemma kind_of_stranger:
  assumes "account tx \<notin> {tp_gateway_address E, tp_gas_service_address E, tp_its_address E}"
  shows "kind_of T E tx = None"
proof -
  have "source_of T E k tx = None" for k
    using assms by (cases k) (auto simp: in_opcode_source_def executed_source_def jetton_source_def position_source_def
        split: option.splits)
  then show ?thesis by (simp add: kind_of_def find_None_iff)
qed

lemma failed_trace_parses:
  assumes silent: "\<forall>tx \<in> set (transactions tr). kind_of T E tx = None" and match: "insufficient_gas_matches E tr"
    and log: "get_opt (transactions tr) 0 = Some tx" "get_opt (out_msgs tx) 0 = Some m"
      "relayer_execute_wrapped_from_boc_b64 T (body (msg_content m)) = Inr log"
  shows "parse_trace X T D E ts tr =
    Inr [CannotExecuteMessageV2
           \<lparr>ev_type = ''CANNOT_EXECUTE_MESSAGE/V2'', ev_event_id = FAILURE_ID @ i64_to_string (end_lt tr), ev_meta = None\<rparr>
           (rew_message_id log) (rew_source_chain log) InsufficientGas (trace_id tr)]"
proof -
  obtain gas refund where g: "calc_message_gas (tp_our_addresses E) (transactions tr) = Inr gas"
      "calc_message_gas_native_gas_refunded (tp_our_addresses E) (transactions tr) = Inr refund"
    using gas_used_ok by blast
  have none: "of_kinds T E ks (transactions tr) = []" for ks
    using silent by (simp add: of_kinds_def filter_empty_conv)
  have "readable X T E tx" if "tx \<in> set (transactions tr)" for tx
    using silent that by (simp add: readable_def)
  then show ?thesis
    using match log none by (simp add: parse_trace_iff [OF g] trace_report_def failed_report_def its_reports_def FAILURE_ID_def Let_def)
qed

section \<open>Properties\<close>

text \<open>
  The trace starts with the wallet's message to itself: the first message that its first
  transaction sends has the given body.
\<close>

definition carried_by :: "('c, 'p, 'b) tonlib \<Rightarrow> 'c \<Rightarrow> trace \<Rightarrow> bool" where
  "carried_by T c tr \<longleftrightarrow>
     (case get_opt (transactions tr) 0 of None \<Rightarrow> False
      | Some tx \<Rightarrow> (case get_opt (out_msgs tx) 0 of None \<Rightarrow> False | Some m \<Rightarrow> from_boc_b64 T (body (msg_content m)) = Inr c))"

lemma execute_action_wrapped:
  assumes tm: "ton_messages T V" and law: "\<forall>c s. to_boc_hex T c = Inr s \<longrightarrow> from_boc_hex T s = Inr c"
    and hex: "hex_decode X (hex_encode X bytes) = Inr bytes" and keccak: "length (keccak256 X bytes) = 32"
    and std: "std_address (wallet_address v)"
    and utf8: "utf8_valid (as_bytes (et_message_id task))" "utf8_valid (as_bytes (et_source_chain task))"
    and oact: "execute_action X T B task dest bytes v = Inr oact"
    and body: "internal_transfer_body T [oact] n = Inr c" and boc: "from_boc_b64 T s = Inr c"
  shows "relayer_execute_wrapped_from_boc_b64 T s =
    Inr \<lparr>rew_message_id = et_message_id task, rew_source_chain = et_source_chain task\<rparr>"
proof -
  let ?m = "\<lparr>rem_message_id = et_message_id task, rem_source_chain = et_source_chain task,
           rem_source_address = et_source_address task, rem_destination_chain = b_chain_name B,
           rem_destination_address = dest, rem_payload = hex_encode X bytes, rem_relayer_address = wallet_address v\<rparr>"
  obtain cell s' where cell: "relayer_execute_to_cell X T ?m = Inr cell" "to_boc_hex T cell = Inr s'"
      "out_action T s' (unat (execute_send (b_gas_estimator B) (word_of_nat (length bytes)))) (b_gateway_address B) = Inr oact"
    using oact by (auto simp: execute_action_def and_then_eq_Inr_iff map_err_eq_Inr_iff)
  have ser: "from_boc_hex T s' = Inr cell" using law cell(2) by blast
  have "relayer_execute_wrapped_from_boc_b64 T s =
      Inr \<lparr>rew_message_id = rem_message_id ?m, rew_source_chain = rem_source_chain ?m\<rparr>"
    by (rule wrapped_execute_roundtrip [OF tm _ keccak _ _ _ cell(1) ser cell(3) body boc]) (simp_all add: hex std utf8)
  then show ?thesis by simp
qed

text \<open>
  Claim C4: a failed execution is reported under the id of the task that was sent. Whatever
  message the broadcaster posts for an execute task, it is the message of a wallet of the pool
  with one action, and when the trace that this message starts ends without enough gas, the
  events that the ingestor makes of the trace hold exactly one failed execution: the one with the
  task's message id and source chain. This relies on the round trips of the libraries for hex and
  serialised cells and on the layout of cells and messages.
\<close>

theorem failed_execute_reported:
  assumes tm: "ton_messages T V" and law: "\<forall>c s. to_boc_hex T c = Inr s \<longrightarrow> from_boc_hex T s = Inr c"
    and hex: "\<forall>bs. hex_decode X (hex_encode X bs) = Inr bs" and keccak: "\<forall>bs. length (keccak256 X bs) = 32"
    and std: "\<forall>(a, v) \<in> set (b_wallets B). std_address (wallet_address v)"
    and utf8: "utf8_valid (as_bytes (et_message_id task))" "utf8_valid (as_bytes (et_source_chain task))"
    and run: "broadcast_execute_message X T R B env task st = (res, st')"
    and boc: "boc \<in> set (drop (length (posted st)) (posted st'))"
  shows "\<exists>dest bytes v oact. address_from_str X (et_destination_address task) = Inr dest
    \<and> base64_decode X (et_payload task) = Inr bytes \<and> v \<in> snd ` set (b_wallets B)
    \<and> execute_action X T B task dest bytes v = Inr oact
    \<and> (\<exists>unix n. boc_of_id X T (b_gas_estimator B) unix v [oact] n = Inr boc)
    \<and> (\<forall>n c D E ts tr es. internal_transfer_body T [oact] n = Inr c \<longrightarrow> carried_by T c tr \<longrightarrow>
        insufficient_gas_matches E tr \<longrightarrow> parse_trace X T D E ts tr = Inr es \<longrightarrow>
        filter failed_event es =
          [CannotExecuteMessageV2
             \<lparr>ev_type = ''CANNOT_EXECUTE_MESSAGE/V2'', ev_event_id = FAILURE_ID @ i64_to_string (end_lt tr), ev_meta = None\<rparr>
             (et_message_id task) (et_source_chain task) InsufficientGas (trace_id tr)])"
proof -
  have "posted st' \<noteq> posted st" using boc by auto
  then obtain dest bytes v oact bocs where p: "address_from_str X (et_destination_address task) = Inr dest"
      "base64_decode X (et_payload task) = Inr bytes" "v \<in> snd ` set (b_wallets B)" "execute_action X T B task dest bytes v = Inr oact"
      "posted st' = posted st @ bocs" "\<forall>boc \<in> set bocs. \<exists>unix n. boc_of_id X T (b_gas_estimator B) unix v [oact] n = Inr boc"
    using execute_message_posts [OF run] by blast
  have id: "\<exists>unix n. boc_of_id X T (b_gas_estimator B) unix v [oact] n = Inr boc" using boc p(5,6) by auto
  have "std_address (wallet_address v)" using std p(3) by auto
  note wrapped = execute_action_wrapped [OF tm law spec [OF hex] spec [OF keccak] this utf8 p(4)]
  have "filter failed_event es =
          [CannotExecuteMessageV2
             \<lparr>ev_type = ''CANNOT_EXECUTE_MESSAGE/V2'', ev_event_id = FAILURE_ID @ i64_to_string (end_lt tr), ev_meta = None\<rparr>
             (et_message_id task) (et_source_chain task) InsufficientGas (trace_id tr)]"
    if tr: "internal_transfer_body T [oact] n = Inr c" "carried_by T c tr" "insufficient_gas_matches E tr"
      "parse_trace X T D E ts tr = Inr es" for n c D E ts tr es
  proof -
    obtain tx m where m: "get_opt (transactions tr) 0 = Some tx" "get_opt (out_msgs tx) 0 = Some m"
        "from_boc_b64 T (body (msg_content m)) = Inr c"
      using tr(2) by (auto simp: carried_by_def split: option.splits)
    show ?thesis
      using parse_trace_failed [OF tr(4)] tr(3) m(1,2) wrapped [OF tr(1) m(3)]
      by (auto simp: failed_report_def FAILURE_ID_def map_eq_Cons_conv)
  qed
  with p(1-4) id show ?thesis by blast
qed

text \<open>
  A broadcaster with one wallet, a task with enough gas, and a library whose reader of serialised
  cells knows two texts: that of the execute message and that of the wallet's message to itself.
\<close>

definition sample_sender :: ton_wallet_high_load_v3 where
  "sample_sender = (sample_wallet 65)\<lparr>wallet_address := sample_std_address\<rparr>"

definition sample_pool_broadcaster :: ton_broadcaster where
  "sample_pool_broadcaster = sample_broadcaster\<lparr>b_wallets := [(sample_std_address, sample_sender)]\<rparr>"

definition sample_paid_task :: execute_task where
  "sample_paid_task = sample_execute_task\<lparr>et_message_id := ''0xd7'', et_source_chain := ''avalanche'', et_available_gas := ''50''\<rparr>"

definition sample_env_ok :: broadcast_env where
  "sample_env_ok = \<lparr>acquire_at = 0, release_at = 1, attempts = (\<lambda>_. sample_attempt)\<rparr>"

definition echo_tonlib :: "rcell \<Rightarrow> rcell \<Rightarrow> (rcell, rparser, rparser) tonlib" where
  "echo_tonlib exec c = (tree_tonlib (\<lambda>s. Inr (if s = ''exec'' then exec else c)))
     \<lparr>to_boc_hex := (\<lambda>d. if d = exec then Inr ''exec'' else Inl [])\<rparr>"

lemma to_boc_hex_messages: "ton_messages (T\<lparr>to_boc_hex := f\<rparr>) V = ton_messages T V"
  by (cases T) (simp only: ton_messages_def ton_messages_axioms_def ton_numbers_def ton_numbers_axioms_def ton_cells_def tonlib.simps)

lemma echo_messages: "ton_messages (echo_tonlib exec c) tree_view"
  unfolding echo_tonlib_def to_boc_hex_messages by (rule tree.ton_messages_axioms)

definition sample_wallet_trace :: trace where
  "sample_wallet_trace =
     sample_trace
       [sample_transaction (TonAddress 0 [9]) 0 None [sample_message None None ''body'' None],
        sample_transaction (TonAddress 0 [8]) 0 None [sample_message None (Some OP_RELAYER_EXECUTE) [] None],
        (sample_transaction (TonAddress 0 [1]) 0 None [])\<lparr>description := sample_description (Some 106) None\<rparr>]"

lemma sample_wallet_trace_matches: "insufficient_gas_matches sample_env sample_wallet_trace"
  by (simp add: insufficient_gas_matches_def execute_failed_for_gas_def sample_wallet_trace_def sample_trace_def
      sample_env_def sample_transaction_def sample_message_def sample_description_def EXIT_CODE_INSUFFICIENT_GAS_def)

lemma kind_of_silent:
  assumes "in_msg tx = None" "out_msgs tx = [] \<or> account tx \<notin> {tp_gateway_address E, tp_its_address E}"
  shows "kind_of T E tx = None"
proof -
  have "source_of T E k tx = None" for k
    using assms by (cases k) (auto simp: in_opcode_source_def executed_source_def jetton_source_def position_source_def)
  then show ?thesis by (simp add: kind_of_def find_None_iff)
qed

lemma sample_wallet_trace_kinds:
  "tx \<in> set (transactions sample_wallet_trace) \<Longrightarrow> kind_of T sample_env tx = None"
  by (rule kind_of_silent) (auto simp: sample_wallet_trace_def sample_trace_def sample_transaction_def sample_env_def)

lemma echo_relayer_execute:
  "relayer_execute_to_cell X (echo_tonlib exec c) m = relayer_execute_to_cell X (tree_tonlib Inl) m"
  by (rule relayer_execute_to_cell_same) (simp add: same_builder_def echo_tonlib_def tree_tonlib_def)

lemma echo_transfer_body:
  "internal_transfer_body (echo_tonlib exec c) actions n = internal_transfer_body (tree_tonlib Inl) actions n"
  by (simp add: internal_transfer_body_def echo_tonlib_def tree_tonlib_def)

text \<open>The message of the sample task, and the body under which the wallet sends it.\<close>

lemma sample_task_action:
  obtains exec oact c where "\<And>d. execute_action sample_crates (echo_tonlib exec d) sample_pool_broadcaster sample_paid_task
      (TonAddress 0 (as_bytes ''dst'')) (as_bytes ''payload'') sample_sender = Inr oact"
    "\<And>d. internal_transfer_body (echo_tonlib exec d) [oact] 0 = Inr c"
proof -
  let ?m = "\<lparr>rem_message_id = ''0xd7'', rem_source_chain = ''avalanche'', rem_source_address = ''src'',
      rem_destination_chain = ''ton'', rem_destination_address = TonAddress 0 (as_bytes ''dst''),
      rem_payload = str_of_bytes (as_bytes ''payload''), rem_relayer_address = sample_std_address\<rparr>"
  have "hex_decode sample_crates (rem_payload ?m) = Inr (as_bytes ''payload'')" "std_address (rem_relayer_address ?m)" by simp_all
  moreover have "length (keccak256 sample_crates (as_bytes ''payload'')) = 32" by (simp add: sample_crates_def as_bytes_def)
  ultimately obtain exec where exec: "relayer_execute_to_cell sample_crates (tree_tonlib Inl) ?m = Inr exec"
    using relayer_execute_cell [OF tree.ton_cells_axioms, of sample_crates ?m "as_bytes ''payload''" Inl] by blast
  let ?act = "SendMsg SEND_MODE_IGNORE_ERRORS (RCell (rc_address sample_std_address) [exec])"
  have "out_action (echo_tonlib exec d) ''exec'' v sample_std_address = Inr ?act" for d v
    by (simp add: out_action_def echo_tonlib_def tree_tonlib_def plain_internal_message_def)
  moreover have "to_boc_hex (echo_tonlib exec d) exec = Inr ''exec''" for d by (simp add: echo_tonlib_def)
  ultimately have "execute_action sample_crates (echo_tonlib exec d) sample_pool_broadcaster sample_paid_task
      (TonAddress 0 (as_bytes ''dst'')) (as_bytes ''payload'') sample_sender = Inr ?act" for d
    using exec by (simp add: execute_action_def echo_relayer_execute sample_paid_task_def sample_execute_task_def
        sample_pool_broadcaster_def sample_broadcaster_def sample_sender_def)
  moreover obtain c where "internal_transfer_body (tree_tonlib Inl) [?act] 0 = Inr c"
    by (simp add: internal_transfer_body_def MAX_ACTIONS_def tree_tonlib_def rc_append_def)
  ultimately show thesis using that echo_transfer_body by metis
qed

text \<open>The first post of the sample broadcaster carries the id 0.\<close>

lemma sample_broadcast_posts:
  assumes act: "execute_action sample_crates T sample_pool_broadcaster sample_paid_task
      (TonAddress 0 (as_bytes ''dst'')) (as_bytes ''payload'') sample_sender = Inr oact"
    and boc: "boc_of_id sample_crates T sample_gas_estimates 1000 sample_sender [oact] 0 = Inr boc"
  shows "\<exists>res st'. broadcast_execute_message sample_crates T mem_redis sample_pool_broadcaster sample_env_ok sample_paid_task
    sample_broadcast_state = (res, st') \<and> posted st' = [boc]"
proof -
  obtain tbl where "wrapper_next True True (9 * SECOND) Map.empty (wallet_key sample_crates sample_sender)
      (wallet_timeout sample_sender) False = (Inr hlq_zero, tbl)"
    by (simp add: wrapper_eval hlq_zero_def)
  then have prep: "prepare_boc sample_crates T sample_gas_estimates sample_attempt sample_sender [oact] False Map.empty = (Inr boc, tbl)"
    using boc by (simp add: prepare_boc_id sample_attempt_def hlq_zero_def query_id_def)
  have send: "\<exists>resp s. send_to_chain sample_crates T sample_gas_estimates (\<lambda>_. sample_attempt) sample_sender [oact] None st = (Inr resp, s)
      \<and> posted s = [boc]" if "query_ids st = Map.empty" "posted st = []" for st :: "redis_mem broadcast_state"
    using prep that by (simp add: send_to_chain.simps [of _ _ _ _ _ _ None], simp add: sample_attempt_def)
  obtain r where acq: "acquire sample_crates (redis_lock mem_redis 0) [(sample_std_address, sample_sender)] Map.empty = (Inr sample_sender, r)"
    by (simp add: redis_eval)
  obtain resp s where s: "send_to_chain sample_crates T sample_gas_estimates (\<lambda>_. sample_attempt) sample_sender [oact] None
      (sample_broadcast_state\<lparr>locks := r\<rparr>) = (Inr resp, s)" "posted s = [boc]"
    using send [of "sample_broadcast_state\<lparr>locks := r\<rparr>"] by (auto simp: sample_broadcast_state_def)
  have env: "b_wallets sample_pool_broadcaster = [(sample_std_address, sample_sender)]" "b_gas_estimator sample_pool_broadcaster = sample_gas_estimates"
    "acquire_at sample_env_ok = 0" "attempts sample_env_ok = (\<lambda>_. sample_attempt)" "locks sample_broadcast_state = Map.empty"
    by (simp_all add: sample_pool_broadcaster_def sample_broadcaster_def sample_env_ok_def sample_broadcast_state_def)
  have task: "address_from_str sample_crates (et_destination_address sample_paid_task) = Inr (TonAddress 0 (as_bytes ''dst''))"
    "base64_decode sample_crates (et_payload sample_paid_task) = Inr (as_bytes ''payload'')"
    "\<not> available_gas sample_paid_task < execute_estimate sample_gas_estimates (word_of_nat (length (as_bytes ''payload'')))"
    by (simp_all add: sample_paid_task_def sample_execute_task_def available_gas_def sample_gas_estimates_def execute_estimate_def
        parse_u64_def strip_plus_def parse_nat_def digit_val_def as_bytes_def max_def)
  show ?thesis
    using s act by (simp add: broadcast_execute_message_def task env with_wallet_def acq execute_block_def send_and_report_def Let_def
        del: sample_crates_sel acquire.simps)
qed


lemma sample_wallet_trace_parses:
  assumes "relayer_execute_wrapped_from_boc_b64 T ''body'' = Inr log"
  shows "\<exists>e. parse_trace sample_crates T sample_prices sample_env [] sample_wallet_trace = Inr [e] \<and> failed_event e"
proof -
  have "get_opt (transactions sample_wallet_trace) 0
      = Some (sample_transaction (TonAddress 0 [9]) 0 None [sample_message None None ''body'' None])"
    by (simp add: sample_wallet_trace_def sample_trace_def get_opt_def)
  note parses = failed_trace_parses [OF _ sample_wallet_trace_matches this, of T, unfolded sample_transaction_def sample_message_def]
  show ?thesis
    by (rule exI, rule conjI, rule parses) (use assms sample_wallet_trace_kinds in \<open>auto simp: get_opt_def\<close>)
qed

lemma failed_execute_reported_witness:
  "\<exists>exec c res st' boc. let T = echo_tonlib exec c in
     broadcast_execute_message sample_crates T mem_redis sample_pool_broadcaster sample_env_ok sample_paid_task
       sample_broadcast_state = (res, st') \<and> posted st' = [boc]
     \<and> parse_trace sample_crates T sample_prices sample_env [] sample_wallet_trace =
         Inr [CannotExecuteMessageV2
           \<lparr>ev_type = ''CANNOT_EXECUTE_MESSAGE/V2'', ev_event_id = FAILURE_ID @ i64_to_string (end_lt sample_wallet_trace),
            ev_meta = None\<rparr> ''0xd7'' ''avalanche'' InsufficientGas (trace_id sample_wallet_trace)]"
proof -
  obtain exec oact c where act: "\<And>d. execute_action sample_crates (echo_tonlib exec d) sample_pool_broadcaster sample_paid_task
      (TonAddress 0 (as_bytes ''dst'')) (as_bytes ''payload'') sample_sender = Inr oact"
    and body: "\<And>d. internal_transfer_body (echo_tonlib exec d) [oact] 0 = Inr c"
    by (rule sample_task_action) (rule that)
  let ?T = "echo_tonlib exec c"
  have "\<exists>boc. boc_of_id sample_crates ?T sample_gas_estimates 1000 sample_sender [oact] 0 = Inr boc"
    by (rule boc_of_id_built [OF ton_messages.axioms(1) [OF echo_messages]])
      (auto simp: echo_tonlib_def tree_tonlib_def sample_sender_def sample_wallet_def)
  then obtain boc res st' where run: "broadcast_execute_message sample_crates ?T mem_redis sample_pool_broadcaster sample_env_ok
      sample_paid_task sample_broadcast_state = (res, st')" "posted st' = [boc]"
    using sample_broadcast_posts [OF act] by blast
  have law: "\<forall>c' s. to_boc_hex ?T c' = Inr s \<longrightarrow> from_boc_hex ?T s = Inr c'"
    by (simp add: echo_tonlib_def tree_tonlib_def)
  have hex: "\<forall>bs. hex_decode sample_crates (hex_encode sample_crates bs) = Inr bs" by simp
  have keccak: "\<forall>bs. length (keccak256 sample_crates bs) = 32" by (simp add: sample_crates_def min_def)
  have std: "\<forall>(a, v) \<in> set (b_wallets sample_pool_broadcaster). std_address (wallet_address v)"
    by (simp add: sample_pool_broadcaster_def sample_sender_def)
  have utf8: "utf8_valid (as_bytes (et_message_id sample_paid_task))" "utf8_valid (as_bytes (et_source_chain sample_paid_task))"
    by (simp_all add: sample_paid_task_def utf8_valid_avalanche)
  have ser: "from_boc_b64 ?T ''body'' = Inr c" by (simp add: echo_tonlib_def tree_tonlib_def)
  obtain e where e: "parse_trace sample_crates ?T sample_prices sample_env [] sample_wallet_trace = Inr [e]" "failed_event e"
    using sample_wallet_trace_parses execute_action_wrapped [OF echo_messages law spec [OF hex] spec [OF keccak] _ utf8 act body ser]
    by (fastforce simp: sample_sender_def)
  have carried: "carried_by ?T c sample_wallet_trace"
    by (simp add: carried_by_def sample_wallet_trace_def sample_trace_def sample_transaction_def sample_message_def get_opt_def ser)
  have "boc \<in> set (drop (length (posted sample_broadcast_state)) (posted st'))" using run(2) by (simp add: sample_broadcast_state_def)
  then obtain dest bytes v oact' where task: "address_from_str sample_crates (et_destination_address sample_paid_task) = Inr dest"
      "base64_decode sample_crates (et_payload sample_paid_task) = Inr bytes" "v \<in> snd ` set (b_wallets sample_pool_broadcaster)"
      "execute_action sample_crates ?T sample_pool_broadcaster sample_paid_task dest bytes v = Inr oact'"
    and reported: "\<forall>n c (D :: nat prices) E ts tr es. internal_transfer_body ?T [oact'] n = Inr c \<longrightarrow> carried_by ?T c tr \<longrightarrow>
        insufficient_gas_matches E tr \<longrightarrow> parse_trace sample_crates ?T D E ts tr = Inr es \<longrightarrow>
        filter failed_event es =
          [CannotExecuteMessageV2
             \<lparr>ev_type = ''CANNOT_EXECUTE_MESSAGE/V2'', ev_event_id = FAILURE_ID @ i64_to_string (end_lt tr), ev_meta = None\<rparr>
             (et_message_id sample_paid_task) (et_source_chain sample_paid_task) InsufficientGas (trace_id tr)]"
    by (elim failed_execute_reported [OF echo_messages law hex keccak std utf8 run(1), THEN exE] exE conjE) (rule that)
  have "dest = TonAddress 0 (as_bytes ''dst'')" "bytes = as_bytes ''payload''" "v = sample_sender"
    using task(1-3) by (simp_all add: sample_paid_task_def sample_execute_task_def sample_pool_broadcaster_def)
  with task(4) act body have "internal_transfer_body ?T [oact'] 0 = Inr c" by simp
  from reported [rule_format, OF this carried sample_wallet_trace_matches e(1)] e(2)
  have "e = CannotExecuteMessageV2
         \<lparr>ev_type = ''CANNOT_EXECUTE_MESSAGE/V2'', ev_event_id = FAILURE_ID @ i64_to_string (end_lt sample_wallet_trace), ev_meta = None\<rparr>
         ''0xd7'' ''avalanche'' InsufficientGas (trace_id sample_wallet_trace)"
    by (simp add: sample_paid_task_def)
  with e(1) run show ?thesis by (intro exI [of _ exec] exI [of _ c] exI [of _ res] exI [of _ st'] exI [of _ boc]) (simp add: Let_def)
qed

text \<open>\<open>required_gas\<close> of the handler, and the three ways in which it goes on.\<close>

definition required_gas :: "ton_broadcaster \<Rightarrow> u8 list \<Rightarrow> u64" where
  "required_gas B bytes = execute_estimate (b_gas_estimator B) (word_of_nat (length bytes))"

abbreviation decoded_task :: "crates \<Rightarrow> execute_task \<Rightarrow> ton_address \<Rightarrow> u8 list \<Rightarrow> bool" where
  "decoded_task X task dest bytes \<equiv>
     address_from_str X (et_destination_address task) = Inr dest \<and> base64_decode X (et_payload task) = Inr bytes"

lemma execute_message_cases:
  assumes "broadcast_execute_message X T R B env task st = (res, st')"
  shows "(\<nexists>dest bytes. decoded_task X task dest bytes) \<and> st' = st \<and> (\<exists>e. res = Inl (Err e))
    \<or> (\<exists>dest bytes. decoded_task X task dest bytes \<and>
        (available_gas task < required_gas B bytes \<and> st' = st \<and> (\<exists>r. res = Inr r \<and> br_tx_hash r = []
            \<and> br_message_id r = Some (et_message_id task)
            \<and> br_status r = Inl (broadcaster_error.InsufficientGas ''Cannot proceed to execute''))
         \<or> required_gas B bytes \<le> available_gas task))"
  using assms
  by (cases "address_from_str X (et_destination_address task)"; cases "base64_decode X (et_payload task)")
    (auto simp: broadcast_execute_message_def required_gas_def not_less split: if_splits)

lemma execute_action_value:
  assumes "execute_action X T B task dest bytes v = Inr oact"
  shows "\<exists>s amount. out_action T s amount (b_gateway_address B) = Inr oact \<and> unat (required_gas B bytes) \<le> amount"
proof -
  have "unat (required_gas B bytes) \<le> unat (execute_send (b_gas_estimator B) (word_of_nat (length bytes)))"
    unfolding required_gas_def using ton_gas.send_covers_estimate by (simp add: word_le_nat_alt)
  with assms show ?thesis by (auto simp: execute_action_def and_then_eq_Inr_iff map_err_eq_Inr_iff)
qed

text \<open>
  Claim C22: an execute task needs its gas. The state changes, a wallet is taken or a message is
  posted only if the address and the payload of the task decode and its available gas, read as
  a number, covers the estimate for the payload. If the address or the payload does not decode,
  the answer is an error and the state is untouched; if they decode and the gas is too little,
  the state is untouched and the answer has the status \<open>InsufficientGas\<close> and no
  transaction. And every message that is posted for the task is a wallet message with one action,
  to the gateway, and the value attached to that action is at least the estimate.
\<close>

theorem execute_needs_gas:
  assumes run: "broadcast_execute_message X T R B env task st = (res, st')"
  shows "(st' \<noteq> st \<longrightarrow> (\<exists>dest bytes. decoded_task X task dest bytes \<and> required_gas B bytes \<le> available_gas task))
    \<and> ((\<nexists>dest bytes. decoded_task X task dest bytes) \<longrightarrow> st' = st \<and> (\<exists>e. res = Inl (Err e)))
    \<and> (\<forall>dest bytes. decoded_task X task dest bytes \<and> available_gas task < required_gas B bytes \<longrightarrow>
        st' = st \<and> (\<exists>r. res = Inr r \<and> br_tx_hash r = [] \<and> br_message_id r = Some (et_message_id task)
          \<and> br_status r = Inl (broadcaster_error.InsufficientGas ''Cannot proceed to execute'')))
    \<and> (\<exists>bocs. posted st' = posted st @ bocs
        \<and> (\<forall>boc \<in> set bocs. \<exists>dest bytes v s amount act unix n. decoded_task X task dest bytes \<and> v \<in> snd ` set (b_wallets B)
            \<and> out_action T s amount (b_gateway_address B) = Inr act \<and> unat (required_gas B bytes) \<le> amount
            \<and> boc_of_id X T (b_gas_estimator B) unix v [act] n = Inr boc))"
    (is "?changes \<and> ?undecoded \<and> ?poor \<and> ?posts")
proof -
  have ?posts
  proof (cases "posted st' = posted st")
    case False
    from execute_message_posts [OF run this] obtain dest bytes v oact bocs where p: "decoded_task X task dest bytes"
        "v \<in> snd ` set (b_wallets B)" "execute_action X T B task dest bytes v = Inr oact" "posted st' = posted st @ bocs"
        "\<forall>boc \<in> set bocs. \<exists>unix n. boc_of_id X T (b_gas_estimator B) unix v [oact] n = Inr boc" by blast
    from execute_action_value [OF p(3)] p(1,2,4,5) show ?thesis by metis
  qed simp
  moreover have ?changes ?undecoded ?poor using execute_message_cases [OF run] by fastforce+
  ultimately show ?thesis by blast
qed

lemma execute_needs_gas_witness:
  "\<exists>r. broadcast_execute_message sample_crates sample_hex_tonlib mem_redis sample_broadcaster sample_outage
        sample_execute_task sample_broadcast_state = (Inr r, sample_broadcast_state)
     \<and> br_status r = Inl (broadcaster_error.InsufficientGas ''Cannot proceed to execute'')"
proof -
  obtain res st' where run: "broadcast_execute_message sample_crates sample_hex_tonlib mem_redis sample_broadcaster
      sample_outage sample_execute_task sample_broadcast_state = (res, st')"
    by fastforce
  have dec: "address_from_str sample_crates (et_destination_address sample_execute_task) = Inr (TonAddress 0 (as_bytes ''dst''))"
      "base64_decode sample_crates (et_payload sample_execute_task) = Inr (as_bytes ''payload'')"
    by (simp_all add: sample_execute_task_def)
  have gas: "available_gas sample_execute_task = 5"
    by (simp add: available_gas_def sample_execute_task_def parse_u64_def strip_plus_def parse_nat_def digit_val_def)
  have "required_gas sample_broadcaster (as_bytes ''payload'') = 18"
    by (simp add: required_gas_def execute_estimate_def sample_broadcaster_def sample_gas_estimates_def as_bytes_def max_def)
  with gas have "available_gas sample_execute_task < required_gas sample_broadcaster (as_bytes ''payload'')" by simp
  with conjunct1 [OF conjunct2 [OF conjunct2 [OF execute_needs_gas [OF run]]]] dec
  have "st' = sample_broadcast_state" "\<exists>r. res = Inr r \<and> br_status r = Inl (broadcaster_error.InsufficientGas ''Cannot proceed to execute'')"
    by blast+
  with run show ?thesis by blast
qed

text \<open>
  Claim C37: the second branch of the check for failed executions looks at no account. Take any
  trace of five transactions, none of them on the gateway, the gas service or the token service,
  whose fourth has an incoming message, whose fifth is sent the op code of a successful
  nullification and ends with the action code 37, and whose first sends a message that decodes as a
  wallet's execute message: it is parsed without error to a single event, a failed execution of the
  message that the first transaction names.
\<close>

theorem cannot_execute_without_gateway:
  assumes txs: "transactions tr = [tx0, tx1, tx2, tx3, tx4]"
    and strangers: "\<forall>tx \<in> set (transactions tr). account tx \<notin> {tp_gateway_address E, tp_gas_service_address E, tp_its_address E}"
    and first: "out_msgs tx0 = m # ms" "relayer_execute_wrapped_from_boc_b64 T (body (msg_content m)) = Inr log"
    and fourth: "in_msg tx3 \<noteq> None"
    and fifth: "in_msg tx4 = Some msg" "opcode msg = Some OP_NULLIFIED_SUCCESSFULLY" "action (description tx4) = Some a" "result_code a = 37"
  shows "parse_trace X T D E ts tr =
    Inr [CannotExecuteMessageV2
           \<lparr>ev_type = ''CANNOT_EXECUTE_MESSAGE/V2'', ev_event_id = FAILURE_ID @ i64_to_string (end_lt tr), ev_meta = None\<rparr>
           (rew_message_id log) (rew_source_chain log) InsufficientGas (trace_id tr)]"
proof (rule failed_trace_parses)
  show "insufficient_gas_matches E tr"
    using fourth fifth by (auto simp: insufficient_gas_matches_def nullified_without_funds_def txs get_opt_def)
qed (use strangers first kind_of_stranger in \<open>auto simp: txs get_opt_def\<close>)

lemma sample_wrapped_log:
  obtains T :: "(rcell, rparser, rparser) tonlib" where
    "relayer_execute_wrapped_from_boc_b64 T ''body'' = Inr \<lparr>rew_message_id = ''0xd7'', rew_source_chain = ''avalanche''\<rparr>"
proof -
  obtain exec oact c where act: "\<And>d. execute_action sample_crates (echo_tonlib exec d) sample_pool_broadcaster sample_paid_task
      (TonAddress 0 (as_bytes ''dst'')) (as_bytes ''payload'') sample_sender = Inr oact"
    and body: "\<And>d. internal_transfer_body (echo_tonlib exec d) [oact] 0 = Inr c"
    by (rule sample_task_action) (rule that)
  have "relayer_execute_wrapped_from_boc_b64 (echo_tonlib exec c) ''body'' =
      Inr \<lparr>rew_message_id = et_message_id sample_paid_task, rew_source_chain = et_source_chain sample_paid_task\<rparr>"
    by (rule execute_action_wrapped [OF echo_messages _ _ _ _ _ _ act body])
      (simp_all add: echo_tonlib_def tree_tonlib_def sample_crates_def min_def sample_sender_def sample_paid_task_def utf8_valid_avalanche)
  then show thesis by (intro that) (simp add: sample_paid_task_def)
qed

lemma cannot_execute_without_gateway_witness:
  "\<exists>(T :: (rcell, rparser, rparser) tonlib) tr c.
     (\<forall>tx \<in> set (transactions tr). account tx \<noteq> tp_gateway_address sample_env) \<and> length (transactions tr) = 5
     \<and> parse_trace sample_crates T sample_prices sample_env [] tr =
         Inr [CannotExecuteMessageV2 c ''0xd7'' ''avalanche'' InsufficientGas (trace_id tr)]"
proof -
  obtain T :: "(rcell, rparser, rparser) tonlib" where
    log: "relayer_execute_wrapped_from_boc_b64 T ''body'' = Inr \<lparr>rew_message_id = ''0xd7'', rew_source_chain = ''avalanche''\<rparr>"
    by (rule sample_wrapped_log)
  let ?m = "sample_message None None ''body'' None"
  let ?m4 = "sample_message None (Some OP_NULLIFIED_SUCCESSFULLY) [] None"
  let ?tx = "sample_transaction (TonAddress 0 [9]) 0 (Some ?m4) [?m]"
  let ?act = "\<lparr>action_success = None, action_valid = True, no_funds = True, action_status_change = [],
      total_fwd_fees = None, total_action_fees = None, result_code = 37, tot_actions = 1, spec_actions = 0,
      skipped_actions = 0, msgs_created = 0, action_list_hash = [],
      tot_msg_size = \<lparr>size_cells = [], size_bits = []\<rparr>\<rparr>"
  let ?tx4 = "?tx\<lparr>description := sample_description None (Some ?act)\<rparr>"
  let ?tr = "sample_trace [?tx, ?tx, ?tx, ?tx, ?tx4]"
  have "parse_trace sample_crates T sample_prices sample_env [] ?tr =
    Inr [CannotExecuteMessageV2
           \<lparr>ev_type = ''CANNOT_EXECUTE_MESSAGE/V2'', ev_event_id = FAILURE_ID @ i64_to_string (end_lt ?tr), ev_meta = None\<rparr>
           (rew_message_id \<lparr>rew_message_id = ''0xd7'', rew_source_chain = ''avalanche''\<rparr>)
           (rew_source_chain \<lparr>rew_message_id = ''0xd7'', rew_source_chain = ''avalanche''\<rparr>) InsufficientGas (trace_id ?tr)]"
    by (rule cannot_execute_without_gateway [where m = ?m and msg = ?m4 and a = ?act and ms = "[]"])
      (simp_all add: log sample_trace_def sample_transaction_def sample_env_def sample_description_def, simp_all add: sample_message_def log)
  moreover have "\<forall>tx \<in> set (transactions ?tr). account tx \<noteq> tp_gateway_address sample_env" "length (transactions ?tr) = 5"
    by (simp_all add: sample_trace_def sample_transaction_def sample_env_def)
  ultimately show ?thesis by (intro exI [of _ T] exI [of _ ?tr]) auto
qed

end
