(* ===== verification/Spec2Isabelle.thy ===== *)
theory Spec2Isabelle
  imports Lifecycle Execute_Path
begin

text \<open>
  A verification development of the TON relayer of Axelar, the Rust crate under \<open>src/\<close>.

  \<^bold>\<open>The program.\<close> The relayer moves cross-chain messages between the Axelar network and TON.
  On the reading side a subscriber polls a TON indexer for traces of the gateway's account,
  stores each trace in a table and puts the complete ones on a queue; a retry subscriber asks
  again for those that were incomplete; an ingestor takes a trace from the queue, recognises
  the logs of the gateway, the gas service and the token service in it, and turns them into
  events. On the writing side a broadcaster receives tasks (approve, execute, refund), encodes
  them as cells, lets a high-load wallet of a pool sign them under a query id that was not used
  before, and posts them. Locks in Redis keep two broadcasts off the same wallet; the query ids
  and the traces are rows in Postgres.

  \<^bold>\<open>The theories\<close>, in the order of their dependencies, with the code they model:

  \<^item> \<open>Relayer_Prelude\<close>: results and panics as values, bytes and strings, UTF-8, the integer
    parsers and printers of Rust, words.
  \<^item> \<open>Query_Id\<close> (\<open>src/src/high_load_query_id.rs\<close>): the pair of shift and bit number.
    Shown: \<open>next\<close> enumerates the ids in increasing order, and where \<open>has_next\<close> and
    \<open>next\<close> disagree.
  \<^item> \<open>Query_Id_Store\<close> (\<open>models/ton_wallet_query_id.rs\<close>,
    \<open>high_load_query_id_db_wrapper.rs\<close>): the table, its three statements, the wrapper that
    issues ids. Shown: the table's invariant, strictly increasing ids within a session, all
    failures, and the reuse of ids after a reset. Interface: the locale \<open>query_id_issuer\<close>.
  \<^item> \<open>Replay_Protection\<close>: the ids against the wallet contract, which is a parameter. Interface:
    the locale \<open>replay_guard\<close> with its documented laws: an id is refused as used only within
    three timeouts of its use, and always within one. The cleaning of used ids that the module
    comment of \<open>high_load_query_id_db_wrapper.rs\<close> quotes gives an instance. Shown: ids that are
    unused or spaced are not refused as used, and the sessions of the code are not spaced: an
    id issued late in a session is issued again right after the reset and is refused.
  \<^item> \<open>External\<close>: the crates that are not part of the repository, as parameter records,
    and the documented laws of Redis as the locale \<open>redis_store\<close>.
  \<^item> \<open>Wallet_Manager\<close> (\<open>lock_manager.rs\<close>, \<open>wallet_manager.rs\<close>, the wallets of
    \<open>config.rs\<close>): locks, \<open>acquire\<close> and \<open>release\<close>, and a step relation of several
    clients with time. Shown: mutual exclusion while nobody exceeds the life of the lock, that
    a free wallet is found, and how exclusion breaks after 60 seconds. Interface: the locale
    \<open>lock_manager\<close>, which \<open>redis_store\<close> provides as a sublocale.
  \<^item> \<open>Chain_Types\<close> (\<open>types.rs\<close>): the structs of the indexer's API and their conversions.
  \<^item> \<open>Gas\<close> (\<open>gas_estimator.rs\<close>, \<open>gas_calculator.rs\<close>): estimates and costs at machine
    width. Shown: the calculator computes the net flow out of the relayer's accounts.
    Interface: the locale \<open>gas_estimator\<close>.
  \<^item> \<open>Tonlib\<close>: the cells, parsers and builders of \<open>tonlib_core\<close> as a parameter, its
    documented laws as the locales \<open>ton_cells\<close> and \<open>ton_numbers\<close>, and an instance with
    trees of bits that satisfies them.
  \<^item> \<open>Cell_Codec\<close> (\<open>boc/buffer_to_cell.rs\<close>, \<open>boc/cell_to.rs\<close>, \<open>boc/op_code.rs\<close>):
    byte strings as chains of cells. Shown: the round trip.
  \<^item> \<open>Boc_Messages\<close> (the other files of \<open>boc/\<close>, \<open>hashing.rs\<close>,
    \<open>ton_constants.rs\<close>): the fifteen decoders and the two encoders. Shown: that op codes are
    checked, the layout of the execute message, the refund round trip.
  \<^item> \<open>High_Load_Wallet\<close> (\<open>out_action.rs\<close>, \<open>ton_wallet_high_load_v3.rs\<close>): the signed
    message of a wallet. Shown: its cells, and that it panics only on more than 254 actions.
  \<^item> \<open>Log_Decoders\<close>: what the decoders read, by one rule per read of the library. Shown: the
    logs of the gateway, the gas service and the token service are decoded to the values they
    hold, and the execute message inside a wallet's message is recognised again.
  \<^item> \<open>Tx_Parsers\<close> (\<open>transaction_parser/common.rs\<close> and \<open>parser_*.rs\<close>): the fourteen
    parsers. Interface: the trait \<open>Parser\<close> as the locale \<open>tx_parser\<close>, with an
    interpretation for each of them that reads a log.
  \<^item> \<open>Trace_Parser\<close> (\<open>transaction_parser/parser.rs\<close>): from a trace to events. Shown: events
    come from transactions of our contracts, calls are paired with gas payments and token
    service logs, and costs are charged.
  \<^item> \<open>Recognition\<close>: the kind of log a transaction holds, as a function of the transaction, and
    the parsers that \<open>create_parsers\<close> makes of it. Interface: the locale
    \<open>parser_collection\<close>, a collection that the parsers of some kinds are pushed on, with an
    interpretation for the calls, the token service logs and the remaining parsers. Shown: when
    parsing a trace panics.
  \<^item> \<open>Event_Reports\<close>: the report of each kind of log as a function of one transaction, and the
    report of a trace. Shown: parsing is this reference function, in both directions.
  \<^item> \<open>Trace_Reports\<close>: what follows for the events of a trace: every call and every settlement is
    reported once, in order and field by field, payments are credited once, events are well
    typed and every amount is in coins.
  \<^item> \<open>Event_Ids\<close>: the ids under which the API gets the events. Shown: over any number of traces
    no id is used twice, when the traces with a failed execution end at different times.
  \<^item> \<open>Trace_Store\<close> (\<open>models/ton_trace.rs\<close>): the table of traces and its statements.
    Interface: the traits \<open>AtomicUpsert\<close> and \<open>Retriable\<close> as the locale \<open>trace_model\<close>.
  \<^item> \<open>Subscribers\<close> (\<open>subscriber.rs\<close>, \<open>retry_subscriber.rs\<close>): the two pollers. Shown:
    what a poll returns, that a run of retry polls uses up the retries, and that a failure of
    the database in the middle of a poll loses a trace.
  \<^item> \<open>Feed_System\<close>: the pollers side by side as a step relation of single SQL statements,
    restarts, event updates and a growing chain. Shown, with answers that agree with the chain
    when they are stored: each complete trace is delivered once, and a poll delivers every
    finished trace after its cursor and moves the cursor past no other. A poll of the code is a
    run of these steps; and a stale answer makes the pollers deliver a trace twice.
  \<^item> \<open>Broadcaster\<close> (\<open>broadcaster.rs\<close>): sending with its retries and the handlers. Shown:
    wallets are given back, at most twelve posts, the refunded amount, and that a refund hides
    the failure of its send.
  \<^item> \<open>Broadcast_System\<close>: broadcasts side by side as a step relation: the two statements of
    the query id wrapper, the wallet pool, time and crashes. Shown: while the locks live no
    query id is issued twice, every handler is a run of these steps whose posts carry the
    issued ids, and after 60 seconds two clients get the same id.
  \<^item> \<open>Acceptance\<close>: the broadcasts side by side and the replay protection together. Shown: no
    message that the clients send is refused as already executed, when those of different
    sessions of a wallet are three timeouts apart.
  \<^item> \<open>Recovery\<close>: the retries of a send against a set of used ids. Shown: the forced increase of
    the shift gets past used ids of up to ten shifts above the stored one within the twelve
    attempts, and ids from \<open>2^22\<close> on are never sent.
  \<^item> \<open>Execute_Path\<close>: an execute task from the broadcaster over the wallet's message to the
    ingestor. Shown: a failed execution is reported once, under the id and the source chain of
    the task that was sent; a task is sent only with the gas it needs; and a trace without a
    transaction on our contracts can be reported as a failed execution.
  \<^item> \<open>Ingestor\<close> (\<open>ingestor.rs\<close>): the handlers. Shown: a stored trace that is handled has its
    events recorded and still counts as stored. Interface: the trait \<open>UpdateEvents\<close> as
    the locale \<open>event_recorder\<close>.
  \<^item> \<open>Client\<close> (\<open>client.rs\<close>, \<open>check_accounts.rs\<close>): requests, answers, the cleaning of the
    response text, the verdict on an account.
  \<^item> \<open>Includer\<close> (\<open>includer.rs\<close>, \<open>refund_manager.rs\<close>, \<open>config.rs\<close>): the assembly of the
    broadcaster from the configuration.
  \<^item> \<open>Programs\<close> (\<open>bin/\<close>): how the ingestor, the subscriber, the includer and the account
    checker build their parts from the configuration, and the loop of the account check.
    Shown: the programs agree on the accounts, a queued trace is ingested into events of the
    configured contracts, once, and when the account check returns.
  \<^item> \<open>Lifecycle\<close> (\<open>bin/\<close>): the six \<open>main\<close> functions from start to exit as lists of effects.
    Shown: which queues are opened and closed, that tasks are stopped and logs flushed, and that
    the includer, when its service stops by itself, ends as the second await of its join handle
    does.

  \<^bold>\<open>Conventions.\<close> A struct is a record and an enum a datatype; \<open>Result\<close> is a sum with the
  error on the left; code that can panic has errors of type \<open>'e exn\<close>. Machine integers are
  words, since the release profile has no overflow checks. State is passed explicitly: a
  table is a map from its primary key to rows, the lock store is a state of the Redis
  parameter, posts are a list. Code that is not in the repository (\<open>tonlib_core\<close>,
  \<open>relayer_core\<close>, Redis, Postgres' JSONB, HTTP, \<open>serde\<close>, decimals) is a parameter, and a
  call to the outside that can fail takes its outcome from an argument. An asynchronous
  function is the sequence of its effects; where tasks interleave, a step relation says how. A
  statement that the database does not answer leaves its table as it was.

  \<^bold>\<open>Loops.\<close> Loops over collections are structural recursion. \<open>cell_to_buffer\<close> follows
  references with the depth of the first cell as fuel, which is proved to be enough;
  \<open>send_to_chain\<close> terminates by the retries it has left, \<open>build_cell_chain\<close> by the bytes
  left, and the endless polling loops are the repeated steps of the step relations. The loop of
  \<open>check_accounts\<close> is a partial function with value \<open>None\<close> when it runs forever.

  \<^bold>\<open>Interleaving.\<close> Two step relations say how the tasks of the programs interleave: in
  \<open>Feed_System\<close> a step is one SQL statement of a poller, in \<open>Broadcast_System\<close> one statement
  of the query id wrapper or one operation on the pool. The sequential operations of the
  components are shown to be runs of these steps, so that the theorems on all interleavings
  apply to them.

  \<^bold>\<open>Not modelled.\<close> Logging, sentry and tracing spans; the services of \<open>relayer_core\<close> that the
  programs start (worker loops, distributor, heartbeats), whose outcome is a parameter and whose
  queue appears as the list of delivered traces; that a cancelled includer task ends is their
  contract. Further the HTTP client's timeouts and retry middleware, and cryptography, which is a
  parameter. The layout of an outgoing message is stated for query ids below \<open>2^22\<close>, since the
  code stores the id as a signed number of 23 bits; \<open>Recovery\<close> shows what happens above. The
  wallet contract is not in the repository and is a parameter with laws on its replay protection;
  the gateway, the gas service and the token service are not in it either, and appear as the
  transactions of a trace. Module lists, the unit tests with their fixtures and the tables that only
  \<open>relayer_core\<close> uses are left out. What remains of the crate besides these is modelled: a
  further extension would need the sources of the contracts or of \<open>relayer_core\<close>.
\<close>

end
